(* ===== verification/Prelude.thy ===== *)
theory Prelude
  imports Complex_Main "HOL-Library.Multiset" "HOL-Library.Char_ord" "HOL-Library.List_Lexorder"
begin

text \<open>
  Shared vocabulary of the development: the exceptions the services raise or catch, Python's
  result of a call that may raise, and the generic list lemmas the components share
  (first matching element, stable sort by a key, de-duplication that keeps the first
  occurrence, the first extremal element of a non-empty sequence).

  Python's \<open>str\<close> is \<open>string\<close>; where code changes case or trims, the model is exact on
  ASCII text. A \<open>datetime\<close> in UTC is the \<open>int\<close> number of microseconds since the epoch,
  a \<open>date\<close> the \<open>int\<close> number of days since the epoch.
\<close>

section \<open>Exceptions and results\<close>

datatype exn =
    KeyError
  | TypeError
  | ValueError
  | OSError
  | OverflowError
  | ZeroDivisionError
  | RecursionError
  | AttributeError
  | InvalidOperation
  | QueueEmpty
  | ConfigError string
  | RuntimeError string
  | TokenError
  | DbError string
  | RedisError string
  | HTTPException nat string
  | AuthError string
  | NotAllowedError string
  | HTTPError nat

type_synonym 'a result = "exn + 'a"

definition rbind :: "'a result \<Rightarrow> ('a \<Rightarrow> 'b result) \<Rightarrow> 'b result" where
  "rbind m f = (case m of Inl e \<Rightarrow> Inl e | Inr x \<Rightarrow> f x)"

lemma rbind_simps [simp]:
  "rbind (Inl e) f = Inl e"
  "rbind (Inr x) f = f x"
  by (simp_all add: rbind_def)

lemma rbind_eq_Inr: "rbind m f = Inr y \<longleftrightarrow> (\<exists>x. m = Inr x \<and> f x = Inr y)"
  by (cases m) auto

lemma rbind_eq_Inl: "rbind m f = Inl e \<longleftrightarrow> m = Inl e \<or> (\<exists>x. m = Inr x \<and> f x = Inl e)"
  by (cases m) auto

lemma map_sum_Inr: "map_sum f g m = Inr y \<Longrightarrow> (\<And>x. m = Inr x \<Longrightarrow> y = g x \<Longrightarrow> P) \<Longrightarrow> P"
  by (cases m) auto

lemma rbind_split:
  "P (rbind m f) \<longleftrightarrow> (\<forall>e. m = Inl e \<longrightarrow> P (Inl e)) \<and> (\<forall>x. m = Inr x \<longrightarrow> P (f x))"
  by (cases m) auto

definition is_ok :: "'a result \<Rightarrow> bool" where
  "is_ok r = (case r of Inl _ \<Rightarrow> False | Inr _ \<Rightarrow> True)"

lemma is_ok_simps [simp]: "is_ok (Inr x)" "\<not> is_ok (Inl e)"
  by (simp_all add: is_ok_def)

lemma is_ok_iff: "is_ok r \<longleftrightarrow> (\<exists>x. r = Inr x)"
  by (cases r) auto

text \<open>A comprehension whose element may raise: it stops at the first exception.\<close>

fun map_result :: "('a \<Rightarrow> 'b result) \<Rightarrow> 'a list \<Rightarrow> 'b list result" where
  "map_result f [] = Inr []"
| "map_result f (x # xs) =
     rbind (f x) (\<lambda>y. rbind (map_result f xs) (\<lambda>ys. Inr (y # ys)))"

lemma map_result_Inr_iff:
  "map_result f xs = Inr ys \<longleftrightarrow> list_all2 (\<lambda>x y. f x = Inr y) xs ys"
  by (induction xs arbitrary: ys)
    (auto simp: rbind_eq_Inr list_all2_Cons1)

lemma map_result_all_ok:
  "(\<And>x. x \<in> set xs \<Longrightarrow> f x = Inr (g x)) \<Longrightarrow> map_result f xs = Inr (map g xs)"
  by (induction xs) auto

section \<open>Lists\<close>

text \<open>\<open>dict.fromkeys(xs)\<close> keeps the first occurrence of every element, in order.\<close>

definition dedup :: "'a list \<Rightarrow> 'a list" where
  "dedup xs = rev (remdups (rev xs))"

lemma set_dedup [simp]: "set (dedup xs) = set xs"
  by (simp add: dedup_def)

lemma distinct_dedup [simp]: "distinct (dedup xs)"
  by (simp add: dedup_def)

lemma dedup_Nil_iff [simp]: "dedup xs = [] \<longleftrightarrow> xs = []"
  by (simp add: dedup_def)

lemma dedup_distinct: "distinct xs \<Longrightarrow> dedup xs = xs"
  by (simp add: dedup_def distinct_remdups_id)

lemma list_all2_in_right: "list_all2 P xs ys \<Longrightarrow> y \<in> set ys \<Longrightarrow> \<exists>x \<in> set xs. P x y"
  by (induction rule: list_all2_induct) auto

lemma list_all2_in_left: "list_all2 P xs ys \<Longrightarrow> x \<in> set xs \<Longrightarrow> \<exists>y \<in> set ys. P x y"
  by (induction rule: list_all2_induct) auto

text \<open>The first element of a sequence that satisfies a test.\<close>

lemma find_Some_split:
  "List.find P xs = Some x \<longleftrightarrow>
   (\<exists>ys zs. xs = ys @ x # zs \<and> P x \<and> (\<forall>y \<in> set ys. \<not> P y))"
proof (induction xs)
  case Nil
  then show ?case by simp
next
  case (Cons a xs)
  show ?case
  proof (cases "P a")
    case True
    then show ?thesis by (auto simp: Cons_eq_append_conv)
  next
    case False
    have "(\<exists>ys zs. a # xs = ys @ x # zs \<and> P x \<and> (\<forall>y \<in> set ys. \<not> P y)) \<longleftrightarrow>
          (\<exists>ys zs. xs = ys @ x # zs \<and> P x \<and> (\<forall>y \<in> set ys. \<not> P y))" (is "?l \<longleftrightarrow> ?r")
    proof
      assume ?l
      with False show ?r by (auto simp: Cons_eq_append_conv)
    next
      assume ?r
      then obtain ys zs where "xs = ys @ x # zs" "P x" "\<forall>y \<in> set ys. \<not> P y" by blast
      with False show ?l by (intro exI [of _ "a # ys"] exI [of _ zs]) simp
    qed
    with False Cons show ?thesis by simp
  qed
qed

lemma find_Some_sorted:
  assumes "sorted (map k xs)" and "List.find P xs = Some x" and "y \<in> set xs" and "P y"
  shows "k x \<le> k y"
proof -
  from assms(2) obtain ys zs where xs: "xs = ys @ x # zs" and "\<forall>y \<in> set ys. \<not> P y"
    by (auto simp: find_Some_split)
  with assms(3,4) have "y = x \<or> y \<in> set zs" by auto
  with assms(1) xs show ?thesis by (auto simp: sorted_append)
qed

text \<open>The first largest and the first smallest element of a non-empty sequence, as
  Python's \<open>max\<close> and \<open>min\<close> with a \<open>key\<close> choose them.\<close>

fun max_by :: "('a \<Rightarrow> 'k::linorder) \<Rightarrow> 'a \<Rightarrow> 'a list \<Rightarrow> 'a" where
  "max_by k best [] = best"
| "max_by k best (x # xs) = max_by k (if k best < k x then x else best) xs"

fun min_by :: "('a \<Rightarrow> 'k::linorder) \<Rightarrow> 'a \<Rightarrow> 'a list \<Rightarrow> 'a" where
  "min_by k best [] = best"
| "min_by k best (x # xs) = min_by k (if k x < k best then x else best) xs"

definition py_max :: "('a \<Rightarrow> 'k::linorder) \<Rightarrow> 'a list \<Rightarrow> 'a result" where
  "py_max k xs = (case xs of [] \<Rightarrow> Inl ValueError | y # ys \<Rightarrow> Inr (max_by k y ys))"

definition py_min :: "('a \<Rightarrow> 'k::linorder) \<Rightarrow> 'a list \<Rightarrow> 'a result" where
  "py_min k xs = (case xs of [] \<Rightarrow> Inl ValueError | y # ys \<Rightarrow> Inr (min_by k y ys))"

lemma max_by_in: "max_by k b xs \<in> insert b (set xs)"
proof (induction xs arbitrary: b)
  case (Cons x xs)
  show ?case using Cons [of x] Cons [of b] by auto
qed simp

lemma min_by_in: "min_by k b xs \<in> insert b (set xs)"
proof (induction xs arbitrary: b)
  case (Cons x xs)
  show ?case using Cons [of x] Cons [of b] by auto
qed simp

lemma max_by_ge: "y \<in> insert b (set xs) \<Longrightarrow> k y \<le> k (max_by k b xs)"
proof (induction xs arbitrary: b y)
  case Nil
  then show ?case by simp
next
  case (Cons x xs)
  let ?b = "if k b < k x then x else b"
  have "k ?b \<le> k (max_by k ?b xs)" by (rule Cons.IH) simp
  moreover have "k b \<le> k ?b" "k x \<le> k ?b" by auto
  ultimately show ?case using Cons.prems Cons.IH [of y ?b] by fastforce
qed

lemma min_by_le: "y \<in> insert b (set xs) \<Longrightarrow> k (min_by k b xs) \<le> k y"
proof (induction xs arbitrary: b y)
  case Nil
  then show ?case by simp
next
  case (Cons x xs)
  let ?b = "if k x < k b then x else b"
  have "k (min_by k ?b xs) \<le> k ?b" by (rule Cons.IH) simp
  moreover have "k ?b \<le> k b" "k ?b \<le> k x" by auto
  ultimately show ?case using Cons.prems Cons.IH [of y ?b] by fastforce
qed

lemma min_by_append_later:
  "\<forall>x \<in> set ys. k (min_by k b xs) \<le> k x \<Longrightarrow> min_by k b (xs @ ys) = min_by k b xs"
proof (induction xs arbitrary: b)
  case Nil
  then show ?case by (induction ys) auto
qed simp

lemma py_max_Inr:
  assumes "py_max k xs = Inr m"
  shows "m \<in> set xs" and "\<And>y. y \<in> set xs \<Longrightarrow> k y \<le> k m"
  using assms max_by_in [of k] max_by_ge [of _ _ _ k]
  by (auto simp: py_max_def split: list.splits)

lemma py_min_Inr:
  assumes "py_min k xs = Inr m"
  shows "m \<in> set xs" and "\<And>y. y \<in> set xs \<Longrightarrow> k m \<le> k y"
  using assms min_by_in [of k] min_by_le [of _ _ _ k]
  by (auto simp: py_min_def split: list.splits)

lemma py_max_ok_iff [simp]: "(\<exists>m. py_max k xs = Inr m) \<longleftrightarrow> xs \<noteq> []"
  by (cases xs) (auto simp: py_max_def)

lemma py_min_ok_iff [simp]: "(\<exists>m. py_min k xs = Inr m) \<longleftrightarrow> xs \<noteq> []"
  by (cases xs) (auto simp: py_min_def)

text \<open>Python's \<open>sorted\<close> with a key is stable, as \<open>sort_key\<close> is.\<close>

lemma sort_key_filter: "filter (\<lambda>x. k x = v) (sort_key k xs) = filter (\<lambda>x. k x = v) xs"
  by (rule sort_key_stable)

end
