(* ===== verification/PyFloat.thy ===== *)
theory PyFloat
  imports Prelude "HOL-Library.Log_Nat"
begin

text \<open>
  Python's \<open>float\<close>: IEEE 754 binary64 values over exact rationals, with the two infinities
  and the not-a-number value (the sign of zero is not modelled: no code here observes it).
  \<open>rnd\<close> is round-to-nearest, ties to even, with gradual underflow and overflow to infinity.
  Arithmetic rounds the exact result once, as the hardware does.

  The class order is the total order PostgreSQL gives \<open>NUMERIC\<close> and \<open>double precision\<close>,
  with NaN above everything; Python's comparisons are that order with every comparison
  involving NaN false.
\<close>

section \<open>Values and orders\<close>

datatype pyfloat = Fin rat | PosInf | NegInf | NaN

instantiation pyfloat :: linorder
begin

fun less_eq_pyfloat :: "pyfloat \<Rightarrow> pyfloat \<Rightarrow> bool" where
  "less_eq_pyfloat x NaN = True"
| "less_eq_pyfloat NaN x = False"
| "less_eq_pyfloat NegInf x = True"
| "less_eq_pyfloat x PosInf = True"
| "less_eq_pyfloat PosInf x = False"
| "less_eq_pyfloat x NegInf = False"
| "less_eq_pyfloat (Fin p) (Fin q) = (p \<le> q)"

definition less_pyfloat :: "pyfloat \<Rightarrow> pyfloat \<Rightarrow> bool" where
  "less_pyfloat x y \<longleftrightarrow> \<not> y \<le> x"

instance
proof
  fix x y z :: pyfloat
  show "x \<le> x" by (cases x) auto
  show "x \<le> y \<or> y \<le> x" by (cases x; cases y) auto
  show "x < y \<longleftrightarrow> x \<le> y \<and> \<not> y \<le> x"
    by (cases x; cases y) (auto simp: less_pyfloat_def)
  assume "x \<le> y"
  then show "y \<le> x \<Longrightarrow> x = y" by (cases x; cases y) auto
  from \<open>x \<le> y\<close> show "y \<le> z \<Longrightarrow> x \<le> z" by (cases x; cases y; cases z) auto
qed

end

lemma Fin_less [simp]: "Fin p < Fin q \<longleftrightarrow> p < q"
  by (auto simp: less_pyfloat_def)

lemma le_NaN [simp]: "x \<le> NaN"
  by (cases x) auto

lemma NaN_le_iff [simp]: "NaN \<le> x \<longleftrightarrow> x = NaN"
  by (cases x) auto

lemma NaN_not_less [simp]: "\<not> NaN < x"
  by (simp add: less_pyfloat_def)

definition py_lt :: "pyfloat \<Rightarrow> pyfloat \<Rightarrow> bool" where
  "py_lt x y \<longleftrightarrow> x \<noteq> NaN \<and> y \<noteq> NaN \<and> x < y"

definition py_le :: "pyfloat \<Rightarrow> pyfloat \<Rightarrow> bool" where
  "py_le x y \<longleftrightarrow> x \<noteq> NaN \<and> y \<noteq> NaN \<and> x \<le> y"

lemma py_lt_ordered [simp]: "x \<noteq> NaN \<Longrightarrow> y \<noteq> NaN \<Longrightarrow> py_lt x y \<longleftrightarrow> x < y"
  by (simp add: py_lt_def)

lemma py_le_ordered [simp]: "x \<noteq> NaN \<Longrightarrow> y \<noteq> NaN \<Longrightarrow> py_le x y \<longleftrightarrow> x \<le> y"
  by (simp add: py_le_def)

lemma py_lt_NaN [simp]: "\<not> py_lt x NaN" "\<not> py_lt NaN x"
  by (simp_all add: py_lt_def)

lemma py_le_NaN [simp]: "\<not> py_le x NaN" "\<not> py_le NaN x"
  by (simp_all add: py_le_def)

text \<open>Python's \<open>max\<close> and \<open>min\<close> over floats keep the running value unless the next one
  compares strictly above (below) it, so a leading NaN is never replaced.\<close>

fun fmax_from :: "pyfloat \<Rightarrow> pyfloat list \<Rightarrow> pyfloat" where
  "fmax_from b [] = b"
| "fmax_from b (x # xs) = fmax_from (if py_lt b x then x else b) xs"

fun fmin_from :: "pyfloat \<Rightarrow> pyfloat list \<Rightarrow> pyfloat" where
  "fmin_from b [] = b"
| "fmin_from b (x # xs) = fmin_from (if py_lt x b then x else b) xs"

definition fmax_list :: "pyfloat list \<Rightarrow> pyfloat result" where
  "fmax_list xs = (case xs of [] \<Rightarrow> Inl ValueError | y # ys \<Rightarrow> Inr (fmax_from y ys))"

definition fmin_list :: "pyfloat list \<Rightarrow> pyfloat result" where
  "fmin_list xs = (case xs of [] \<Rightarrow> Inl ValueError | y # ys \<Rightarrow> Inr (fmin_from y ys))"

lemma fmax_from_Max:
  "NaN \<notin> insert b (set xs) \<Longrightarrow> fmax_from b xs = Max (insert b (set xs))"
proof (induction xs arbitrary: b)
  case Nil
  then show ?case by simp
next
  case (Cons x xs)
  then have "fmax_from b (x # xs) = Max (insert (if b < x then x else b) (set xs))"
    by auto
  also have "\<dots> = Max (insert b (insert x (set xs)))"
    by (cases "xs = []") (auto simp: max_def)
  finally show ?case by simp
qed

lemma fmin_from_Min:
  "NaN \<notin> insert b (set xs) \<Longrightarrow> fmin_from b xs = Min (insert b (set xs))"
proof (induction xs arbitrary: b)
  case Nil
  then show ?case by simp
next
  case (Cons x xs)
  then have "fmin_from b (x # xs) = Min (insert (if x < b then x else b) (set xs))"
    by auto
  also have "\<dots> = Min (insert b (insert x (set xs)))"
    by (cases "xs = []") (auto simp: min_def)
  finally show ?case by simp
qed

lemma fmax_list_Max:
  "xs \<noteq> [] \<Longrightarrow> NaN \<notin> set xs \<Longrightarrow> fmax_list xs = Inr (Max (set xs))"
  using fmax_from_Max by (cases xs) (auto simp: fmax_list_def)

lemma fmin_list_Min:
  "xs \<noteq> [] \<Longrightarrow> NaN \<notin> set xs \<Longrightarrow> fmin_list xs = Inr (Min (set xs))"
  using fmin_from_Min by (cases xs) (auto simp: fmin_list_def)

section \<open>Rounding to binary64\<close>

text \<open>Round a rational to an integer, halves to even.\<close>

definition rhe :: "rat \<Rightarrow> int" where
  "rhe x = (let f = \<lfloor>x\<rfloor>; d = x - of_int f in
     if d < 1/2 then f else if 1/2 < d then f + 1 else if even f then f else f + 1)"

lemma rhe_cases: "rhe x = \<lfloor>x\<rfloor> \<and> x - of_int \<lfloor>x\<rfloor> \<le> 1/2 \<or> rhe x = \<lfloor>x\<rfloor> + 1 \<and> 1/2 \<le> x - of_int \<lfloor>x\<rfloor>"
  by (auto simp: rhe_def Let_def)

lemma rhe_of_int [simp]: "rhe (of_int n) = n"
  by (simp add: rhe_def)

lemma rhe_nearest: "of_int n - 1/2 < x \<Longrightarrow> x < of_int n + 1/2 \<Longrightarrow> rhe x = n"
proof -
  assume n: "of_int n - 1/2 < x" "x < of_int n + 1/2"
  then have "\<lfloor>x\<rfloor> = n \<or> \<lfloor>x\<rfloor> = n - 1" by linarith
  then show ?thesis
  proof
    assume "\<lfloor>x\<rfloor> = n"
    with n show ?thesis by (simp add: rhe_def)
  next
    assume "\<lfloor>x\<rfloor> = n - 1"
    with n show ?thesis by (simp add: rhe_def)
  qed
qed

lemma rhe_near: "\<bar>x - of_int n\<bar> < 1/2 \<Longrightarrow> rhe x = n"
proof -
  assume a: "\<bar>x - of_int n\<bar> < 1/2"
  then have "of_int n - 1/2 < x" "x < of_int n + 1/2" unfolding abs_less_iff by linarith+
  then show ?thesis by (rule rhe_nearest)
qed

lemma rhe_error: "\<bar>of_int (rhe x) - x\<bar> \<le> 1/2"
proof -
  have "of_int \<lfloor>x\<rfloor> \<le> x" "x < of_int \<lfloor>x\<rfloor> + 1" by linarith+
  with rhe_cases [of x] show ?thesis
    by (elim disjE conjE) (simp only: abs_le_iff of_int_add of_int_1, linarith)+
qed

lemma rhe_mono: "x \<le> y \<Longrightarrow> rhe x \<le> rhe y"
proof (cases "\<lfloor>x\<rfloor> = \<lfloor>y\<rfloor>")
  case True
  assume "x \<le> y"
  with True show ?thesis by (auto simp: rhe_def Let_def)
next
  case False
  assume "x \<le> y"
  with False have "\<lfloor>x\<rfloor> + 1 \<le> \<lfloor>y\<rfloor>" using floor_mono [of x y] by linarith
  moreover have "rhe x \<le> \<lfloor>x\<rfloor> + 1" "\<lfloor>y\<rfloor> \<le> rhe y" by (auto simp: rhe_def Let_def)
  ultimately show ?thesis by linarith
qed

lemma rhe_minus: "rhe (- x) = - rhe x"
proof (cases "x = of_int \<lfloor>x\<rfloor>")
  case True
  then obtain n where "x = of_int n" by blast
  moreover have "rhe (of_int (- n)) = - n" by (rule rhe_of_int)
  ultimately show ?thesis by simp
next
  case False
  have "of_int \<lfloor>x\<rfloor> \<le> x" "x < of_int \<lfloor>x\<rfloor> + 1" by linarith+
  with False have "\<lfloor>- x\<rfloor> = - \<lfloor>x\<rfloor> - 1"
    by (intro floor_unique) (auto, linarith+)
  then show ?thesis by (auto simp: rhe_def Let_def)
qed

lemma powi2_add: "(2::rat) powi a * 2 powi b = 2 powi (a + b)"
  by (simp add: power_int_add)

lemma powi2_pos [simp]: "0 < (2::rat) powi a"
  by simp

lemma powi2_less_iff [simp]: "(2::rat) powi a < 2 powi b \<longleftrightarrow> a < b"
  using power_int_strict_increasing [of a b "2::rat"] power_int_increasing [of b a "2::rat"]
  by (cases "a < b") auto

lemma powi2_le_iff [simp]: "(2::rat) powi a \<le> 2 powi b \<longleftrightarrow> a \<le> b"
  by (simp flip: not_less)

text \<open>\<open>ilog2 x\<close> is the exponent of the largest power of two that is at most \<open>x\<close>.\<close>

definition ilog2 :: "rat \<Rightarrow> int" where
  "ilog2 x = (let (a, b) = quotient_of x;
                  g = int (floorlog 2 (nat a)) - int (floorlog 2 (nat b))
              in if x < 2 powi g then g - 1 else g)"

lemma ilog2_bounds:
  assumes "0 < x"
  shows "2 powi ilog2 x \<le> x" and "x < 2 powi (ilog2 x + 1)"
proof -
  obtain a b where q: "quotient_of x = (a, b)" by fastforce
  then have b: "0 < b" and x: "x = of_int a / of_int b"
    by (simp_all add: quotient_of_denom_pos quotient_of_div)
  with assms have a: "0 < a" by (simp add: zero_less_divide_iff)
  let ?k = "floorlog 2 (nat a)" and ?l = "floorlog 2 (nat b)"
  let ?g = "int ?k - int ?l"
  have ka: "2 ^ (?k - 1) \<le> nat a" "nat a < 2 ^ ?k" "0 < ?k"
    using a floorlog_bounds [of "nat a" 2] floorlog_eq_zero_iff [of 2 "nat a"] by auto
  have lb: "2 ^ (?l - 1) \<le> nat b" "nat b < 2 ^ ?l" "0 < ?l"
    using b floorlog_bounds [of "nat b" 2] floorlog_eq_zero_iff [of 2 "nat b"] by auto
  have a1: "(2::rat) powi (int ?k - 1) \<le> of_int a" and a2: "of_int a < (2::rat) powi int ?k"
  proof -
    from ka(1) a have "(2::int) ^ (?k - 1) \<le> a" by (simp add: le_nat_iff)
    then have "of_int (2 ^ (?k - 1)) \<le> (of_int a :: rat)" by (simp only: of_int_le_iff)
    with ka(3) show "(2::rat) powi (int ?k - 1) \<le> of_int a"
      by (simp add: power_int_def nat_diff_distrib)
    from ka(2) a have "a < (2::int) ^ ?k" by (simp add: nat_less_iff)
    then have "(of_int a :: rat) < of_int (2 ^ ?k)" by (simp only: of_int_less_iff)
    then show "of_int a < (2::rat) powi int ?k" by simp
  qed
  have b1: "(2::rat) powi (int ?l - 1) \<le> of_int b" and b2: "of_int b < (2::rat) powi int ?l"
  proof -
    from lb(1) b have "(2::int) ^ (?l - 1) \<le> b" by (simp add: le_nat_iff)
    then have "of_int (2 ^ (?l - 1)) \<le> (of_int b :: rat)" by (simp only: of_int_le_iff)
    with lb(3) show "(2::rat) powi (int ?l - 1) \<le> of_int b"
      by (simp add: power_int_def nat_diff_distrib)
    from lb(2) b have "b < (2::int) ^ ?l" by (simp add: nat_less_iff)
    then have "(of_int b :: rat) < of_int (2 ^ ?l)" by (simp only: of_int_less_iff)
    then show "of_int b < (2::rat) powi int ?l" by simp
  qed
  have lo: "2 powi (?g - 1) \<le> x"
  proof -
    have "(2::rat) powi (?g - 1) * of_int b \<le> 2 powi (?g - 1) * 2 powi int ?l"
      using b2 by (intro mult_left_mono) auto
    also have "\<dots> = 2 powi (int ?k - 1)" by (simp only: powi2_add) simp
    also have "\<dots> \<le> of_int a" by (rule a1)
    finally show ?thesis using b by (simp add: x pos_le_divide_eq)
  qed
  have hi: "x < 2 powi (?g + 1)"
  proof -
    have "of_int a < (2::rat) powi int ?k" by (rule a2)
    also have "\<dots> = 2 powi (?g + 1) * 2 powi (int ?l - 1)" by (simp only: powi2_add) simp
    also have "\<dots> \<le> 2 powi (?g + 1) * of_int b"
      using b1 by (intro mult_left_mono) auto
    finally show ?thesis using b by (simp add: x pos_divide_less_eq)
  qed
  show "2 powi ilog2 x \<le> x" "x < 2 powi (ilog2 x + 1)"
    using lo hi by (auto simp: ilog2_def q Let_def)
qed


lemma ilog2_unique: "2 powi e \<le> x \<Longrightarrow> x < 2 powi (e + 1) \<Longrightarrow> ilog2 x = e"
proof -
  assume e: "2 powi e \<le> x" "x < 2 powi (e + 1)"
  then have "0 < x" by (meson less_le_trans powi2_pos)
  note b = ilog2_bounds [OF this]
  from e b have "(2::rat) powi e < 2 powi (ilog2 x + 1)" "(2::rat) powi ilog2 x < 2 powi (e + 1)"
    by (meson le_less_trans)+
  then show ?thesis by simp
qed

lemma ilog2_mono: "0 < x \<Longrightarrow> x \<le> y \<Longrightarrow> ilog2 x \<le> ilog2 y"
proof -
  assume "0 < x" "x \<le> y"
  with ilog2_bounds [of x] ilog2_bounds [of y] have "(2::rat) powi ilog2 x < 2 powi (ilog2 y + 1)"
    by (meson le_less_trans less_le_trans)
  then show ?thesis by simp
qed

text \<open>The exponent of the last bit of the nearest doubles, and rounding to that grid.\<close>

definition ulp_exp :: "rat \<Rightarrow> int" where
  "ulp_exp x = max (ilog2 \<bar>x\<bar> - 52) (- 1074)"

definition rnd_fin :: "rat \<Rightarrow> rat" where
  "rnd_fin x = (if x = 0 then 0 else of_int (rhe (x / 2 powi ulp_exp x)) * 2 powi ulp_exp x)"

definition rnd :: "rat \<Rightarrow> pyfloat" where
  "rnd x = (let y = rnd_fin x in
     if 2 ^ 1024 \<le> y then PosInf else if y \<le> - (2 ^ 1024) then NegInf else Fin y)"

definition is_double :: "rat \<Rightarrow> bool" where
  "is_double q \<longleftrightarrow> rnd q = Fin q"

lemma ulp_exp_minus [simp]: "ulp_exp (- x) = ulp_exp x"
  by (simp add: ulp_exp_def)

lemma rnd_fin_0 [simp]: "rnd_fin 0 = 0"
  by (simp add: rnd_fin_def)

lemma rnd_fin_minus: "rnd_fin (- x) = - rnd_fin x"
  by (simp add: rnd_fin_def rhe_minus flip: minus_divide_left)

lemma ulp_bounds:
  assumes "0 < x"
  shows "x / 2 powi ulp_exp x < 2 powi 53"
    and "- 1074 < ulp_exp x \<Longrightarrow> 2 powi 52 \<le> x / 2 powi ulp_exp x"
proof -
  have "x < 2 powi (ilog2 x + 1)" by (rule ilog2_bounds [OF assms])
  also have "\<dots> \<le> 2 powi (53 + ulp_exp x)" using assms by (simp add: ulp_exp_def)
  also have "\<dots> = 2 powi 53 * 2 powi ulp_exp x" by (simp only: powi2_add)
  finally show "x / 2 powi ulp_exp x < 2 powi 53" by (simp add: pos_divide_less_eq)
  assume "- 1074 < ulp_exp x"
  with assms have u: "52 + ulp_exp x = ilog2 x" by (simp add: ulp_exp_def)
  have "(2::rat) powi 52 * 2 powi ulp_exp x = 2 powi ilog2 x" by (simp only: powi2_add u)
  also have "\<dots> \<le> x" by (rule ilog2_bounds [OF assms])
  finally show "2 powi 52 \<le> x / 2 powi ulp_exp x" by (simp add: pos_le_divide_eq)
qed

lemma rhe_powi_nat: "rhe (2 powi int n) = 2 ^ n"
  using rhe_of_int [of "2 ^ n"] by simp

lemma rnd_fin_nonneg: "0 \<le> x \<Longrightarrow> 0 \<le> rnd_fin x"
proof -
  assume "0 \<le> x"
  then have "rhe 0 \<le> rhe (x / 2 powi ulp_exp x)" by (intro rhe_mono) simp
  then show ?thesis using rhe_of_int [of 0] by (simp add: rnd_fin_def)
qed

lemma rnd_fin_mono_pos:
  assumes "0 < x" "x \<le> y"
  shows "rnd_fin x \<le> rnd_fin y"
proof (cases "ulp_exp x = ulp_exp y")
  case True
  with assms show ?thesis
    by (auto simp: rnd_fin_def intro!: mult_right_mono rhe_mono divide_right_mono)
next
  case False
  have "ulp_exp x \<le> ulp_exp y" using ilog2_mono [OF assms] assms by (simp add: ulp_exp_def)
  with False have less: "ulp_exp x + 1 \<le> ulp_exp y" by simp
  have "rhe (x / 2 powi ulp_exp x) \<le> rhe (2 powi int 53)"
    using ulp_bounds(1) [OF assms(1)] by (intro rhe_mono) simp
  then have "of_int (rhe (x / 2 powi ulp_exp x)) \<le> (of_int (2 ^ 53) :: rat)"
    by (simp only: rhe_powi_nat of_int_le_iff)
  then have "rnd_fin x \<le> 2 powi 53 * 2 powi ulp_exp x"
    using assms by (simp add: rnd_fin_def)
  also have "\<dots> \<le> 2 powi 52 * 2 powi ulp_exp y" using less by (simp only: powi2_add powi2_le_iff)
  also have "\<dots> \<le> rnd_fin y"
  proof -
    have "- 1074 < ulp_exp y" using less by (simp add: ulp_exp_def)
    then have "2 powi 52 \<le> y / 2 powi ulp_exp y" using assms by (intro ulp_bounds) auto
    then have "rhe (2 powi int 52) \<le> rhe (y / 2 powi ulp_exp y)" by (intro rhe_mono) simp
    then have "of_int (2 ^ 52) \<le> (of_int (rhe (y / 2 powi ulp_exp y)) :: rat)"
      by (simp only: rhe_powi_nat of_int_le_iff)
    with assms show ?thesis by (simp add: rnd_fin_def)
  qed
  finally show ?thesis .
qed

lemma rnd_fin_mono: "x \<le> y \<Longrightarrow> rnd_fin x \<le> rnd_fin y"
proof -
  assume le: "x \<le> y"
  consider "0 < x" | "y < 0" | "x \<le> 0" "0 \<le> y" by linarith
  then show ?thesis
  proof cases
    case 1
    with le show ?thesis by (simp add: rnd_fin_mono_pos)
  next
    case 2
    with le have "rnd_fin (- y) \<le> rnd_fin (- x)" by (intro rnd_fin_mono_pos) auto
    then show ?thesis by (simp add: rnd_fin_minus)
  next
    case 3
    then have "0 \<le> rnd_fin (- x)" "0 \<le> rnd_fin y" by (simp_all add: rnd_fin_nonneg)
    then show ?thesis by (simp add: rnd_fin_minus)
  qed
qed

lemma rnd_fin_error: "x \<noteq> 0 \<Longrightarrow> \<bar>rnd_fin x - x\<bar> \<le> 2 powi ulp_exp x / 2"
proof -
  assume "x \<noteq> 0"
  then have "rnd_fin x - x = (of_int (rhe (x / 2 powi ulp_exp x)) - x / 2 powi ulp_exp x) * 2 powi ulp_exp x"
    by (simp add: rnd_fin_def left_diff_distrib)
  then have "\<bar>rnd_fin x - x\<bar> = \<bar>of_int (rhe (x / 2 powi ulp_exp x)) - x / 2 powi ulp_exp x\<bar> * 2 powi ulp_exp x"
    by (simp add: abs_mult)
  also have "\<dots> \<le> 1/2 * 2 powi ulp_exp x"
    by (intro mult_right_mono rhe_error) simp
  finally show ?thesis by simp
qed

text \<open>Below a power of two the error is at most half a unit in the 53rd place.\<close>

lemma rnd_fin_close:
  assumes "0 < x" "x < 2 powi e" "- 1021 \<le> e"
  shows "\<bar>rnd_fin x - x\<bar> \<le> 2 powi (e - 53) / 2"
proof -
  have "(2::rat) powi ilog2 x < 2 powi e"
    using ilog2_bounds(1) [OF assms(1)] assms(2) by (rule le_less_trans)
  then have "ulp_exp x \<le> e - 53" using assms(1,3) by (simp add: ulp_exp_def)
  then have "2 powi ulp_exp x \<le> (2::rat) powi (e - 53)" by simp
  with rnd_fin_error [of x] assms(1) show ?thesis by linarith
qed

lemma rnd_mono: "x \<le> y \<Longrightarrow> rnd x \<le> rnd y"
  using rnd_fin_mono [of x y] by (auto simp: rnd_def Let_def)

lemma rnd_not_NaN [simp]: "rnd x \<noteq> NaN"
  by (simp add: rnd_def Let_def)

text \<open>An integer of at most 53 bits times a power of two is not changed by rounding.\<close>

lemma rnd_fin_exact_pos:
  assumes "0 < m" "m \<le> 2 ^ 53" "- 1074 \<le> e" and y: "y = of_int m * 2 powi e"
  shows "rnd_fin y = y"
proof -
  have pos: "0 < y" using assms by simp
  have "(of_int m :: rat) \<le> of_int (2 ^ 53)" using assms(2) by (simp only: of_int_le_iff)
  then have "y \<le> 2 powi 53 * 2 powi e" using y by (simp add: mult_right_mono)
  then have le: "y \<le> 2 powi (53 + e)" by (simp only: powi2_add)
  have "(2::rat) powi ilog2 y \<le> 2 powi (53 + e)"
    using ilog2_bounds(1) [OF pos] le by (rule order_trans)
  then have ile: "ilog2 y \<le> 53 + e" by simp
  have "\<exists>n. y / 2 powi ulp_exp y = of_int n"
  proof (cases "ilog2 y \<le> 52 + e")
    case True
    then have u: "ulp_exp y \<le> e" using pos assms(3) by (simp add: ulp_exp_def)
    have "y = of_int m * (2 powi (e - ulp_exp y) * 2 powi ulp_exp y)"
      by (simp only: powi2_add y) simp
    moreover have "(2::rat) powi (e - ulp_exp y) = of_int (2 ^ nat (e - ulp_exp y))"
      using u by (simp add: power_int_def)
    ultimately have "y = of_int (m * 2 ^ nat (e - ulp_exp y)) * 2 powi ulp_exp y"
      by (simp only: of_int_mult mult.assoc)
    then show ?thesis by (metis nonzero_mult_div_cancel_right powi2_pos less_numeral_extra(3))
  next
    case False
    with ile have i: "ilog2 y = 53 + e" by simp
    then have "2 powi (53 + e) \<le> y" using ilog2_bounds(1) [OF pos] by simp
    with le have y': "y = 2 powi (53 + e)" by simp
    have u: "ulp_exp y = 1 + e" using i pos assms(3) by (simp add: ulp_exp_def)
    have "y = of_int (2 ^ 52) * 2 powi ulp_exp y"
    proof -
      have "of_int (2 ^ 52) * 2 powi ulp_exp y = (2::rat) powi 52 * 2 powi (1 + e)" by (simp add: u)
      also have "\<dots> = y" by (simp only: powi2_add y') simp
      finally show ?thesis ..
    qed
    then show ?thesis by (metis nonzero_mult_div_cancel_right powi2_pos less_numeral_extra(3))
  qed
  then obtain n where "y / 2 powi ulp_exp y = of_int n" by blast
  moreover from this have "y = of_int n * 2 powi ulp_exp y" by (simp add: field_simps)
  ultimately show ?thesis by (simp add: rnd_fin_def)
qed

lemma rnd_fin_grid: "0 < x \<Longrightarrow> \<exists>m e. 0 \<le> m \<and> m \<le> 2 ^ 53 \<and> - 1074 \<le> e \<and> rnd_fin x = of_int m * 2 powi e"
proof -
  assume "0 < x"
  let ?m = "rhe (x / 2 powi ulp_exp x)"
  have "?m \<le> rhe (2 powi int 53)" using ulp_bounds(1) [OF \<open>0 < x\<close>] by (intro rhe_mono) simp
  moreover have "rhe 0 \<le> ?m" using \<open>0 < x\<close> by (intro rhe_mono) simp
  moreover have "rhe 0 = 0" using rhe_of_int [of 0] by simp
  moreover have "- 1074 \<le> ulp_exp x" by (simp add: ulp_exp_def)
  moreover have "rnd_fin x = of_int ?m * 2 powi ulp_exp x" using \<open>0 < x\<close> by (simp add: rnd_fin_def)
  ultimately show ?thesis unfolding rhe_powi_nat by (intro exI [of _ ?m] exI [of _ "ulp_exp x"]) simp
qed

lemma rnd_fin_idem_pos: "0 < x \<Longrightarrow> rnd_fin (rnd_fin x) = rnd_fin x"
proof -
  assume "0 < x"
  then obtain m e where m: "0 \<le> m" "m \<le> 2 ^ 53" "- 1074 \<le> e" "rnd_fin x = of_int m * 2 powi e"
    using rnd_fin_grid by blast
  show ?thesis
  proof (cases "m = 0")
    case True
    with m show ?thesis by simp
  next
    case False
    with m have "0 < m" by simp
    from rnd_fin_exact_pos [OF this m(2-4)] show ?thesis .
  qed
qed

lemma rnd_fin_idem [simp]: "rnd_fin (rnd_fin x) = rnd_fin x"
proof -
  consider "0 < x" | "x = 0" | "0 < - x" by linarith
  then show ?thesis
  proof cases
    case 1
    then show ?thesis by (rule rnd_fin_idem_pos)
  next
    case 3
    from rnd_fin_idem_pos [OF this] show ?thesis by (simp add: rnd_fin_minus)
  qed simp
qed

lemma rnd_is_double: "rnd x = Fin q \<Longrightarrow> is_double q"
  by (auto simp: is_double_def rnd_def Let_def split: if_splits)

lemma is_double_minus [simp]: "is_double (- q) \<longleftrightarrow> is_double q"
  by (auto simp: is_double_def rnd_def Let_def rnd_fin_minus split: if_splits)

lemma is_double_int:
  assumes "\<bar>m\<bar> \<le> 2 ^ 53" shows "is_double (of_int m)"
proof -
  have pos: "is_double (of_int n)" if n: "0 < n" "n \<le> 2 ^ 53" for n
  proof -
    have "rnd_fin (of_int n) = of_int n" using n by (intro rnd_fin_exact_pos [of n 0]) simp_all
    moreover have "(of_int n :: rat) \<le> of_int (2 ^ 53)" using n(2) by (simp only: of_int_le_iff)
    moreover have "(0::rat) < of_int n" using n by simp
    ultimately show ?thesis by (simp add: is_double_def rnd_def)
  qed
  consider "0 < m" | "m = 0" | "0 < - m" by linarith
  then show ?thesis
  proof cases
    case 1
    with assms show ?thesis by (intro pos) auto
  next
    case 2
    then show ?thesis by (simp add: is_double_def rnd_def)
  next
    case 3
    then have "is_double (of_int (- m))" using assms by (intro pos) auto
    then show ?thesis by simp
  qed
qed

section \<open>Arithmetic\<close>

text \<open>\<open>float(n)\<close> of an \<open>int\<close>: an integer beyond the largest double raises.\<close>

definition float_of_int :: "int \<Rightarrow> pyfloat result" where
  "float_of_int n = (case rnd (of_int n) of Fin q \<Rightarrow> Inr (Fin q) | _ \<Rightarrow> Inl OverflowError)"

fun fneg :: "pyfloat \<Rightarrow> pyfloat" where
  "fneg (Fin q) = Fin (- q)"
| "fneg PosInf = NegInf"
| "fneg NegInf = PosInf"
| "fneg NaN = NaN"

fun fadd :: "pyfloat \<Rightarrow> pyfloat \<Rightarrow> pyfloat" where
  "fadd (Fin p) (Fin q) = rnd (p + q)"
| "fadd NaN y = NaN"
| "fadd x NaN = NaN"
| "fadd PosInf NegInf = NaN"
| "fadd NegInf PosInf = NaN"
| "fadd PosInf y = PosInf"
| "fadd x PosInf = PosInf"
| "fadd NegInf y = NegInf"
| "fadd x NegInf = NegInf"

definition fsub :: "pyfloat \<Rightarrow> pyfloat \<Rightarrow> pyfloat" where
  "fsub x y = fadd x (fneg y)"

definition finf :: "rat \<Rightarrow> pyfloat" where
  "finf s = (if s = 0 then NaN else if 0 < s then PosInf else NegInf)"

fun fmul :: "pyfloat \<Rightarrow> pyfloat \<Rightarrow> pyfloat" where
  "fmul (Fin p) (Fin q) = rnd (p * q)"
| "fmul NaN y = NaN"
| "fmul x NaN = NaN"
| "fmul PosInf (Fin q) = finf q"
| "fmul NegInf (Fin q) = finf (- q)"
| "fmul (Fin p) PosInf = finf p"
| "fmul (Fin p) NegInf = finf (- p)"
| "fmul PosInf PosInf = PosInf"
| "fmul PosInf NegInf = NegInf"
| "fmul NegInf PosInf = NegInf"
| "fmul NegInf NegInf = PosInf"

text \<open>Division by a positive constant.\<close>

fun fdiv_const :: "pyfloat \<Rightarrow> rat \<Rightarrow> pyfloat" where
  "fdiv_const (Fin p) c = rnd (p / c)"
| "fdiv_const x c = x"

text \<open>Python's two-argument \<open>min\<close>.\<close>

definition fmin2 :: "pyfloat \<Rightarrow> pyfloat \<Rightarrow> pyfloat" where
  "fmin2 x y = (if py_lt y x then y else x)"

lemma rnd_double: "is_double q \<Longrightarrow> rnd q = Fin q"
  by (simp add: is_double_def)

lemma is_double_0 [simp]: "is_double 0" and rnd_0 [simp]: "rnd 0 = Fin 0"
  using is_double_int [of 0] by (simp_all add: is_double_def)

lemma is_double_numeral:
  "numeral n \<le> (2 ^ 53 :: int) \<Longrightarrow> is_double (numeral n)"
  using is_double_int [of "numeral n"] by simp

lemma is_double_1 [simp]: "is_double 1"
  using is_double_int [of 1] by simp

text \<open>Doubles are exactly the values of the grid: an integer of at most 53 bits times a power
  of two not below the smallest subnormal.\<close>

lemma double_grid:
  assumes "is_double q" "0 < q"
  shows "\<exists>m e. 0 < m \<and> m \<le> 2 ^ 53 \<and> - 1074 \<le> e \<and> q = of_int m * 2 powi e"
proof -
  have "rnd_fin q = q" using assms(1) by (auto simp: is_double_def rnd_def Let_def split: if_splits)
  with rnd_fin_grid [OF assms(2)] obtain m e where
    me: "0 \<le> m" "m \<le> 2 ^ 53" "- 1074 \<le> e" "q = of_int m * 2 powi e" by auto
  with assms(2) have "m \<noteq> 0" by auto
  with me show ?thesis by (intro exI [of _ m] exI [of _ e]) simp
qed

lemma grid_double:
  assumes "0 \<le> m" "m \<le> 2 ^ 53" "- 1074 \<le> e" "of_int m * 2 powi e < (2 ^ 1024 :: rat)"
  shows "is_double (of_int m * 2 powi e)"
proof (cases "m = 0")
  case False
  with assms have "rnd_fin (of_int m * 2 powi e) = of_int m * 2 powi e"
    by (intro rnd_fin_exact_pos [of m e]) auto
  moreover have "0 \<le> of_int m * (2::rat) powi e" using assms(1) by simp
  ultimately show ?thesis using assms(4) by (simp add: is_double_def rnd_def)
qed simp

lemma is_double_less: "is_double q \<Longrightarrow> q < 2 ^ 1024"
  by (auto simp: is_double_def rnd_def Let_def split: if_splits)

text \<open>Evaluating \<open>rnd\<close> at a concrete number, given its binary exponent.\<close>

lemma rnd_fin_eval:
  assumes "2 powi e \<le> x" "x < 2 powi (e + 1)" "- 1022 \<le> e"
  shows "rnd_fin x = of_int (rhe (x / 2 powi (e - 52))) * 2 powi (e - 52)"
proof -
  have "0 < x" using assms(1) by (meson less_le_trans powi2_pos)
  moreover from this have "ulp_exp x = e - 52"
    using ilog2_unique [OF assms(1,2)] assms(3) by (simp add: ulp_exp_def)
  ultimately show ?thesis by (simp add: rnd_fin_def)
qed

end
