(* ===== verification/PyText.thy ===== *)
theory PyText
  imports PyFloat
begin

text \<open>
  The string functions of Python the services use: trimming, case, \<open>split\<close>, \<open>rstrip\<close> of a
  character, and the conversions \<open>int(text)\<close>, \<open>float(text)\<close> and \<open>str(n)\<close>. The grammars of
  \<open>int\<close> and \<open>float\<close> are the language's: surrounding whitespace, an optional sign, digits
  with single underscores between them, a fraction, an exponent, and the words for infinity
  and not-a-number in any case.
\<close>

section \<open>Trimming and case\<close>

definition char_code :: "char \<Rightarrow> nat" where
  "char_code c = of_char c"

definition is_space :: "char \<Rightarrow> bool" where
  "is_space c = (let n = char_code c in 9 \<le> n \<and> n \<le> 13 \<or> 28 \<le> n \<and> n \<le> 32 \<or> n = 133 \<or> n = 160)"

definition is_digit :: "char \<Rightarrow> bool" where
  "is_digit c = (let n = char_code c in 48 \<le> n \<and> n \<le> 57)"

definition to_upper :: "char \<Rightarrow> char" where
  "to_upper c = (let n = char_code c in if 97 \<le> n \<and> n \<le> 122 then char_of (n - 32) else c)"

definition to_lower :: "char \<Rightarrow> char" where
  "to_lower c = (let n = char_code c in if 65 \<le> n \<and> n \<le> 90 then char_of (n + 32) else c)"

definition upper :: "string \<Rightarrow> string" where
  "upper = map to_upper"

definition lower :: "string \<Rightarrow> string" where
  "lower = map to_lower"

definition lstrip :: "(char \<Rightarrow> bool) \<Rightarrow> string \<Rightarrow> string" where
  "lstrip P s = dropWhile P s"

definition rstrip :: "(char \<Rightarrow> bool) \<Rightarrow> string \<Rightarrow> string" where
  "rstrip P s = rev (dropWhile P (rev s))"

definition strip :: "string \<Rightarrow> string" where
  "strip s = rstrip is_space (lstrip is_space s)"

lemma char_code_char_of: "n < 256 \<Longrightarrow> char_code (char_of n) = n"
  by (simp add: char_code_def)

lemma to_upper_idem [simp]: "to_upper (to_upper c) = to_upper c"
  by (auto simp: to_upper_def Let_def char_code_char_of)

lemma to_lower_idem [simp]: "to_lower (to_lower c) = to_lower c"
  by (auto simp: to_lower_def Let_def char_code_char_of)

lemma upper_idem [simp]: "upper (upper s) = upper s"
  by (simp add: upper_def comp_def)

lemma lower_idem [simp]: "lower (lower s) = lower s"
  by (simp add: lower_def comp_def)

lemma length_upper [simp]: "length (upper s) = length s"
  by (simp add: upper_def)

lemma length_lower [simp]: "length (lower s) = length s"
  by (simp add: lower_def)

lemma is_space_to_upper [simp]: "is_space (to_upper c) = is_space c"
  by (auto simp: is_space_def to_upper_def Let_def char_code_char_of)

lemma is_space_to_lower [simp]: "is_space (to_lower c) = is_space c"
  by (auto simp: is_space_def to_lower_def Let_def char_code_char_of)

lemma set_rstrip: "set (rstrip P s) \<subseteq> set s"
  by (auto simp: rstrip_def dest: set_dropWhileD)

lemma set_lstrip: "set (lstrip P s) \<subseteq> set s"
  by (auto simp: lstrip_def dest: set_dropWhileD)

lemma set_strip: "set (strip s) \<subseteq> set s"
  unfolding strip_def by (meson order_trans set_rstrip set_lstrip)

lemma last_rstrip: "rstrip P s \<noteq> [] \<Longrightarrow> \<not> P (last (rstrip P s))"
  using hd_dropWhile [of P "rev s"] by (simp add: rstrip_def last_rev)

lemma rstrip_id: "s = [] \<or> \<not> P (last s) \<Longrightarrow> rstrip P s = s"
  by (cases s rule: rev_cases) (auto simp: rstrip_def)

lemma rstrip_append: "\<exists>t. s = rstrip P s @ t \<and> (\<forall>c \<in> set t. P c)"
proof (intro exI conjI)
  have "rev s = takeWhile P (rev s) @ dropWhile P (rev s)" by simp
  then show "s = rstrip P s @ rev (takeWhile P (rev s))"
    unfolding rstrip_def by (metis rev_append rev_rev_ident)
  show "\<forall>c \<in> set (rev (takeWhile P (rev s))). P c" by (auto dest: set_takeWhileD)
qed

lemma hd_strip: "strip s \<noteq> [] \<Longrightarrow> \<not> is_space (hd (strip s))"
proof -
  assume ne: "strip s \<noteq> []"
  obtain t where "lstrip is_space s = strip s @ t"
    using rstrip_append [of "lstrip is_space s" is_space] by (auto simp: strip_def)
  with ne have "hd (lstrip is_space s) = hd (strip s)" "lstrip is_space s \<noteq> []" by auto
  with hd_dropWhile [of is_space s] show ?thesis by (simp add: lstrip_def)
qed

lemma last_strip: "strip s \<noteq> [] \<Longrightarrow> \<not> is_space (last (strip s))"
  by (simp add: strip_def last_rstrip)

lemma strip_id: "s = [] \<or> \<not> is_space (hd s) \<and> \<not> is_space (last s) \<Longrightarrow> strip s = s"
  by (cases s) (auto simp: strip_def lstrip_def rstrip_id)

lemma strip_lower: "strip a = a \<Longrightarrow> strip (lower a) = lower a"
proof (cases a)
  case (Cons x t)
  assume "strip a = a"
  with Cons hd_strip [of a] last_strip [of a] have "\<not> is_space (hd a)" "\<not> is_space (last a)" by auto
  with Cons show ?thesis by (intro strip_id) (auto simp: lower_def last_map)
qed (simp add: lower_def strip_id)

lemma strip_strip [simp]: "strip (strip s) = strip s"
  using hd_strip last_strip by (intro strip_id) blast

text \<open>\<open>text.split(sep)\<close> on a one-character separator: always at least one piece.\<close>

fun split_on :: "char \<Rightarrow> string \<Rightarrow> string list" where
  "split_on sep [] = [[]]"
| "split_on sep (c # cs) =
     (if c = sep then [] # split_on sep cs
      else (case split_on sep cs of [] \<Rightarrow> [[c]] | p # ps \<Rightarrow> (c # p) # ps))"

lemma split_on_not_Nil [simp]: "split_on sep s \<noteq> []"
  by (induction s) (auto split: list.splits)

lemma sep_notin_split: "p \<in> set (split_on sep s) \<Longrightarrow> sep \<notin> set p"
  by (induction s arbitrary: p) (fastforce split: if_splits list.splits)+

text \<open>\<open>sep.join(pieces)\<close>.\<close>

fun join_with :: "string \<Rightarrow> string list \<Rightarrow> string" where
  "join_with sep [] = []"
| "join_with sep [p] = p"
| "join_with sep (p # q # ps) = p @ sep @ join_with sep (q # ps)"

lemma split_on_last: "sep \<notin> set p \<Longrightarrow> split_on sep p = [p]"
  by (induction p) auto

lemma split_on_piece: "sep \<notin> set p \<Longrightarrow> split_on sep (p @ sep # s) = p # split_on sep s"
  by (induction p) auto

lemma split_join:
  "ps \<noteq> [] \<Longrightarrow> \<forall>p \<in> set ps. sep \<notin> set p \<Longrightarrow> split_on sep (join_with [sep] ps) = ps"
proof (induction ps)
  case (Cons p ps)
  then show ?case by (cases ps) (simp_all add: split_on_last split_on_piece)
qed simp

text \<open>\<open>text.split()\<close>: the maximal runs of non-space characters.\<close>

function words :: "string \<Rightarrow> string list" where
  "words s = (case lstrip is_space s of [] \<Rightarrow> []
     | c # cs \<Rightarrow> (c # takeWhile (\<lambda>x. \<not> is_space x) cs) # words (dropWhile (\<lambda>x. \<not> is_space x) cs))"
  by pat_completeness auto
termination
proof (relation "measure length"; simp)
  fix s c cs assume "lstrip is_space s = c # cs"
  then have "length (c # cs) \<le> length s" by (metis lstrip_def length_dropWhile_le)
  moreover have "length (dropWhile (\<lambda>x. \<not> is_space x) cs) \<le> length cs" by (rule length_dropWhile_le)
  ultimately show "length (dropWhile (\<lambda>x. \<not> is_space x) cs) < length s" by simp
qed

declare words.simps [simp del]

lemma words_space: "is_space a \<Longrightarrow> words (a # s) = words s"
  by (subst (1 2) words.simps) (simp add: lstrip_def)

lemma words_Nil [simp]: "words [] = []"
  by (simp add: words.simps lstrip_def)

lemma words_word:
  assumes "w \<noteq> []" "\<forall>c \<in> set w. \<not> is_space c" "s = [] \<or> is_space (hd s)"
  shows "words (w @ s) = w # words s"
proof -
  obtain a v where w: "w = a # v" using assms(1) by (cases w) auto
  have v: "\<forall>c \<in> set v. \<not> is_space c" and a: "\<not> is_space a" using assms(2) w by auto
  have "takeWhile (\<lambda>x. \<not> is_space x) (v @ s) = v" "dropWhile (\<lambda>x. \<not> is_space x) (v @ s) = s"
    using v assms(3) by (cases s; simp)+
  then show ?thesis using a w by (subst words.simps) (simp add: lstrip_def)
qed

section \<open>Numbers\<close>

fun scan_digits :: "string \<Rightarrow> string \<times> string" where
  "scan_digits [] = ([], [])"
| "scan_digits (c # cs) =
     (if is_digit c then
        (let (ds, rest) = (case cs of u # d # r \<Rightarrow>
             (if u = CHR ''_'' \<and> is_digit d then scan_digits (d # r) else scan_digits cs)
           | _ \<Rightarrow> scan_digits cs)
         in (c # ds, rest))
      else ([], c # cs))"

definition digit_value :: "char \<Rightarrow> int" where
  "digit_value c = int (char_code c) - 48"

definition digits_value :: "string \<Rightarrow> int" where
  "digits_value ds = foldl (\<lambda>n c. 10 * n + digit_value c) 0 ds"

fun scan_sign :: "string \<Rightarrow> int \<times> string" where
  "scan_sign (c # cs) =
     (if c = CHR ''-'' then (- 1, cs) else if c = CHR ''+'' then (1, cs) else (1, c # cs))"
| "scan_sign [] = (1, [])"

definition int_of_str :: "string \<Rightarrow> int result" where
  "int_of_str text =
     (let (sg, body) = scan_sign (strip text); (ds, rest) = scan_digits body
      in if ds = [] \<or> rest \<noteq> [] then Inl ValueError else Inr (sg * digits_value ds))"

definition scan_exponent :: "string \<Rightarrow> (int \<times> string) result" where
  "scan_exponent text = (case text of
       c # cs \<Rightarrow> (if c = CHR ''e'' \<or> c = CHR ''E''
          then (let (sg, body) = scan_sign cs; (ds, rest) = scan_digits body
                in if ds = [] then Inl ValueError else Inr (sg * digits_value ds, rest))
          else Inr (0, text))
     | [] \<Rightarrow> Inr (0, []))"

definition scan_decimal :: "string \<Rightarrow> rat result" where
  "scan_decimal text =
     (let (ip, r1) = scan_digits text;
          (fp, r2) = (case r1 of c # r \<Rightarrow> (if c = CHR ''.'' then scan_digits r else ([], r1))
                       | [] \<Rightarrow> ([], []))
      in if ip = [] \<and> fp = [] then Inl ValueError
         else rbind (scan_exponent r2) (\<lambda>(ex, r3).
           if r3 \<noteq> [] then Inl ValueError
           else Inr (of_int (digits_value (ip @ fp)) * 10 powi (ex - int (length fp)))))"

definition float_of_str :: "string \<Rightarrow> pyfloat result" where
  "float_of_str text =
     (let (sg, body) = scan_sign (strip text); word = lower body
      in if word = ''inf'' \<or> word = ''infinity'' then Inr (if sg = 1 then PosInf else NegInf)
         else if word = ''nan'' then Inr NaN
         else rbind (scan_decimal body) (\<lambda>q. Inr (rnd (of_int sg * q))))"

text \<open>\<open>str(n)\<close>.\<close>

fun nat_digits :: "nat \<Rightarrow> string" where
  "nat_digits n = (if n < 10 then [char_of (48 + n)] else nat_digits (n div 10) @ [char_of (48 + n mod 10)])"

declare nat_digits.simps [simp del]

definition str_of_int :: "int \<Rightarrow> string" where
  "str_of_int n = (if n < 0 then CHR ''-'' # nat_digits (nat (- n)) else nat_digits (nat n))"

lemma is_digit_char_of: "n < 10 \<Longrightarrow> is_digit (char_of (48 + n :: nat))"
  by (simp add: is_digit_def char_code_char_of Let_def)

lemma digit_value_char_of: "n < 10 \<Longrightarrow> digit_value (char_of (48 + n :: nat)) = int n"
  by (simp add: digit_value_def char_code_char_of)

lemma digits_value_snoc: "digits_value (ds @ [c]) = 10 * digits_value ds + digit_value c"
  by (simp add: digits_value_def)

lemma nat_digits_props:
  "nat_digits n \<noteq> [] \<and> (\<forall>c \<in> set (nat_digits n). is_digit c) \<and> digits_value (nat_digits n) = int n"
proof (induction n rule: nat_digits.induct)
  case (1 n)
  show ?case
  proof (cases "n < 10")
    case True
    then show ?thesis
      by (subst (1 2 3) nat_digits.simps)
        (simp add: is_digit_char_of digits_value_def digit_value_char_of)
  next
    case False
    with 1 have IH: "(\<forall>c \<in> set (nat_digits (n div 10)). is_digit c)"
      "digits_value (nat_digits (n div 10)) = int (n div 10)" by auto
    moreover have "10 * int (n div 10) + int (n mod 10) = int n" by presburger
    ultimately show ?thesis using False
      by (subst (1 2 3) nat_digits.simps)
        (auto simp: is_digit_char_of digits_value_snoc digit_value_char_of)
  qed
qed

lemma digit_not_underscore: "is_digit c \<Longrightarrow> c \<noteq> CHR ''_''"
  by (auto simp: is_digit_def char_code_def)

lemma scan_digits_step:
  "is_digit c \<Longrightarrow> cs = [] \<or> hd cs \<noteq> CHR ''_'' \<Longrightarrow>
   scan_digits (c # cs) = (c # fst (scan_digits cs), snd (scan_digits cs))"
  by (cases cs; cases "tl cs") (auto simp: case_prod_beta)

lemma scan_digits_all:
  "\<forall>c \<in> set ds. is_digit c \<Longrightarrow> rest = [] \<or> \<not> is_digit (hd rest) \<and> hd rest \<noteq> CHR ''_'' \<Longrightarrow>
   scan_digits (ds @ rest) = (ds, rest)"
proof (induction ds)
  case Nil
  then show ?case by (cases rest) auto
next
  case (Cons c ds)
  have "ds @ rest = [] \<or> hd (ds @ rest) \<noteq> CHR ''_''"
    using Cons.prems by (cases ds) (auto dest: digit_not_underscore)
  with scan_digits_step [of c "ds @ rest"] Cons show ?case by (simp del: scan_digits.simps)
qed

lemma digit_not_space: "is_digit c \<Longrightarrow> \<not> is_space c"
  by (auto simp: is_digit_def is_space_def Let_def)

lemma digit_not_sign: "is_digit c \<Longrightarrow> c \<noteq> CHR ''-'' \<and> c \<noteq> CHR ''+''"
  by (auto simp: is_digit_def char_code_def)

lemma scan_sign_digit: "is_digit c \<Longrightarrow> scan_sign (c # cs) = (1, c # cs)"
  using digit_not_sign by simp

lemma nat_digits_simple [simp]:
  "nat_digits k \<noteq> []" "digits_value (nat_digits k) = int k"
  "scan_digits (nat_digits k) = (nat_digits k, [])"
  "\<not> is_space (hd (nat_digits k))" "\<not> is_space (last (nat_digits k))"
  "scan_sign (nat_digits k) = (1, nat_digits k)"
proof -
  note d = nat_digits_props [of k]
  then show "nat_digits k \<noteq> []" "digits_value (nat_digits k) = int k"
    "\<not> is_space (hd (nat_digits k))" "\<not> is_space (last (nat_digits k))"
    using hd_in_set last_in_set digit_not_space by blast+
  from d show "scan_digits (nat_digits k) = (nat_digits k, [])"
    using scan_digits_all [of "nat_digits k" "[]"] by simp
  from d show "scan_sign (nat_digits k) = (1, nat_digits k)"
    using scan_sign_digit by (cases "nat_digits k") (auto simp del: scan_sign.simps)
qed

lemma str_of_int_strip: "strip (str_of_int n) = str_of_int n"
proof -
  have "\<not> is_space CHR ''-''" by (simp add: is_space_def char_code_def)
  then show ?thesis by (intro strip_id) (auto simp: str_of_int_def)
qed

lemma int_of_str_of_int: "int_of_str (str_of_int n) = Inr n"
  unfolding int_of_str_def str_of_int_strip by (simp add: str_of_int_def)

end
