(* ===== verification/Tables.thy ===== *)
theory Tables
  imports PyFloat
begin

text \<open>
  The data the services exchange: the \<open>Trade\<close> the stream parses, and the rows of the tables in
  the destination database (the three \<open>schema.sql\<close> files), as one record that every service
  reads and writes. A table is the list of its rows in physical order; a \<open>BIGSERIAL\<close> key is
  the next value of its sequence (the values a rolled-back transaction drew are skipped by
  PostgreSQL and reused here; nothing in the services reads them).

  A \<open>NUMERIC\<close> column that is only ever read back through \<open>float(...)\<close> or through
  \<open>min\<close>/\<open>max\<close> holds the float it was written from. A threshold is compared as the exact
  decimal, so \<open>price_alerts.threshold\<close> is a rational.
\<close>

section \<open>Trades\<close>

text \<open>The symbol's type is a parameter: the parser passes on whatever JSON value it finds, the
  rest of the stream works with \<open>str\<close> symbols.\<close>

record 's gtrade =
  symbol :: 's
  trade_ts :: int
  price :: pyfloat
  volume :: pyfloat
  conditions :: string

type_synonym trade = "string gtrade"

abbreviation microseconds_per_day :: int where
  "microseconds_per_day \<equiv> 86400000000"

abbreviation microseconds_per_minute :: int where
  "microseconds_per_minute \<equiv> 60000000"

text \<open>\<open>ts.date()\<close> of a UTC \<open>datetime\<close>.\<close>

definition date_of :: "int \<Rightarrow> int" where
  "date_of ts = ts div microseconds_per_day"

definition day_start :: "int \<Rightarrow> int" where
  "day_start day = day * microseconds_per_day"

lemma date_of_iff: "date_of ts = day \<longleftrightarrow> day_start day \<le> ts \<and> ts < day_start (day + 1)"
  unfolding date_of_def day_start_def by (auto; linarith)

lemma date_of_mono: "s \<le> t \<Longrightarrow> date_of s \<le> date_of t"
  unfolding date_of_def by (rule zdiv_mono1) simp_all

text \<open>The range of \<open>datetime\<close> and \<open>date\<close>: years 1 to 9999.\<close>

definition time_in_range :: "int \<Rightarrow> bool" where
  "time_in_range t \<longleftrightarrow> - 62135596800000000 \<le> t \<and> t \<le> 253402300799999999"

definition day_in_range :: "int \<Rightarrow> bool" where
  "day_in_range d \<longleftrightarrow> - 719162 \<le> d \<and> d \<le> 2932896"

lemma date_of_in_range: "time_in_range t \<Longrightarrow> day_in_range (date_of t)"
  by (auto simp: time_in_range_def day_in_range_def date_of_def)

text \<open>A value a Python float can have.\<close>

definition float_ok :: "pyfloat \<Rightarrow> bool" where
  "float_ok x = (case x of Fin q \<Rightarrow> is_double q | _ \<Rightarrow> True)"

lemma float_ok_rnd [simp]: "float_ok (rnd x)"
  using rnd_is_double by (auto simp: float_ok_def split: pyfloat.splits)

lemma float_ok_simps [simp]:
  "float_ok (Fin q) = is_double q" "float_ok PosInf" "float_ok NegInf" "float_ok NaN"
  by (simp_all add: float_ok_def)

definition trade_ok :: "'s gtrade \<Rightarrow> bool" where
  "trade_ok t \<longleftrightarrow> float_ok (price t) \<and> float_ok (volume t) \<and> time_in_range (trade_ts t)"

section \<open>Tables\<close>

record raw_trade_row =
  rt_id :: nat
  rt_symbol :: string
  rt_ts :: int
  rt_price :: pyfloat
  rt_volume :: "pyfloat option"
  rt_conditions :: "string option"
  rt_received_at :: int

record session_row =
  ss_id :: nat
  ss_connected_at :: int
  ss_disconnected_at :: "int option"
  ss_symbols :: string
  ss_trades_received :: int
  ss_rows_written :: int
  ss_last_message_at :: "int option"
  ss_last_trade_at :: "int option"
  ss_reconnects :: nat
  ss_market_open :: "bool option"
  ss_market_session :: "string option"
  ss_status :: string
  ss_error_message :: "string option"

record user_row =
  us_id :: nat
  us_email :: string
  us_password_hash :: string
  us_role :: string
  us_created_at :: int

record alert_row =
  al_id :: nat
  al_user_id :: nat
  al_symbol :: string
  al_direction :: string
  al_threshold :: rat
  al_created_at :: int
  al_triggered_at :: "int option"
  al_triggered_price :: "pyfloat option"

record candle_row =
  cd_symbol :: string
  cd_minute :: int
  cd_open :: pyfloat
  cd_high :: pyfloat
  cd_low :: pyfloat
  cd_close :: pyfloat
  cd_volume :: pyfloat
  cd_trade_count :: nat
  cd_updated_at :: int

record run_row =
  rr_id :: nat
  rr_started_at :: int
  rr_finished_at :: "int option"
  rr_window_start :: int
  rr_window_end :: int
  rr_trades_read :: nat
  rr_minutes_written :: nat
  rr_status :: string
  rr_error_message :: "string option"

record pg =
  raw_trades :: "raw_trade_row list"
  next_trade_id :: nat
  stream_sessions :: "session_row list"
  next_session_id :: nat
  users :: "user_row list"
  next_user_id :: nat
  price_alerts :: "alert_row list"
  next_alert_id :: nat
  candles :: "candle_row list"
  rollup_runs :: "run_row list"
  next_run_id :: nat

definition empty_pg :: pg where
  "empty_pg = \<lparr> raw_trades = [], next_trade_id = 1, stream_sessions = [], next_session_id = 1,
     users = [], next_user_id = 1, price_alerts = [], next_alert_id = 1,
     candles = [], rollup_runs = [], next_run_id = 1 \<rparr>"

text \<open>
  The keys the schemas declare: serial ids are distinct and below their sequence, an email is
  unique, an alert's owner exists, a candle is unique per symbol and minute.
\<close>

definition serial_ok :: "('r \<Rightarrow> nat) \<Rightarrow> 'r list \<Rightarrow> nat \<Rightarrow> bool" where
  "serial_ok key rows nxt \<longleftrightarrow> distinct (map key rows) \<and> (\<forall>r \<in> set rows. key r < nxt)"

lemma serial_ok_Nil [simp]: "serial_ok key [] n"
  by (simp add: serial_ok_def)

lemma serial_ok_snoc [simp]:
  "serial_ok key rows n \<Longrightarrow> key r = n \<Longrightarrow> serial_ok key (rows @ [r]) (Suc n)"
  by (auto simp: serial_ok_def less_Suc_eq)

lemma serial_ok_keys:
  "serial_ok key rows n \<longleftrightarrow> distinct (map key rows) \<and> (\<forall>k \<in> set (map key rows). k < n)"
  by (simp add: serial_ok_def)

lemma serial_ok_append:
  assumes "serial_ok key rows n" "map key new = [n..<n + k]"
  shows "serial_ok key (rows @ new) (n + k)"
proof -
  have "distinct (map key rows)" "\<forall>i \<in> set (map key rows). i < n"
    using assms(1) by (auto simp: serial_ok_keys)
  then show ?thesis unfolding serial_ok_keys map_append assms(2) by fastforce
qed

lemma serial_ok_map:
  "(\<And>r. key (f r) = key r) \<Longrightarrow> serial_ok key (map f rows) n = serial_ok key rows n"
  by (simp add: serial_ok_def comp_def)

lemma serial_ok_filter: "serial_ok key rows n \<Longrightarrow> serial_ok key (filter P rows) n"
  by (auto simp: serial_ok_def distinct_map_filter)

definition pg_keys_ok :: "pg \<Rightarrow> bool" where
  "pg_keys_ok db \<longleftrightarrow>
     serial_ok rt_id (raw_trades db) (next_trade_id db) \<and>
     serial_ok ss_id (stream_sessions db) (next_session_id db) \<and>
     serial_ok us_id (users db) (next_user_id db) \<and>
     distinct (map us_email (users db)) \<and>
     serial_ok al_id (price_alerts db) (next_alert_id db) \<and>
     (\<forall>a \<in> set (price_alerts db). al_user_id a \<in> us_id ` set (users db)) \<and>
     distinct (map (\<lambda>c. (cd_symbol c, cd_minute c)) (candles db)) \<and>
     serial_ok rr_id (rollup_runs db) (next_run_id db)"

lemma pg_keys_ok_empty [simp]: "pg_keys_ok empty_pg"
  by (simp add: pg_keys_ok_def empty_pg_def)

text \<open>
  \<open>with engine.begin() as connection\<close>: the block's statements commit together when it ends
  without an exception; when it raises, or the database fails (an environment decision), the
  transaction is rolled back and the exception leaves the block.
\<close>

definition transaction :: "exn option \<Rightarrow> (pg \<Rightarrow> ('a \<times> pg) result) \<Rightarrow> pg \<Rightarrow> 'a result \<times> pg" where
  "transaction failure body db = (case failure of
       Some e \<Rightarrow> (Inl e, db)
     | None \<Rightarrow> (case body db of Inl e \<Rightarrow> (Inl e, db) | Inr (x, db') \<Rightarrow> (Inr x, db')))"

lemma transaction_Inl: "transaction f body db = (Inl e, db') \<Longrightarrow> db' = db"
  by (auto simp: transaction_def split: option.splits sum.splits)

lemma transaction_Inr:
  "transaction f body db = (Inr x, db') \<longleftrightarrow> f = None \<and> body db = Inr (x, db')"
  by (auto simp: transaction_def split: option.splits sum.splits)

section \<open>Statements on rows\<close>

text \<open>\<open>UPDATE ... SET ... WHERE\<close>.\<close>

definition update_where :: "('r \<Rightarrow> bool) \<Rightarrow> ('r \<Rightarrow> 'r) \<Rightarrow> 'r list \<Rightarrow> 'r list" where
  "update_where P f rows = map (\<lambda>r. if P r then f r else r) rows"

lemma update_where_Nil [simp]: "update_where P f [] = []"
  by (simp add: update_where_def)

lemma length_update_where [simp]: "length (update_where P f rows) = length rows"
  by (simp add: update_where_def)

text \<open>Every update of the services keeps the key of the rows it touches and selects them by it,
  perhaps with a guard on the row.\<close>

locale row_update =
  fixes key :: "'r \<Rightarrow> nat" and upd :: "'a \<Rightarrow> 'r \<Rightarrow> 'r"
  assumes key_upd [simp]: "key (upd a r) = key r"
begin

lemma keys: "map key (update_where P (upd a) rows) = map key rows"
  by (simp add: update_where_def comp_def if_distrib cong: if_cong)

lemma serial: "serial_ok key (update_where P (upd a) rows) n = serial_ok key rows n"
  by (simp only: serial_ok_keys keys)

lemma other: "r \<in> set rows \<Longrightarrow> \<not> P r \<Longrightarrow> r \<in> set (update_where P (upd a) rows)"
  by (force simp: update_where_def)

lemma updated: "r \<in> set rows \<Longrightarrow> P r \<Longrightarrow> upd a r \<in> set (update_where P (upd a) rows)"
  by (force simp: update_where_def)

lemma member: "r' \<in> set (update_where P (upd a) rows) \<longleftrightarrow>
    (\<exists>r \<in> set rows. r' = (if P r then upd a r else r))"
  by (auto simp: update_where_def)

end

text \<open>PostgreSQL's \<open>GREATEST\<close> ignores nulls; \<open>COALESCE\<close> takes the first value that is not null.\<close>

definition greatest :: "int option \<Rightarrow> int option \<Rightarrow> int option" where
  "greatest a b = (case a of None \<Rightarrow> b | Some x \<Rightarrow> (case b of None \<Rightarrow> a | Some y \<Rightarrow> Some (max x y)))"

definition coalesce :: "'a option \<Rightarrow> 'a option \<Rightarrow> 'a option" where
  "coalesce a b = (case a of None \<Rightarrow> b | Some x \<Rightarrow> Some x)"

lemma greatest_simps [simp]:
  "greatest None b = b" "greatest a None = a" "greatest (Some x) (Some y) = Some (max x y)"
  by (simp_all add: greatest_def split: option.splits)

lemma coalesce_simps [simp]: "coalesce None b = b" "coalesce (Some x) b = Some x"
  by (simp_all add: coalesce_def)

text \<open>What the driver and PostgreSQL 13 accept: text without a NUL character, and a
  \<open>NUMERIC\<close> that is not infinite (NaN is allowed).\<close>

definition text_error :: "string \<Rightarrow> exn option" where
  "text_error s = (if CHR 0x00 \<in> set s then Some ValueError else None)"

definition numeric_error :: "pyfloat \<Rightarrow> exn option" where
  "numeric_error x = (if x = PosInf \<or> x = NegInf then Some (DbError ''cannot convert infinity to numeric'')
     else None)"

fun first_error :: "exn option list \<Rightarrow> exn option" where
  "first_error [] = None"
| "first_error (None # es) = first_error es"
| "first_error (Some e # es) = Some e"

lemma first_error_None_iff: "first_error es = None \<longleftrightarrow> (\<forall>e \<in> set es. e = None)"
  by (induction es rule: first_error.induct) auto

end
