(* ===== verification/PyFloatText.thy ===== *)
theory PyFloatText
  imports PyText Tables
begin

text \<open>
  \<open>str(x)\<close> of a float: the shortest decimal that reads back to the same double, written
  positionally when its exponent lies between -4 and 15 and in scientific notation otherwise,
  and the round trip with \<open>float(text)\<close>.
\<close>

section \<open>The shortest decimal\<close>

text \<open>\<open>repr_digits q k\<close> is the multiple of \<open>10 ^ k\<close> tried for \<open>q\<close>: the nearest one, or
  the next above it where the nearest does not read back (below a power of two the doubles are
  denser, so the nearest multiple can miss while the one above hits). \<open>repr_exp q k\<close> is the
  largest power of ten, from \<open>k\<close> downwards, whose multiple reads back as \<open>q\<close>; at the
  smallest subnormal's power every double is a multiple.\<close>

definition reads :: "rat \<Rightarrow> int \<Rightarrow> int \<Rightarrow> bool" where
  "reads q n k \<longleftrightarrow> rnd (of_int n * 10 powi k) = Fin q"

definition repr_digits :: "rat \<Rightarrow> int \<Rightarrow> int" where
  "repr_digits q k =
     (let n = rhe (q / 10 powi k) in if reads q n k then n else \<lceil>q / 10 powi k\<rceil>)"

function repr_exp :: "rat \<Rightarrow> int \<Rightarrow> int" where
  "repr_exp q k =
     (if k \<le> - 1074 \<or> reads q (repr_digits q k) k then k else repr_exp q (k - 1))"
  by pat_completeness auto
termination
  by (relation "measure (\<lambda>(q, k). nat (k + 1074))") auto

declare repr_exp.simps [simp del]

definition repr_decimal :: "rat \<Rightarrow> int \<times> int" where
  "repr_decimal q =
     (let k = repr_exp q (ilog2 q * 3 div 10 + 2) in (repr_digits q k, k))"

definition zeros :: "nat \<Rightarrow> string" where
  "zeros n = replicate n CHR ''0''"

definition pad2 :: "string \<Rightarrow> string" where
  "pad2 ds = zeros (2 - length ds) @ ds"

definition format_decimal :: "string \<Rightarrow> int \<Rightarrow> string" where
  "format_decimal ds k =
     (let n = int (length ds); point = n + k in
      if point - 1 < - 4 \<or> 16 \<le> point - 1
      then take 1 ds @ (if length ds = 1 then [] else CHR ''.'' # drop 1 ds) @ CHR ''e'' #
           (if point - 1 < 0 then CHR ''-'' else CHR ''+'') # pad2 (nat_digits (nat \<bar>point - 1\<bar>))
      else if point \<le> 0 then ''0.'' @ zeros (nat (- point)) @ ds
      else if n \<le> point then ds @ zeros (nat (point - n)) @ ''.0''
      else take (nat point) ds @ CHR ''.'' # drop (nat point) ds)"

definition str_of_pos :: "rat \<Rightarrow> string" where
  "str_of_pos q = (let (d, k) = repr_decimal q in format_decimal (nat_digits (nat d)) k)"

fun str_of_float :: "pyfloat \<Rightarrow> string" where
  "str_of_float (Fin q) =
     (if q = 0 then ''0.0'' else if q < 0 then CHR ''-'' # str_of_pos (- q) else str_of_pos q)"
| "str_of_float PosInf = ''inf''"
| "str_of_float NegInf = ''-inf''"
| "str_of_float NaN = ''nan''"

section \<open>The decimal reads back\<close>

lemma multiple_of_tenth:
  assumes "- int N \<le> e" "q = of_int m * (2::rat) powi e"
  shows "\<exists>n. of_int n * 10 powi (- int N) = q"
proof (intro exI)
  have t: "(10::rat) ^ N = 2 ^ N * 5 ^ N" by (simp flip: power_mult_distrib)
  have "(2::rat) powi e = 2 powi (e + int N) * 2 powi (- int N)" by (simp only: powi2_add) simp
  also have "(2::rat) powi (e + int N) = of_int (2 ^ nat (e + int N))"
    using assms(1) by (simp add: power_int_def)
  also have "(2::rat) powi (- int N) = 5 ^ N * 10 powi (- int N)"
    by (simp add: power_int_minus t)
  finally show "of_int (m * 2 ^ nat (e + int N) * 5 ^ N) * 10 powi (- int N) = q"
    by (simp add: assms(2))
qed

lemma tiny_multiple:
  "is_double q \<Longrightarrow> 0 < q \<Longrightarrow> \<exists>n. of_int n * 10 powi (- 1074) = q"
  using multiple_of_tenth [of 1074] double_grid [of q] unfolding of_nat_numeral by blast

lemma reads_bottom:
  assumes "is_double q" "0 < q"
  shows "reads q (repr_digits q (- 1074)) (- 1074)"
proof -
  obtain n where n: "of_int n * 10 powi (- 1074) = q" using tiny_multiple [OF assms] by blast
  have nz: "(10::rat) powi (- 1074) \<noteq> 0" by (rule power_int_not_zero) simp
  have "q / 10 powi (- 1074) = of_int n"
    unfolding n [symmetric] by (rule nonzero_mult_div_cancel_right [OF nz])
  then have "rhe (q / 10 powi (- 1074)) = n" by (simp only: rhe_of_int)
  moreover have "rnd q = Fin q" using assms(1) by (simp only: is_double_def)
  with n have "reads q n (- 1074)" by (simp only: reads_def)
  ultimately show ?thesis by (simp only: repr_digits_def Let_def if_True)
qed

lemma repr_exp_step:
  "repr_exp q k = (if k \<le> - 1074 \<or> reads q (repr_digits q k) k then k else repr_exp q (k - 1))"
  by (rule repr_exp.simps)

lemma repr_exp_reads:
  assumes "is_double q" "0 < q" "- 1074 \<le> k"
  shows "reads q (repr_digits q (repr_exp q k)) (repr_exp q k)"
  using assms(3)
proof (induction k rule: int_ge_induct)
  case base
  have "repr_exp q (- 1074) = - 1074" by (subst repr_exp_step) (simp only: order_refl simp_thms if_True)
  with reads_bottom [OF assms(1,2)] show ?case by (simp only:)
next
  case (step k)
  show ?case
  proof (cases "reads q (repr_digits q (k + 1)) (k + 1)")
    case True
    then have "repr_exp q (k + 1) = k + 1" by (subst repr_exp_step) (simp only: simp_thms if_True)
    with True show ?thesis by (simp only:)
  next
    case False
    moreover have "\<not> k + 1 \<le> - 1074" using step.hyps by simp
    ultimately have "repr_exp q (k + 1) = repr_exp q k"
      by (subst repr_exp_step) (simp only: simp_thms if_False add_diff_cancel_right')
    with step.IH show ?thesis by (simp only:)
  qed
qed

lemma ilog2_double: "is_double q \<Longrightarrow> 0 < q \<Longrightarrow> - 1074 \<le> ilog2 q"
proof -
  assume "is_double q" "0 < q"
  then obtain m e where me: "0 < m" "- 1074 \<le> e" "q = of_int m * 2 powi e"
    using double_grid by blast
  have "(2::rat) powi (- 1074) \<le> 2 powi e" using me(2) by (simp only: powi2_le_iff)
  also have "\<dots> \<le> of_int m * 2 powi e" using me(1) by simp
  also have "\<dots> = q" by (simp add: me(3))
  also have "q < 2 powi (ilog2 q + 1)" using \<open>0 < q\<close> by (rule ilog2_bounds)
  finally have "- 1074 < ilog2 q + 1" by (simp only: powi2_less_iff)
  then show ?thesis by simp
qed

lemma repr_decimal_reads:
  assumes "is_double q" "0 < q" "repr_decimal q = (d, k)"
  shows "rnd (of_int d * 10 powi k) = Fin q" and "0 < d"
proof -
  have k0: "- 1074 \<le> ilog2 q * 3 div 10 + 2" using ilog2_double [OF assms(1,2)] by simp
  show r: "rnd (of_int d * 10 powi k) = Fin q"
    using repr_exp_reads [OF assms(1,2) k0] assms(3) by (auto simp: repr_decimal_def Let_def reads_def)
  show "0 < d"
  proof (rule ccontr)
    assume "\<not> 0 < d"
    then have "of_int d * (10::rat) powi k \<le> 0" by (simp add: mult_le_0_iff)
    then have "rnd (of_int d * 10 powi k) \<le> rnd 0" by (rule rnd_mono)
    with r assms(2) show False by simp
  qed
qed

section \<open>The text reads back\<close>

lemma digits_value_append: "digits_value (a @ b) = digits_value a * 10 ^ length b + digits_value b"
proof (induction b rule: rev_induct)
  case Nil
  then show ?case by (simp add: digits_value_def)
next
  case (snoc c b)
  then show ?case
    by (simp only: append_assoc [symmetric] digits_value_snoc length_append_singleton power_Suc)
      (simp add: algebra_simps)
qed

lemma digits_value_zeros [simp]: "digits_value (zeros n) = 0"
proof (induction n)
  case (Suc n)
  have "digits_value (zeros (Suc n)) = digits_value ([CHR ''0''] @ zeros n)" by (simp add: zeros_def)
  with Suc show ?case
    by (simp only: digits_value_append) (simp add: digits_value_def digit_value_def char_code_def)
qed (simp add: zeros_def digits_value_def)

lemma digits_value_zero_digit [simp]: "digits_value ''0'' = 0"
  by (simp add: digits_value_def digit_value_def char_code_def)

definition all_digits :: "string \<Rightarrow> bool" where
  "all_digits s = (\<forall>c \<in> set s. is_digit c)"

lemma is_digit_0 [simp]: "is_digit CHR ''0''"
  by (simp add: is_digit_def char_code_def)

lemma all_digits_simps [simp]:
  "all_digits []" "all_digits (c # s) \<longleftrightarrow> is_digit c \<and> all_digits s"
  "all_digits (a @ b) \<longleftrightarrow> all_digits a \<and> all_digits b" "all_digits (zeros n)"
  "all_digits (nat_digits n)"
  using nat_digits_props [of n] by (auto simp: all_digits_def zeros_def)

lemma all_digits_take_drop: "all_digits s \<Longrightarrow> all_digits (take n s) \<and> all_digits (drop n s)"
  by (auto simp: all_digits_def dest: in_set_takeD in_set_dropD)

lemma scan_all_digits:
  "all_digits ds \<Longrightarrow> rest = [] \<or> \<not> is_digit (hd rest) \<and> hd rest \<noteq> CHR ''_'' \<Longrightarrow>
   scan_digits (ds @ rest) = (ds, rest)"
  by (rule scan_digits_all) (simp_all add: all_digits_def)

text \<open>The two shapes \<open>format_decimal\<close> writes: digits, a point and digits, or the same with an
  exponent.\<close>

lemma not_digit_chars [simp]:
  "\<not> is_digit CHR ''.''" "\<not> is_digit CHR ''e''" "\<not> is_digit CHR ''-''" "\<not> is_digit CHR ''+''"
  by (simp_all add: is_digit_def char_code_def)

lemma scan_point:
  assumes "all_digits ip" "all_digits fp" "ip \<noteq> []"
  shows "scan_decimal (ip @ CHR ''.'' # fp) =
    Inr (of_int (digits_value (ip @ fp)) * 10 powi (- int (length fp)))"
  using scan_all_digits [OF assms(1), of "CHR ''.'' # fp"] scan_all_digits [OF assms(2), of "[]"] assms(3)
  by (simp add: scan_decimal_def scan_exponent_def del: power_int_minus)

definition exponent_text :: "int \<Rightarrow> string" where
  "exponent_text x = (if x < 0 then CHR ''-'' else CHR ''+'') # pad2 (nat_digits (nat \<bar>x\<bar>))"

lemma scan_exponent_text: "scan_exponent (CHR ''e'' # exponent_text x) = Inr (x, [])"
proof -
  let ?ds = "pad2 (nat_digits (nat \<bar>x\<bar>))"
  have d: "all_digits ?ds" "?ds \<noteq> []" by (simp_all add: pad2_def)
  have v: "digits_value ?ds = \<bar>x\<bar>" by (simp add: pad2_def digits_value_append)
  have sc: "scan_digits ?ds = (?ds, [])" using scan_all_digits [OF d(1), of "[]"] by simp
  show ?thesis
  proof (cases "x < 0")
    case True
    with d v sc show ?thesis by (simp add: scan_exponent_def exponent_text_def)
  next
    case False
    then have "\<bar>x\<bar> = x" by simp
    with False d v sc show ?thesis by (simp add: scan_exponent_def exponent_text_def)
  qed
qed

lemma scan_scientific:
  assumes "all_digits ip" "all_digits fp" "ip \<noteq> []"
  shows "scan_decimal (ip @ (if fp = [] then [] else CHR ''.'' # fp) @ CHR ''e'' # exponent_text x) =
    Inr (of_int (digits_value (ip @ fp)) * 10 powi (x - int (length fp)))"
proof -
  let ?e = "CHR ''e'' # exponent_text x"
  have e: "scan_digits (ip @ ?e) = (ip, ?e)" "scan_digits (fp @ ?e) = (fp, ?e)"
    using assms by (auto intro!: scan_all_digits)
  have "scan_digits (ip @ CHR ''.'' # fp @ ?e) = (ip, CHR ''.'' # fp @ ?e)"
    using assms by (intro scan_all_digits) auto
  with e assms(3) scan_exponent_text [of x] show ?thesis
    by (simp add: scan_decimal_def)
qed

lemma format_decimal_reads:
  assumes "all_digits ds" "ds \<noteq> []"
  shows "scan_decimal (format_decimal ds k) = Inr (of_int (digits_value ds) * 10 powi k)"
proof -
  let ?n = "int (length ds)"
  let ?p = "?n + k"
  note td = all_digits_take_drop [OF assms(1)]
  consider (sci) "?p - 1 < - 4 \<or> 16 \<le> ?p - 1"
    | (small) "\<not> (?p - 1 < - 4 \<or> 16 \<le> ?p - 1)" "?p \<le> 0"
    | (big) "\<not> (?p - 1 < - 4 \<or> 16 \<le> ?p - 1)" "0 < ?p" "?n \<le> ?p"
    | (mid) "\<not> (?p - 1 < - 4 \<or> 16 \<le> ?p - 1)" "0 < ?p" "?p < ?n"
    by linarith
  then show ?thesis
  proof cases
    case sci
    have "format_decimal ds k =
        take 1 ds @ (if drop 1 ds = [] then [] else CHR ''.'' # drop 1 ds) @ CHR ''e'' # exponent_text (?p - 1)"
      using sci assms(2) by (cases ds) (auto simp: format_decimal_def Let_def exponent_text_def)
    moreover have "take 1 ds \<noteq> []" using assms(2) by (cases ds) auto
    moreover have "?p - 1 - int (length (drop 1 ds)) = k" using assms(2) by (cases ds) auto
    ultimately show ?thesis using scan_scientific [of "take 1 ds" "drop 1 ds" "?p - 1"] td [of 1]
      by (metis append_take_drop_id)
  next
    case small
    let ?z = "zeros (nat (- ?p))"
    have "format_decimal ds k = ''0'' @ CHR ''.'' # (?z @ ds)"
      using small by (simp add: format_decimal_def Let_def)
    moreover have "digits_value (''0'' @ ?z @ ds) = digits_value ds"
      by (simp only: digits_value_append) simp
    moreover have "- int (length (?z @ ds)) = k" using small by (simp add: zeros_def)
    ultimately show ?thesis using scan_point [of "''0''" "?z @ ds"] assms(1)
      by (simp del: power_int_minus append.simps)
  next
    case big
    let ?z = "zeros (nat (?p - ?n))"
    have "format_decimal ds k = (ds @ ?z) @ CHR ''.'' # ''0''"
      using big by (simp add: format_decimal_def Let_def)
    moreover have "digits_value ((ds @ ?z) @ ''0'') = digits_value ds * 10 ^ nat (?p - ?n) * 10"
      by (simp only: digits_value_append digits_value_zeros digits_value_zero_digit)
        (simp add: zeros_def)
    moreover have "(10::rat) ^ nat (?p - ?n) = 10 powi k"
      using big by (simp add: power_int_def)
    ultimately show ?thesis using scan_point [of "ds @ ?z" "''0''"] assms
      by (simp del: append_assoc)
  next
    case mid
    let ?i = "nat ?p"
    have "format_decimal ds k = take ?i ds @ CHR ''.'' # drop ?i ds"
      using mid by (simp add: format_decimal_def Let_def)
    moreover have "take ?i ds \<noteq> []" using mid assms(2) by simp
    moreover have "- int (length (drop ?i ds)) = k" using mid by simp
    ultimately show ?thesis using scan_point [of "take ?i ds" "drop ?i ds"] td [of ?i]
      by (simp del: power_int_minus)
  qed
qed

text \<open>The text starts and ends with a digit, so trimming and the sign leave it alone, and it is
  none of the words.\<close>

definition plain_number :: "string \<Rightarrow> bool" where
  "plain_number t \<longleftrightarrow> t \<noteq> [] \<and> is_digit (hd t) \<and> is_digit (last t)"

lemma plain_number_append:
  "a \<noteq> [] \<Longrightarrow> all_digits a \<Longrightarrow> c \<noteq> [] \<Longrightarrow> all_digits c \<Longrightarrow> plain_number (a @ b @ c)"
  by (auto simp: plain_number_def all_digits_def)

lemma format_decimal_plain:
  assumes "all_digits ds" "ds \<noteq> []"
  shows "plain_number (format_decimal ds k)"
proof -
  let ?p = "int (length ds) + k"
  note td = all_digits_take_drop [OF assms(1)]
  have n1: "take 1 ds \<noteq> []" using assms(2) by simp
  consider (sci) "?p - 1 < - 4 \<or> 16 \<le> ?p - 1"
    | (small) "\<not> (?p - 1 < - 4 \<or> 16 \<le> ?p - 1)" "?p \<le> 0"
    | (big) "\<not> (?p - 1 < - 4 \<or> 16 \<le> ?p - 1)" "0 < ?p" "int (length ds) \<le> ?p"
    | (mid) "\<not> (?p - 1 < - 4 \<or> 16 \<le> ?p - 1)" "0 < ?p" "?p < int (length ds)"
    by linarith
  then show ?thesis
  proof cases
    case sci
    let ?m = "(if length ds = 1 then [] else CHR ''.'' # drop 1 ds) @ CHR ''e'' #
      (if ?p - 1 < 0 then ''-'' else ''+'')"
    let ?x = "pad2 (nat_digits (nat \<bar>?p - 1\<bar>))"
    have "format_decimal ds k = take 1 ds @ ?m @ ?x"
      using sci by (simp add: format_decimal_def Let_def)
    moreover have "all_digits ?x" "?x \<noteq> []" by (simp_all add: pad2_def)
    ultimately show ?thesis using plain_number_append [OF n1 _ \<open>?x \<noteq> []\<close>, of ?m] td [of 1] by simp
  next
    case small
    then have "format_decimal ds k = ''0'' @ (CHR ''.'' # zeros (nat (- ?p))) @ ds"
      by (simp add: format_decimal_def Let_def)
    then show ?thesis
      using plain_number_append [of "''0''" ds "CHR ''.'' # zeros (nat (- ?p))"] assms by simp
  next
    case big
    then have "format_decimal ds k = ds @ (zeros (nat (?p - int (length ds))) @ ''.'') @ ''0''"
      by (simp add: format_decimal_def Let_def)
    moreover have "plain_number (ds @ (zeros (nat (?p - int (length ds))) @ ''.'') @ ''0'')"
      using assms by (intro plain_number_append) simp_all
    ultimately show ?thesis by simp
  next
    case mid
    let ?i = "nat ?p"
    have "format_decimal ds k = take ?i ds @ ''.'' @ drop ?i ds"
      using mid by (simp add: format_decimal_def Let_def)
    moreover have "take ?i ds \<noteq> []" "drop ?i ds \<noteq> []" using mid assms(2) by auto
    ultimately show ?thesis using plain_number_append [of "take ?i ds" "drop ?i ds" "''.''"] td [of ?i]
      by simp
  qed
qed

lemma float_of_plain:
  assumes "plain_number t" "scan_decimal t = Inr q"
  shows "float_of_str t = Inr (rnd q)" and "float_of_str (CHR ''-'' # t) = Inr (rnd (- q))"
proof -
  obtain c cs where t: "t = c # cs" and c: "is_digit c" and l: "is_digit (last t)"
    using assms(1) by (cases t) (auto simp: plain_number_def)
  have lc: "to_lower c = c"
    using c by (simp add: is_digit_def to_lower_def Let_def)
  have words: "lower t \<noteq> ''inf''" "lower t \<noteq> ''infinity''" "lower t \<noteq> ''nan''"
    using c lc by (auto simp: t lower_def is_digit_def char_code_def)
  have sp: "\<not> is_space c" "\<not> is_space (last t)" "\<not> is_space CHR ''-''"
    using c l digit_not_space by (auto simp: is_space_def char_code_def)
  have "strip t = t" "strip (CHR ''-'' # t) = CHR ''-'' # t"
    using sp by (auto simp: t intro!: strip_id)
  moreover have "scan_sign t = (1, t)" using scan_sign_digit [OF c] t by simp
  ultimately show "float_of_str t = Inr (rnd q)" "float_of_str (CHR ''-'' # t) = Inr (rnd (- q))"
    using words assms(2) by (simp_all add: float_of_str_def)
qed

lemma rnd_minus_Fin: "rnd x = Fin q \<Longrightarrow> rnd (- x) = Fin (- q)"
  by (auto simp: rnd_def Let_def rnd_fin_minus split: if_splits)

lemma str_of_pos_reads:
  assumes "is_double q" "0 < q"
  shows "float_of_str (str_of_pos q) = Inr (Fin q)"
    and "float_of_str (CHR ''-'' # str_of_pos q) = Inr (Fin (- q))"
proof -
  obtain d k where dk: "repr_decimal q = (d, k)" by fastforce
  let ?ds = "nat_digits (nat d)"
  have r: "rnd (of_int d * 10 powi k) = Fin q" and d: "0 < d"
    using repr_decimal_reads [OF assms dk] .
  have sc: "scan_decimal (format_decimal ?ds k) = Inr (of_int d * 10 powi k)"
    using format_decimal_reads [of ?ds k] d by simp
  have pl: "plain_number (format_decimal ?ds k)" by (rule format_decimal_plain) simp_all
  have t: "str_of_pos q = format_decimal ?ds k" by (simp only: str_of_pos_def dk Let_def prod.case)
  show "float_of_str (str_of_pos q) = Inr (Fin q)"
    unfolding t float_of_plain(1) [OF pl sc] r ..
  show "float_of_str (CHR ''-'' # str_of_pos q) = Inr (Fin (- q))"
    unfolding t float_of_plain(2) [OF pl sc] rnd_minus_Fin [OF r] ..
qed

lemma float_zero_text: "float_of_str ''0.0'' = Inr (Fin 0)"
proof -
  have "scan_decimal ''0.0'' = Inr 0"
    using scan_point [of "''0''" "''0''"] by (simp add: digits_value_def digit_value_def char_code_def)
  then show ?thesis using float_of_plain(1) [of "''0.0''"] by (simp add: plain_number_def)
qed

lemma float_words:
  "float_of_str ''inf'' = Inr PosInf" "float_of_str ''-inf'' = Inr NegInf"
  "float_of_str ''nan'' = Inr NaN"
  by (simp_all add: float_of_str_def strip_def lstrip_def rstrip_def is_space_def char_code_def
      lower_def to_lower_def)

theorem float_of_str_of_float: "float_ok x \<Longrightarrow> float_of_str (str_of_float x) = Inr x"
proof (cases x)
  case (Fin q)
  assume "float_ok x"
  with Fin have d: "is_double q" by simp
  consider "q = 0" | "q < 0" | "0 < q" by linarith
  then show ?thesis
  proof cases
    case 2
    then show ?thesis using str_of_pos_reads(2) [of "- q"] d Fin by simp
  qed (use Fin d str_of_pos_reads(1) [of q] float_zero_text in simp_all)
qed (simp_all add: float_words)

end
