(* ===== verification/Isotime.thy ===== *)
theory Isotime
  imports PyFloatText
begin

text \<open>
  \<open>date.isoformat\<close>, \<open>datetime.isoformat\<close> of a UTC time, and the two \<open>fromisoformat\<close>
  functions on the extended format those write (\<open>YYYY-MM-DD\<close> and
  \<open>YYYY-MM-DDTHH:MM:SS[.ffffff]+HH:MM\<close>), over the proleptic Gregorian calendar of Python's
  \<open>datetime\<close>. The other ISO 8601 spellings Python accepts (basic format, week dates,
  shortened times) are never written by the services and are a \<open>ValueError\<close> here.
\<close>

section \<open>The calendar\<close>

definition is_leap :: "int \<Rightarrow> bool" where
  "is_leap y \<longleftrightarrow> y mod 4 = 0 \<and> (y mod 100 \<noteq> 0 \<or> y mod 400 = 0)"

definition days_before_year :: "int \<Rightarrow> int" where
  "days_before_year y = (let p = y - 1 in p * 365 + p div 4 - p div 100 + p div 400)"

definition month_starts :: "int list" where
  "month_starts = [0, 31, 59, 90, 120, 151, 181, 212, 243, 273, 304, 334, 365]"

definition days_before_month :: "bool \<Rightarrow> int \<Rightarrow> int" where
  "days_before_month leap m = month_starts ! nat (m - 1) + (if leap \<and> 2 < m then 1 else 0)"

text \<open>Days since the epoch; the ordinal of 1970-01-01 is 719163.\<close>

definition epoch_ordinal :: int where
  "epoch_ordinal = 719163"

definition days_of_ymd :: "int \<Rightarrow> int \<Rightarrow> int \<Rightarrow> int" where
  "days_of_ymd y m d = days_before_year y + days_before_month (is_leap y) m + d - epoch_ordinal"

definition days_in_month :: "int \<Rightarrow> int \<Rightarrow> int" where
  "days_in_month y m = days_before_month (is_leap y) (m + 1) - days_before_month (is_leap y) m"

text \<open>The month and day of a day of the year.\<close>

definition month_day :: "bool \<Rightarrow> int \<Rightarrow> int \<times> int" where
  "month_day leap n =
     (let m = (n + 50) div 32 in
      if days_before_month leap m \<le> n then (m, n - days_before_month leap m + 1)
      else (m - 1, n - days_before_month leap (m - 1) + 1))"

definition ymd_of_days :: "int \<Rightarrow> int \<times> int \<times> int" where
  "ymd_of_days days =
     (let n = days + epoch_ordinal - 1;
          n400 = n div 146097; r400 = n mod 146097;
          n100 = r400 div 36524; r100 = r400 mod 36524;
          n4 = r100 div 1461; r4 = r100 mod 1461;
          n1 = r4 div 365; r1 = r4 mod 365;
          year = n400 * 400 + n100 * 100 + n4 * 4 + n1 + 1
      in if n1 = 4 \<or> n100 = 4 then (year - 1, 12, 31)
         else (year, month_day (is_leap year) r1))"

definition valid_ymd :: "int \<Rightarrow> int \<Rightarrow> int \<Rightarrow> bool" where
  "valid_ymd y m d \<longleftrightarrow> 1 \<le> y \<and> y \<le> 9999 \<and> 1 \<le> m \<and> m \<le> 12 \<and> 1 \<le> d \<and> d \<le> days_in_month y m"

lemma month_cases:
  "1 \<le> m \<Longrightarrow> m \<le> (13::int) \<Longrightarrow> m = 1 \<or> m = 2 \<or> m = 3 \<or> m = 4 \<or> m = 5 \<or> m = 6 \<or> m = 7 \<or>
   m = 8 \<or> m = 9 \<or> m = 10 \<or> m = 11 \<or> m = 12 \<or> m = 13"
  by presburger

lemma days_before_month_simps [simp]:
  "days_before_month l 1 = 0" "days_before_month l 2 = 31"
  "days_before_month l 3 = (if l then 60 else 59)" "days_before_month l 4 = (if l then 91 else 90)"
  "days_before_month l 5 = (if l then 121 else 120)" "days_before_month l 6 = (if l then 152 else 151)"
  "days_before_month l 7 = (if l then 182 else 181)" "days_before_month l 8 = (if l then 213 else 212)"
  "days_before_month l 9 = (if l then 244 else 243)" "days_before_month l 10 = (if l then 274 else 273)"
  "days_before_month l 11 = (if l then 305 else 304)" "days_before_month l 12 = (if l then 335 else 334)"
  "days_before_month l 13 = (if l then 366 else 365)"
  by (simp_all add: days_before_month_def month_starts_def eval_nat_numeral)

text \<open>The estimate of the month is right or one too large.\<close>

lemma month_estimate_high: "1 \<le> e \<Longrightarrow> e \<le> 11 \<Longrightarrow> 32 * e - 18 \<le> days_before_month l (e + 1)"
  by (frule month_cases, linarith, elim disjE) simp_all

lemma month_estimate_low: "2 \<le> e \<Longrightarrow> e \<le> 12 \<Longrightarrow> days_before_month l (e - 1) \<le> 32 * e - 50"
  by (cut_tac m = e in month_cases, linarith, linarith, elim disjE) simp_all

lemma month_day_correct:
  assumes "0 \<le> n" "n < (if leap then 366 else 365)" "month_day leap n = (m, d)"
  shows "1 \<le> m \<and> m \<le> 12 \<and> days_before_month leap m + d - 1 = n \<and> 1 \<le> d \<and>
    days_before_month leap m + d \<le> days_before_month leap (m + 1)"
proof -
  define e where "e = (n + 50) div 32"
  have "n \<le> 365" using assms(2) by (simp split: if_splits)
  then have e: "1 \<le> e" "e \<le> 12" "32 * e \<le> n + 50" "n + 50 < 32 * e + 32"
    unfolding e_def using assms(1) by linarith+
  have md: "(if days_before_month leap e \<le> n then (e, n - days_before_month leap e + 1)
      else (e - 1, n - days_before_month leap (e - 1) + 1)) = (m, d)"
    using assms(3) by (simp only: month_day_def Let_def e_def)
  show ?thesis
  proof (cases "days_before_month leap e \<le> n")
    case True
    with md have "m = e" "d = n - days_before_month leap e + 1" by auto
    moreover have "n < days_before_month leap (e + 1)"
    proof (cases "e = 12")
      case True
      then show ?thesis using assms(2) by simp
    next
      case False
      then show ?thesis using month_estimate_high [of e leap] e by simp
    qed
    ultimately show ?thesis using e True by simp
  next
    case False
    have "e \<noteq> 1"
    proof
      assume "e = 1"
      with False assms(1) show False by simp
    qed
    with month_estimate_low [of e leap] e have "days_before_month leap (e - 1) \<le> n" by simp
    with False md e \<open>e \<noteq> 1\<close> show ?thesis by auto
  qed
qed

text \<open>The year's first day, decomposed as \<open>ymd_of_days\<close> computes it.\<close>

lemma days_before_year_decomposed:
  assumes "0 \<le> b" "b \<le> 3" "0 \<le> c" "c \<le> 24" "0 \<le> d" "d \<le> 3"
  shows "days_before_year (400 * a + 100 * b + 4 * c + d + 1) =
    146097 * a + 36524 * b + 1461 * c + 365 * d"
proof -
  let ?p = "400 * a + 100 * b + 4 * c + d"
  have "?p div 4 = 100 * a + 25 * b + c" "?p div 100 = 4 * a + b" "?p div 400 = a"
    using assms by linarith+
  then show ?thesis by (simp add: days_before_year_def Let_def)
qed

theorem ymd_of_days_correct:
  assumes "day_in_range days" "ymd_of_days days = (y, m, d)"
  shows "valid_ymd y m d" and "days_of_ymd y m d = days"
proof -
  define n where "n = days + 719162"
  define a where "a = n div 146097"
  define r400 where "r400 = n mod 146097"
  define b where "b = r400 div 36524"
  define r100 where "r100 = r400 mod 36524"
  define c where "c = r100 div 1461"
  define r4 where "r4 = r100 mod 1461"
  define e where "e = r4 div 365"
  define r1 where "r1 = r4 mod 365"
  have ymd: "(if e = 4 \<or> b = 4 then (a * 400 + b * 100 + c * 4 + e + 1 - 1, 12, 31)
      else (a * 400 + b * 100 + c * 4 + e + 1, month_day (is_leap (a * 400 + b * 100 + c * 4 + e + 1)) r1)) =
    (y, m, d)"
  proof -
    have "days + epoch_ordinal - 1 = n" by (simp add: epoch_ordinal_def n_def)
    note assms(2) [unfolded ymd_of_days_def this Let_def, folded a_def, folded r400_def,
        folded b_def r100_def, folded c_def r4_def, folded e_def r1_def]
    then show ?thesis by simp
  qed
  have n: "0 \<le> n" "n \<le> 3652058" using assms(1) by (simp_all add: day_in_range_def n_def)
  have n_eq: "n = 146097 * a + r400" "0 \<le> r400" "r400 < 146097" by (simp_all add: a_def r400_def)
  have r400_eq: "r400 = 36524 * b + r100" "0 \<le> r100" "r100 < 36524" by (simp_all add: b_def r100_def)
  have r100_eq: "r100 = 1461 * c + r4" "0 \<le> r4" "r4 < 1461" by (simp_all add: c_def r4_def)
  have r4_eq: "r4 = 365 * e + r1" "0 \<le> r1" "r1 < 365" by (simp_all add: e_def r1_def)
  have a: "0 \<le> a" "a \<le> 24" using n n_eq by linarith+
  have b: "0 \<le> b" "b \<le> 4" using n_eq r400_eq by linarith+
  have c: "0 \<le> c" "c \<le> 24" using r400_eq r100_eq by linarith+
  have e: "0 \<le> e" "e \<le> 4" using r100_eq r4_eq by linarith+
  have "valid_ymd y m d \<and> days_of_ymd y m d = days"
  proof (cases "e = 4 \<or> b = 4")
    case False
    let ?y = "a * 400 + b * 100 + c * 4 + e + 1"
    have small: "b \<le> 3" "e \<le> 3" using False b e by linarith+
    have md: "y = ?y" "month_day (is_leap ?y) r1 = (m, d)" using ymd False by auto
    have "?y \<le> 9999"
    proof (rule ccontr)
      assume "\<not> ?y \<le> 9999"
      then have "a = 24" "b = 3" "c = 24" "e = 3" using a b c e small by linarith+
      with n n_eq r400_eq r100_eq r4_eq show False by simp
    qed
    moreover have "r1 < (if is_leap ?y then 366 else 365)" using r4_eq by simp
    moreover note month_day_correct [OF r4_eq(2) this md(2)]
    moreover have "days_before_year ?y = 146097 * a + 36524 * b + 1461 * c + 365 * e"
      using days_before_year_decomposed [of b c e a] small b c e by (simp add: algebra_simps)
    ultimately show ?thesis using md(1) a b c e n_eq r400_eq r100_eq r4_eq
      by (simp add: valid_ymd_def days_of_ymd_def days_in_month_def epoch_ordinal_def n_def)
  next
    case True
    have ym: "y = a * 400 + b * 100 + c * 4 + e" "m = 12" "d = 31" using ymd True by auto
    show ?thesis
    proof (cases "b = 4")
      case True
      then have z: "r100 = 0" "c = 0" "r4 = 0" "e = 0" "r1 = 0"
        using n_eq r400_eq r100_eq r4_eq c e by linarith+
      have y: "y = 400 * (a + 1)" using ym z True by simp
      have leap: "is_leap y" using y by (simp add: is_leap_def)
      have "a \<le> 23" using a n n_eq r400_eq True by linarith
      have "days_before_year y = 146097 * a + 36524 * 3 + 1461 * 24 + 365 * 3"
        using days_before_year_decomposed [of 3 24 3 a] y by (simp add: algebra_simps)
      moreover note leap
      moreover have "1 \<le> y" "y \<le> 9999" using a(1) \<open>a \<le> 23\<close> by (simp_all add: y)
      ultimately show ?thesis using ym(2,3) z True n_eq r400_eq r100_eq r4_eq
        by (simp add: valid_ymd_def days_of_ymd_def days_in_month_def epoch_ordinal_def n_def)
    next
      case False
      then have e4: "e = 4" "r1 = 0" "c \<le> 23" "b \<le> 3"
        using True b r400_eq r100_eq r4_eq by linarith+
      have y: "y = 400 * a + 100 * b + 4 * c + 3 + 1" using ym e4 by simp
      have "y = 100 * (4 * a + b) + 4 * (c + 1)" using y by simp
      then have "y mod 100 = 4 * (c + 1) mod 100" by (simp only: mod_mult_self4)
      also have "\<dots> = 4 * (c + 1)" using c e4(3) by (intro mod_pos_pos_trivial) simp_all
      finally have "y mod 100 \<noteq> 0" using c by simp
      moreover have "y = 4 * (100 * a + 25 * b + c + 1)" using y by simp
      then have "y mod 4 = 0" by simp
      ultimately have "is_leap y" by (simp add: is_leap_def)
      moreover have "1 \<le> y" "y \<le> 9999" using a b c e4 y by linarith+
      moreover have "days_before_year y = 146097 * a + 36524 * b + 1461 * c + 365 * 3"
        using days_before_year_decomposed [of b c 3 a] b c e4 y by simp
      ultimately show ?thesis using ym(2,3) e4 n_eq r400_eq r100_eq r4_eq
        by (simp add: valid_ymd_def days_of_ymd_def days_in_month_def epoch_ordinal_def n_def)
    qed
  qed
  then show "valid_ymd y m d" "days_of_ymd y m d = days" by auto
qed

section \<open>The texts\<close>

definition zpad :: "nat \<Rightarrow> int \<Rightarrow> string" where
  "zpad w n = (let ds = nat_digits (nat n) in zeros (w - length ds) @ ds)"

definition iso_day :: "int \<Rightarrow> string" where
  "iso_day days = (let (y, m, d) = ymd_of_days days
     in zpad 4 y @ ''-'' @ zpad 2 m @ ''-'' @ zpad 2 d)"

definition iso_fraction :: "int \<Rightarrow> string" where
  "iso_fraction us = (if us = 0 then [] else CHR ''.'' # zpad 6 us)"

definition iso_time :: "int \<Rightarrow> string" where
  "iso_time t = (let us = t mod microseconds_per_day
     in iso_day (date_of t) @ ''T'' @ zpad 2 (us div 3600000000) @ '':'' @
        zpad 2 (us div 60000000 mod 60) @ '':'' @ zpad 2 (us div 1000000 mod 60) @
        iso_fraction (us mod 1000000) @ ''+00:00'')"

text \<open>Fixed-width fields and the characters between them.\<close>

definition read_fixed :: "nat \<Rightarrow> string \<Rightarrow> (int \<times> string) result" where
  "read_fixed w text = (let ds = take w text in
     if length ds = w \<and> list_all is_digit ds then Inr (digits_value ds, drop w text)
     else Inl ValueError)"

definition read_char :: "char \<Rightarrow> string \<Rightarrow> string result" where
  "read_char c text = (case text of [] \<Rightarrow> Inl ValueError
     | x # rest \<Rightarrow> if x = c then Inr rest else Inl ValueError)"

definition read_date :: "string \<Rightarrow> (int \<times> string) result" where
  "read_date text =
     rbind (read_fixed 4 text) (\<lambda>(y, t1). rbind (read_char CHR ''-'' t1) (\<lambda>t2.
     rbind (read_fixed 2 t2) (\<lambda>(m, t3). rbind (read_char CHR ''-'' t3) (\<lambda>t4.
     rbind (read_fixed 2 t4) (\<lambda>(d, t5).
       if valid_ymd y m d then Inr (days_of_ymd y m d, t5) else Inl ValueError)))))"

definition day_of_iso :: "string \<Rightarrow> int result" where
  "day_of_iso text = rbind (read_date text) (\<lambda>(days, rest).
     if rest = [] then Inr days else Inl ValueError)"

text \<open>At most six digits of the fraction count.\<close>

definition read_fraction :: "string \<Rightarrow> (int \<times> string) result" where
  "read_fraction text = (case text of
       c # rest \<Rightarrow> (if c = CHR ''.'' then
          (let ds = takeWhile is_digit rest; sig = take 6 ds in
           if ds = [] then Inl ValueError
           else Inr (digits_value (sig @ zeros (6 - length sig)), drop (length ds) rest))
         else Inr (0, text))
     | [] \<Rightarrow> Inr (0, []))"

definition read_offset :: "string \<Rightarrow> int result" where
  "read_offset text = (case text of
       c # rest \<Rightarrow> (if text = ''Z'' then Inr 0
         else if c = CHR ''+'' \<or> c = CHR ''-'' then
           rbind (read_fixed 2 rest) (\<lambda>(h, t1). rbind (read_char CHR '':'' t1) (\<lambda>t2.
           rbind (read_fixed 2 t2) (\<lambda>(m, t3).
             if t3 = [] \<and> h < 24 \<and> m < 60
             then Inr ((if c = CHR ''-'' then - 1 else 1) * (h * 60 + m) * microseconds_per_minute)
             else Inl ValueError)))
         else Inl ValueError)
     | [] \<Rightarrow> Inl ValueError)"

definition time_of_iso :: "string \<Rightarrow> int result" where
  "time_of_iso text =
     rbind (read_date text) (\<lambda>(days, t0). case t0 of [] \<Rightarrow> Inl ValueError | _ # t1 \<Rightarrow>
     rbind (read_fixed 2 t1) (\<lambda>(h, t2). rbind (read_char CHR '':'' t2) (\<lambda>t3.
     rbind (read_fixed 2 t3) (\<lambda>(mi, t4). rbind (read_char CHR '':'' t4) (\<lambda>t5.
     rbind (read_fixed 2 t5) (\<lambda>(s, t6). rbind (read_fraction t6) (\<lambda>(us, t7).
     rbind (read_offset t7) (\<lambda>off.
       if h < 24 \<and> mi < 60 \<and> s < 60
       then Inr (day_start days + ((h * 60 + mi) * 60 + s) * 1000000 + us - off)
       else Inl ValueError))))))))"

section \<open>What isoformat writes is read back\<close>

lemma nat_digits_length: "n < 10 ^ w \<Longrightarrow> 0 < w \<Longrightarrow> length (nat_digits n) \<le> w"
proof (induction n arbitrary: w rule: nat_digits.induct)
  case (1 n)
  show ?case
  proof (cases "n < 10")
    case True
    with 1 show ?thesis by (subst nat_digits.simps) simp
  next
    case False
    obtain v where w: "w = Suc v" using "1.prems"(2) by (cases w) auto
    with "1.prems" False have "n div 10 < 10 ^ v" "0 < v" by (cases v; simp add: div_less_iff_less_mult mult.commute)+
    with "1.IH" False w show ?thesis by (subst nat_digits.simps) simp
  qed
qed

lemma zpad_props:
  assumes "0 \<le> n" "n < 10 ^ w" "0 < w"
  shows "length (zpad w n) = w" "all_digits (zpad w n)" "digits_value (zpad w n) = n"
proof -
  have "nat n < 10 ^ w" using assms(1,2) by (simp add: nat_less_iff)
  then have "length (nat_digits (nat n)) \<le> w" using assms(3) by (rule nat_digits_length)
  then show "length (zpad w n) = w" by (simp add: zpad_def Let_def zeros_def)
  show "all_digits (zpad w n)" "digits_value (zpad w n) = n"
    using assms(1) by (simp_all add: zpad_def Let_def digits_value_append)
qed

lemma read_fixed_zpad:
  assumes "0 \<le> n" "n < 10 ^ w" "0 < w"
  shows "read_fixed w (zpad w n @ rest) = Inr (n, rest)"
  using zpad_props [OF assms] by (simp add: read_fixed_def Let_def all_digits_def list_all_iff)

lemma read_char_Cons [simp]: "read_char c (c # rest) = Inr rest"
  by (simp add: read_char_def)

lemma valid_ymd_bounds:
  "valid_ymd y m d \<Longrightarrow> 0 \<le> y \<and> y < 10 ^ 4 \<and> 0 \<le> m \<and> m < 10\<^sup>2 \<and> 0 \<le> d \<and> d < 10\<^sup>2"
  using month_cases [of m] by (auto simp: valid_ymd_def days_in_month_def split: if_splits)

lemma read_date_iso:
  assumes "day_in_range days"
  shows "read_date (iso_day days @ rest) = Inr (days, rest)"
proof -
  obtain y m d where ymd: "ymd_of_days days = (y, m, d)" by (metis prod_cases3)
  note v = ymd_of_days_correct [OF assms ymd]
  with valid_ymd_bounds [OF v(1)] show ?thesis
    by (simp add: iso_day_def ymd read_date_def read_fixed_zpad)
qed

lemma day_of_iso_iso: "day_in_range days \<Longrightarrow> day_of_iso (iso_day days) = Inr days"
  using read_date_iso [of days "[]"] by (simp add: day_of_iso_def)

lemma read_fraction_iso:
  assumes "0 \<le> us" "us < 1000000"
  shows "read_fraction (iso_fraction us @ ''+00:00'') = Inr (us, ''+00:00'')"
proof (cases "us = 0")
  case True
  then show ?thesis by (simp add: read_fraction_def iso_fraction_def)
next
  case False
  have z: "length (zpad 6 us) = 6" "all_digits (zpad 6 us)" "digits_value (zpad 6 us) = us"
    using zpad_props [of us 6] assms by simp_all
  then have "takeWhile is_digit (zpad 6 us @ ''+00:00'') = zpad 6 us"
    by (subst takeWhile_append2) (simp_all add: all_digits_def)
  moreover have "zpad 6 us \<noteq> []" using z(1) by auto
  ultimately show ?thesis using False z
    by (simp add: read_fraction_def iso_fraction_def Let_def zeros_def)
qed

lemma read_offset_utc: "read_offset ''+00:00'' = Inr 0"
proof -
  have "digits_value ''00'' = 0"
    using digits_value_zeros [of 2] by (simp add: zeros_def eval_nat_numeral)
  then have "read_fixed 2 ''00:00'' = Inr (0, '':00'')" "read_fixed 2 ''00'' = Inr (0, [])"
    by (simp_all add: read_fixed_def)
  then show ?thesis by (simp add: read_offset_def)
qed

lemma time_of_iso_fields:
  assumes "day_in_range day" "0 \<le> h" "h < 24" "0 \<le> m" "m < 60" "0 \<le> s" "s < 60"
    "0 \<le> us" "us < 1000000"
  shows "time_of_iso (iso_day day @ ''T'' @ zpad 2 h @ '':'' @ zpad 2 m @ '':'' @ zpad 2 s @
      iso_fraction us @ ''+00:00'') =
    Inr (day_start day + (((h * 60 + m) * 60 + s) * 1000000 + us))"
  using assms
  by (simp add: time_of_iso_def read_date_iso read_fixed_zpad read_fraction_iso read_offset_utc add.assoc)

lemma clock_fields:
  "((x div 3600000000 * 60 + x div 60000000 mod 60) * 60 + x div 1000000 mod 60) * 1000000 +
    x mod 1000000 = (x :: int)"
proof -
  define q where "q = x div 1000000"
  have "x div 60000000 = q div 60" "x div 3600000000 = q div 60 div 60"
    by (simp_all add: q_def flip: zdiv_zmult2_eq)
  then have "((x div 3600000000 * 60 + x div 60000000 mod 60) * 60 + x div 1000000 mod 60) * 1000000 +
      x mod 1000000 = ((q div 60 div 60 * 60 + q div 60 mod 60) * 60 + q mod 60) * 1000000 + x mod 1000000"
    by (simp only: q_def)
  also have "\<dots> = x" by (simp only: div_mult_mod_eq q_def)
  finally show ?thesis .
qed

lemma time_of_iso_iso:
  assumes "time_in_range t"
  shows "time_of_iso (iso_time t) = Inr t"
proof -
  let ?us = "t mod microseconds_per_day"
  let ?h = "?us div 3600000000" and ?m = "?us div 60000000 mod 60"
  let ?s = "?us div 1000000 mod 60" and ?f = "?us mod 1000000"
  have us: "0 \<le> ?us" "?us < 86400000000" by simp_all
  then have h: "0 \<le> ?h" "?h < 24" by linarith+
  have m: "0 \<le> ?m" "?m < 60" "0 \<le> ?s" "?s < 60" "0 \<le> ?f" "?f < 1000000" by simp_all
  have sum: "((?h * 60 + ?m) * 60 + ?s) * 1000000 + ?f = ?us" by (rule clock_fields)
  have day: "day_start (date_of t) + ?us = t"
    by (simp add: day_start_def date_of_def)
  have "time_of_iso (iso_time t) =
      Inr (day_start (date_of t) + (((?h * 60 + ?m) * 60 + ?s) * 1000000 + ?f))"
    unfolding iso_time_def Let_def by (rule time_of_iso_fields [OF date_of_in_range [OF assms] h m])
  then show ?thesis unfolding sum day .
qed

end
