(* ===== verification/LivePrices.thy ===== *)
theory LivePrices
  imports Isotime "HOL-Library.AList"
begin

text \<open>
  The live price of each symbol (stream/live_prices.py): \<open>merge\<close> folds a batch of trades into
  the stored values, \<open>to_redis\<close>/\<open>from_redis\<close> convert them to and from the strings Redis keeps,
  and \<open>read_live_prices\<close>/\<open>write_live_prices\<close> move them over one pipeline. A Python dict with
  string keys is an association list in insertion order; Redis is a hash per key.
\<close>

section \<open>Values\<close>

datatype pyval = VFloat pyfloat | VInt int | VTime int | VDay int

type_synonym vals = "(string \<times> pyval) list"

datatype parser = P_float | P_int | P_time | P_day

definition KEY_PREFIX :: string where
  "KEY_PREFIX = ''price:''"

definition PARSERS :: "(string \<times> parser) list" where
  "PARSERS =
     [(''price'', P_float), (''volume'', P_float), (''trade_ts'', P_time), (''day'', P_day),
      (''day_open'', P_float), (''day_high'', P_float), (''day_low'', P_float),
      (''trades_today'', P_int)]"

definition parse :: "parser \<Rightarrow> string \<Rightarrow> pyval result" where
  "parse p text = (case p of
       P_float \<Rightarrow> map_sum id VFloat (float_of_str text)
     | P_int \<Rightarrow> map_sum id VInt (int_of_str text)
     | P_time \<Rightarrow> map_sum id VTime (time_of_iso text)
     | P_day \<Rightarrow> map_sum id VDay (day_of_iso text))"

definition vget :: "vals \<Rightarrow> string \<Rightarrow> pyval result" where
  "vget d f = (case map_of d f of None \<Rightarrow> Inl KeyError | Some v \<Rightarrow> Inr v)"

text \<open>Comparison and addition as Python does them on mixed numbers; a date or a time raises.\<close>

definition number :: "pyval \<Rightarrow> pyfloat result" where
  "number v = (case v of VFloat x \<Rightarrow> Inr x | VInt n \<Rightarrow> Inr (Fin (of_int n)) | _ \<Rightarrow> Inl TypeError)"

definition add_count :: "pyval \<Rightarrow> nat \<Rightarrow> pyval result" where
  "add_count v n = (case v of
       VInt m \<Rightarrow> Inr (VInt (m + int n))
     | VFloat x \<Rightarrow> rbind (float_of_int (int n)) (\<lambda>y. Inr (VFloat (fadd x y)))
     | _ \<Rightarrow> Inl TypeError)"

section \<open>merge\<close>

definition merge :: "vals \<Rightarrow> trade list \<Rightarrow> vals result" where
  "merge old trades =
     rbind (py_max trade_ts trades) (\<lambda>latest.
     rbind (py_min trade_ts trades) (\<lambda>earliest.
     rbind (fmax_list (map price trades)) (\<lambda>high.
     rbind (fmin_list (map price trades)) (\<lambda>low.
       let result = [(''day'', VDay (date_of (trade_ts latest))), (''trade_ts'', VTime (trade_ts latest)),
                     (''volume'', VFloat (volume latest)), (''price'', VFloat (price latest))] in
       if old \<noteq> [] then
         rbind (vget old ''day_open'') (\<lambda>op.
         rbind (vget old ''day_high'') (\<lambda>h. rbind (number h) (\<lambda>hx.
         rbind (vget old ''day_low'') (\<lambda>l. rbind (number l) (\<lambda>lx.
         rbind (vget old ''trades_today'') (\<lambda>n.
         rbind (add_count n (length trades)) (\<lambda>total.
           Inr (result @
             [(''day_open'', op),
              (''day_high'', if py_lt high hx then h else VFloat high),
              (''day_low'', if py_lt lx low then l else VFloat low),
              (''trades_today'', total)]))))))))
       else
         Inr (result @
           [(''day_open'', VFloat (price earliest)), (''day_high'', VFloat high),
            (''day_low'', VFloat low), (''trades_today'', VInt (int (length trades)))])))))"

definition live_fields :: "string list" where
  "live_fields = [''day'', ''trade_ts'', ''volume'', ''price'', ''day_open'', ''day_high'',
     ''day_low'', ''trades_today'']"

lemma merge_fields: "merge old trades = Inr v \<Longrightarrow> map fst v = live_fields"
  by (auto simp: merge_def rbind_eq_Inr Let_def live_fields_def split: if_splits)

lemma merge_keeps_open:
  "merge old trades = Inr v \<Longrightarrow> old \<noteq> [] \<Longrightarrow> map_of v ''day_open'' = map_of old ''day_open''"
  by (auto simp: merge_def rbind_eq_Inr Let_def vget_def split: option.splits)

text \<open>The fields of the stored values \<open>merge\<close> reads.\<close>

definition holds_stats :: "vals \<Rightarrow> pyfloat \<Rightarrow> pyfloat \<Rightarrow> pyfloat \<Rightarrow> int \<Rightarrow> bool" where
  "holds_stats d op hi lo n \<longleftrightarrow>
     map_of d ''day_open'' = Some (VFloat op) \<and> map_of d ''day_high'' = Some (VFloat hi) \<and>
     map_of d ''day_low'' = Some (VFloat lo) \<and> map_of d ''trades_today'' = Some (VInt n)"

definition holds_latest :: "vals \<Rightarrow> trade \<Rightarrow> bool" where
  "holds_latest d t \<longleftrightarrow>
     map_of d ''day'' = Some (VDay (date_of (trade_ts t))) \<and>
     map_of d ''trade_ts'' = Some (VTime (trade_ts t)) \<and>
     map_of d ''volume'' = Some (VFloat (volume t)) \<and> map_of d ''price'' = Some (VFloat (price t))"

definition prices :: "trade list \<Rightarrow> pyfloat set" where
  "prices trades = price ` set trades"

lemma holds_stats_nonempty: "holds_stats d op hi lo n \<Longrightarrow> d \<noteq> []"
  by (auto simp: holds_stats_def)

lemma latest_exists:
  assumes "trades \<noteq> []"
  obtains t where "py_max trade_ts trades = Inr t" "t \<in> set trades"
    "\<And>u. u \<in> set trades \<Longrightarrow> trade_ts u \<le> trade_ts t"
  using assms py_max_Inr [of trade_ts trades] py_max_ok_iff [of trade_ts trades] by blast

lemma earliest_exists:
  assumes "trades \<noteq> []"
  obtains t where "py_min trade_ts trades = Inr t" "t \<in> set trades"
    "\<And>u. u \<in> set trades \<Longrightarrow> trade_ts t \<le> trade_ts u"
  using assms py_min_Inr [of trade_ts trades] py_min_ok_iff [of trade_ts trades] by blast

lemma price_extremes:
  assumes "trades \<noteq> []" "NaN \<notin> prices trades"
  shows "fmax_list (map price trades) = Inr (Max (prices trades))"
    and "fmin_list (map price trades) = Inr (Min (prices trades))"
    and "Max (prices trades) \<noteq> NaN" "Min (prices trades) \<noteq> NaN"
proof -
  have ne: "prices trades \<noteq> {}" "finite (prices trades)" using assms by (auto simp: prices_def)
  then show "Max (prices trades) \<noteq> NaN" "Min (prices trades) \<noteq> NaN"
    using Max_in [of "prices trades"] Min_in [of "prices trades"] assms(2) by metis+
  show "fmax_list (map price trades) = Inr (Max (prices trades))"
    "fmin_list (map price trades) = Inr (Min (prices trades))"
    using assms fmax_list_Max [of "map price trades"] fmin_list_Min [of "map price trades"]
    by (simp_all add: prices_def)
qed

lemma merge_first:
  assumes "trades \<noteq> []" "NaN \<notin> prices trades"
    "py_max trade_ts trades = Inr lt" "py_min trade_ts trades = Inr et"
  shows "\<exists>v. merge [] trades = Inr v \<and> holds_latest v lt \<and>
    holds_stats v (price et) (Max (prices trades)) (Min (prices trades)) (int (length trades))"
  using assms price_extremes [OF assms(1,2)]
  by (simp add: merge_def holds_latest_def holds_stats_def)

lemma merge_next:
  assumes "trades \<noteq> []" "NaN \<notin> prices trades" "holds_stats old op hi lo n" "hi \<noteq> NaN" "lo \<noteq> NaN"
    "py_max trade_ts trades = Inr lt"
  shows "\<exists>v. merge old trades = Inr v \<and> holds_latest v lt \<and>
    holds_stats v op (max hi (Max (prices trades))) (min lo (Min (prices trades)))
      (n + int (length trades))"
proof -
  obtain et where "py_min trade_ts trades = Inr et" using earliest_exists [OF assms(1)] .
  with assms price_extremes [OF assms(1,2)] holds_stats_nonempty [OF assms(3)] show ?thesis
    by (auto simp: merge_def holds_latest_def holds_stats_def vget_def number_def add_count_def
        max_def min_def)
qed

text \<open>A day's worth of batches, each merged into the result of the one before.\<close>

fun merge_all :: "vals \<Rightarrow> trade list list \<Rightarrow> vals result" where
  "merge_all old [] = Inr old"
| "merge_all old (b # bs) = rbind (merge old b) (\<lambda>v. merge_all v bs)"

lemma prices_append [simp]: "prices (xs @ ys) = prices xs \<union> prices ys"
  by (auto simp: prices_def)

lemma finite_prices [simp]: "finite (prices xs)"
  by (simp add: prices_def)

lemma prices_empty_iff [simp]: "prices xs = {} \<longleftrightarrow> xs = []"
  by (simp add: prices_def)

lemma merge_all_step:
  assumes "\<forall>b \<in> set bs. b \<noteq> []" "NaN \<notin> prices (concat bs)"
    "holds_stats old op hi lo n" "hi \<noteq> NaN" "lo \<noteq> NaN" "bs \<noteq> []"
    "py_max trade_ts (last bs) = Inr lt"
  shows "\<exists>v. merge_all old bs = Inr v \<and> holds_latest v lt \<and>
    holds_stats v op (Max (insert hi (prices (concat bs)))) (Min (insert lo (prices (concat bs))))
      (n + int (length (concat bs)))"
  using assms
proof (induction bs arbitrary: old hi lo n)
  case (Cons b bs)
  have b: "b \<noteq> []" "NaN \<notin> prices b" and bs: "NaN \<notin> prices (concat bs)" using Cons.prems by auto
  obtain bt where bt: "py_max trade_ts b = Inr bt" using latest_exists [OF b(1)] .
  obtain v where v: "merge old b = Inr v" "holds_latest v bt"
    "holds_stats v op (max hi (Max (prices b))) (min lo (Min (prices b))) (n + int (length b))"
    using merge_next [OF b Cons.prems(3-5) bt] by blast
  have nan: "max hi (Max (prices b)) \<noteq> NaN" "min lo (Min (prices b)) \<noteq> NaN"
    using price_extremes(3,4) [OF b] Cons.prems(4,5) by (auto simp: max_def min_def)
  show ?case
  proof (cases "bs = []")
    case True
    with v bt Cons.prems(7) b show ?thesis by (auto simp: Max_insert Min_insert)
  next
    case False
    then obtain w where w: "merge_all v bs = Inr w" "holds_latest w lt"
      "holds_stats w op (Max (insert (max hi (Max (prices b))) (prices (concat bs))))
        (Min (insert (min lo (Min (prices b))) (prices (concat bs))))
        (n + int (length b) + int (length (concat bs)))"
      using Cons.IH [OF _ bs v(3) nan False] Cons.prems by auto
    have c: "prices (concat bs) \<noteq> {}" using False Cons.prems(1) by (cases bs) auto
    with b have "Max (insert (max hi (Max (prices b))) (prices (concat bs))) =
        Max (insert hi (prices (concat (b # bs))))"
      "Min (insert (min lo (Min (prices b))) (prices (concat bs))) =
        Min (insert lo (prices (concat (b # bs))))"
      by (simp_all add: Max_Un Min_Un ac_simps)
    with w v(1) show ?thesis by (simp add: add.assoc)
  qed
qed simp

section \<open>The strings in Redis\<close>

definition show_entry :: "string \<times> pyval \<Rightarrow> string \<times> string" where
  "show_entry = (\<lambda>(field, v). (field, case v of
       VTime t \<Rightarrow> iso_time t | VDay d \<Rightarrow> iso_day d
     | VFloat x \<Rightarrow> str_of_float x | VInt n \<Rightarrow> str_of_int n))"

definition to_redis :: "vals \<Rightarrow> (string \<times> string) list" where
  "to_redis values = map show_entry values"

definition parse_entry :: "string \<times> string \<Rightarrow> (string \<times> pyval) result" where
  "parse_entry = (\<lambda>(field, text). case map_of PARSERS field of
       None \<Rightarrow> Inl KeyError
     | Some p \<Rightarrow> rbind (parse p text) (\<lambda>v. Inr (field, v)))"

definition from_redis :: "(string \<times> string) list \<Rightarrow> vals result" where
  "from_redis raw = map_result parse_entry raw"

text \<open>A field holds a value its parser returns.\<close>

definition parser_of :: "pyval \<Rightarrow> parser" where
  "parser_of v = (case v of VFloat _ \<Rightarrow> P_float | VInt _ \<Rightarrow> P_int | VTime _ \<Rightarrow> P_time | VDay _ \<Rightarrow> P_day)"

definition val_ok :: "pyval \<Rightarrow> bool" where
  "val_ok v = (case v of VFloat x \<Rightarrow> float_ok x | VTime t \<Rightarrow> time_in_range t
     | VDay d \<Rightarrow> day_in_range d | VInt _ \<Rightarrow> True)"

definition entry_ok :: "string \<times> pyval \<Rightarrow> bool" where
  "entry_ok e \<longleftrightarrow> map_of PARSERS (fst e) = Some (parser_of (snd e)) \<and> val_ok (snd e)"

definition vals_ok :: "vals \<Rightarrow> bool" where
  "vals_ok d \<longleftrightarrow> distinct (map fst d) \<and> list_all entry_ok d"

lemma parse_show_entry: "entry_ok e \<Longrightarrow> parse_entry (show_entry e) = Inr e"
  by (cases e; cases "snd e") (auto simp: show_entry_def parse_entry_def entry_ok_def parser_of_def
      val_ok_def parse_def float_of_str_of_float int_of_str_of_int time_of_iso_iso day_of_iso_iso)

lemma from_to_redis: "list_all entry_ok d \<Longrightarrow> from_redis (to_redis d) = Inr d"
  by (induction d) (simp_all add: from_redis_def to_redis_def parse_show_entry)

lemma fst_show_entry [simp]: "fst (show_entry e) = fst e"
  by (simp add: show_entry_def case_prod_beta)

lemma fst_to_redis [simp]: "map fst (to_redis d) = map fst d"
  by (simp add: to_redis_def comp_def)

lemma map_of_entry_ok: "list_all entry_ok d \<Longrightarrow> map_of d f = Some v \<Longrightarrow> entry_ok (f, v)"
  by (auto simp: list_all_iff dest: map_of_SomeD)

lemma parser_of_P_float: "P_float = parser_of v \<longleftrightarrow> (\<exists>x. v = VFloat x)"
  and parser_of_P_int: "P_int = parser_of v \<longleftrightarrow> (\<exists>n. v = VInt n)"
  by (cases v; simp add: parser_of_def)+

lemma PARSERS_simps [simp]:
  "map_of PARSERS ''price'' = Some P_float" "map_of PARSERS ''volume'' = Some P_float"
  "map_of PARSERS ''trade_ts'' = Some P_time" "map_of PARSERS ''day'' = Some P_day"
  "map_of PARSERS ''day_open'' = Some P_float" "map_of PARSERS ''day_high'' = Some P_float"
  "map_of PARSERS ''day_low'' = Some P_float" "map_of PARSERS ''trades_today'' = Some P_int"
  by (simp_all add: PARSERS_def)

lemma fmax_from_in: "fmax_from b xs \<in> insert b (set xs)"
proof (induction xs arbitrary: b)
  case (Cons x xs)
  show ?case using Cons [of x] Cons [of b] by auto
qed simp

lemma fmin_from_in: "fmin_from b xs \<in> insert b (set xs)"
proof (induction xs arbitrary: b)
  case (Cons x xs)
  show ?case using Cons [of x] Cons [of b] by auto
qed simp

lemma fmax_list_in: "fmax_list xs = Inr m \<Longrightarrow> m \<in> set xs"
  and fmin_list_in: "fmin_list xs = Inr m \<Longrightarrow> m \<in> set xs"
  using fmax_from_in fmin_from_in by (auto simp: fmax_list_def fmin_list_def split: list.splits)

text \<open>The fields \<open>merge\<close> reads are well typed.\<close>

definition stats_ok :: "vals \<Rightarrow> bool" where
  "stats_ok d \<longleftrightarrow> (\<forall>f \<in> {''day_open'', ''day_high'', ''day_low'', ''trades_today''}.
     \<forall>v. map_of d f = Some v \<longrightarrow> entry_ok (f, v))"

lemma entries_stats_ok: "list_all entry_ok d \<Longrightarrow> stats_ok d"
  by (simp add: stats_ok_def map_of_entry_ok)

lemma from_redis_fields: "from_redis raw = Inr d \<Longrightarrow> map fst d = map fst raw"
  by (induction raw arbitrary: d)
    (auto simp: from_redis_def rbind_eq_Inr parse_entry_def split: option.splits)

lemma parse_entry_ok:
  "parse_entry e = Inr (f, v) \<Longrightarrow> map_of PARSERS f \<in> {Some P_float, Some P_int} \<Longrightarrow> entry_ok (f, v)"
  by (auto simp: parse_entry_def rbind_eq_Inr parse_def entry_ok_def parser_of_def val_ok_def
      float_of_str_def Let_def split: option.splits prod.splits if_splits parser.splits
      elim!: map_sum_Inr)

lemma from_redis_stats_ok: "from_redis raw = Inr d \<Longrightarrow> stats_ok d"
proof -
  assume "from_redis raw = Inr d"
  then have "list_all2 (\<lambda>x y. parse_entry x = Inr y) raw d" by (simp add: from_redis_def map_result_Inr_iff)
  then have "\<forall>e \<in> set d. \<exists>x. parse_entry x = Inr e"
    by (metis (mono_tags, lifting) in_set_conv_nth list_all2_conv_all_nth)
  then have "entry_ok (f, v)" if "map_of d f = Some v" "map_of PARSERS f \<in> {Some P_float, Some P_int}" for f v
    using that parse_entry_ok by (metis map_of_SomeD)
  then show ?thesis by (simp add: stats_ok_def)
qed

lemma merge_ok:
  assumes "merge old trades = Inr v" "stats_ok old" "\<forall>t \<in> set trades. trade_ok t"
  shows "vals_ok v"
proof -
  have "distinct (map fst v)" using merge_fields [OF assms(1)] by (simp add: live_fields_def)
  obtain lt et hi lo where t: "py_max trade_ts trades = Inr lt" "py_min trade_ts trades = Inr et"
    "fmax_list (map price trades) = Inr hi" "fmin_list (map price trades) = Inr lo"
    using assms(1) by (auto simp: merge_def rbind_eq_Inr)
  have "lt \<in> set trades" "et \<in> set trades" "hi \<in> price ` set trades" "lo \<in> price ` set trades"
    using t py_max_Inr(1) py_min_Inr(1) fmax_list_in [OF t(3)] fmin_list_in [OF t(4)] by auto
  with assms(3) have ok: "trade_ok lt" "trade_ok et" "float_ok hi" "float_ok lo"
    by (auto simp: trade_ok_def)
  have "list_all entry_ok v"
  proof (cases "old = []")
    case True
    with assms(1) t ok show ?thesis
      by (auto simp: merge_def Let_def entry_ok_def parser_of_def val_ok_def trade_ok_def date_of_in_range)
  next
    case False
    with assms(1) t obtain op h l n hx lx total where o:
      "map_of old ''day_open'' = Some op" "map_of old ''day_high'' = Some h"
      "map_of old ''day_low'' = Some l" "map_of old ''trades_today'' = Some n"
      "add_count n (length trades) = Inr total"
      "v = [(''day'', VDay (date_of (trade_ts lt))), (''trade_ts'', VTime (trade_ts lt)),
         (''volume'', VFloat (volume lt)), (''price'', VFloat (price lt)), (''day_open'', op),
         (''day_high'', if py_lt hi hx then h else VFloat hi),
         (''day_low'', if py_lt lx lo then l else VFloat lo), (''trades_today'', total)]"
      by (auto simp: merge_def Let_def rbind_eq_Inr vget_def split: option.splits)
    have e: "entry_ok (''day_open'', op)" "entry_ok (''day_high'', h)" "entry_ok (''day_low'', l)"
      "entry_ok (''trades_today'', n)" using assms(2) o(1-4) by (simp_all add: stats_ok_def)
    then obtain x where "n = VInt x" by (auto simp: entry_ok_def parser_of_P_int)
    with o(5) have "total = VInt (x + int (length trades))" by (simp add: add_count_def)
    with e ok o(6) show ?thesis
      by (auto simp: entry_ok_def parser_of_def val_ok_def trade_ok_def date_of_in_range)
  qed
  with \<open>distinct (map fst v)\<close> show ?thesis by (simp add: vals_ok_def)
qed

section \<open>The hash store the live prices live in\<close>

text \<open>What the code relies on of Redis hashes: \<open>HSET\<close> with a mapping sets those fields of one
  key and leaves its other fields and every other key alone.\<close>

locale hash_store =
  fixes hgetall :: "'s \<Rightarrow> string \<Rightarrow> (string \<times> string) list"
    and hset :: "string \<Rightarrow> (string \<times> string) list \<Rightarrow> 's \<Rightarrow> 's"
  assumes hset_same: "distinct (map fst m) \<Longrightarrow>
      map_of (hgetall (hset k m s) k) = map_of (hgetall s k) ++ map_of m"
    and hset_other: "k' \<noteq> k \<Longrightarrow> hgetall (hset k m s) k' = hgetall s k'"
    and hset_distinct: "distinct (map fst (hgetall s k)) \<Longrightarrow> distinct (map fst (hgetall (hset k m s) k))"
begin

lemma fold_other:
  "k \<notin> fst ` set kms \<Longrightarrow> hgetall (fold (\<lambda>(k, m). hset k m) kms s) k = hgetall s k"
proof (induction kms arbitrary: s)
  case (Cons km kms)
  then show ?case by (cases km) (auto simp: hset_other)
qed simp

lemma fold_same:
  "distinct (map fst kms) \<Longrightarrow> (k, m) \<in> set kms \<Longrightarrow> distinct (map fst m) \<Longrightarrow>
   map_of (hgetall (fold (\<lambda>(k, m). hset k m) kms s) k) = map_of (hgetall s k) ++ map_of m"
proof (induction kms arbitrary: s)
  case (Cons km kms)
  show ?case
  proof (cases "km = (k, m)")
    case True
    with Cons.prems have "k \<notin> fst ` set kms" by auto
    with True Cons.prems(3) show ?thesis by (simp add: fold_other hset_same)
  next
    case False
    with Cons.prems(1,2) have "(k, m) \<in> set kms" "fst km \<notin> fst ` set kms" by auto
    then have "fst km \<noteq> k" by (metis fst_conv image_eqI)
    with Cons False show ?thesis by (cases km) (auto simp: hset_other)
  qed
qed simp

lemma fold_distinct:
  "distinct (map fst (hgetall s k)) \<Longrightarrow>
   distinct (map fst (hgetall (fold (\<lambda>(k, m). hset k m) kms s) k))"
proof (induction kms arbitrary: s)
  case (Cons km kms)
  obtain k' m where km: "km = (k', m)" by fastforce
  have "distinct (map fst (hgetall (hset k' m s) k))"
    using Cons.prems hset_distinct hset_other by (cases "k = k'") auto
  with Cons.IH km show ?case by simp
qed simp

text \<open>A key whose stored fields are all rewritten holds exactly the new mapping.\<close>

lemma fold_overwrites:
  assumes "distinct (map fst kms)" "(k, m) \<in> set kms" "distinct (map fst m)"
    "distinct (map fst (hgetall s k))" "fst ` set (hgetall s k) \<subseteq> fst ` set m"
  shows "set (hgetall (fold (\<lambda>(k, m). hset k m) kms s) k) = set m"
proof -
  let ?r = "hgetall (fold (\<lambda>(k, m). hset k m) kms s) k"
  have "dom (map_of (hgetall s k)) \<subseteq> dom (map_of m)" using assms(5) by (simp add: dom_map_of_conv_image_fst)
  then have "map_of (hgetall s k) ++ map_of m = map_of m"
    by (auto simp: map_add_def fun_eq_iff dom_def split: option.splits)
  then have "map_of ?r = map_of m" using fold_same [OF assms(1-3)] by simp
  moreover have "distinct (map fst ?r)" using assms(4) by (rule fold_distinct)
  ultimately show ?thesis using assms(3) by (simp add: map_of_inject_set)
qed

end

type_synonym redis = "string \<Rightarrow> (string \<times> string) list"

definition hgetall :: "redis \<Rightarrow> string \<Rightarrow> (string \<times> string) list" where
  "hgetall r k = r k"

definition hset :: "string \<Rightarrow> (string \<times> string) list \<Rightarrow> redis \<Rightarrow> redis" where
  "hset k m r = r(k := fold (\<lambda>(f, t). AList.update f t) m (r k))"

lemma map_of_fold_update:
  "distinct (map fst m) \<Longrightarrow> map_of (fold (\<lambda>(f, t). AList.update f t) m h) = map_of h ++ map_of m"
proof (induction m arbitrary: h)
  case (Cons e m)
  obtain f t where e: "e = (f, t)" by fastforce
  with Cons.prems have "f \<notin> dom (map_of m)" by (simp add: dom_map_of_conv_image_fst)
  with Cons e show ?case by (auto simp: update_conv' map_add_def fun_eq_iff dom_def split: option.splits)
qed simp

lemma distinct_fold_update:
  "distinct (map fst h) \<Longrightarrow> distinct (map fst (fold (\<lambda>(f, t). AList.update f t) m h))"
  by (induction m arbitrary: h) (auto simp: distinct_update)

interpretation rs: hash_store hgetall hset
  by unfold_locales (simp_all add: hgetall_def hset_def map_of_fold_update distinct_fold_update)

section \<open>read_live_prices and write_live_prices\<close>

text \<open>\<open>redis-py\<close> runs a pipeline as one MULTI/EXEC transaction. It may fail before the server
  applies it, or after (the reply is lost on the 0.5 second timeout).\<close>

datatype redis_outcome = Done | Refused exn | ReplyLost exn

definition redis_key :: "string \<Rightarrow> string" where
  "redis_key s = KEY_PREFIX @ s"

definition read_live_prices :: "exn option \<Rightarrow> redis \<Rightarrow> string list \<Rightarrow> (string \<times> vals) list result" where
  "read_live_prices failure client symbols = (case failure of
       Some e \<Rightarrow> Inl e
     | None \<Rightarrow> map_result (\<lambda>s. rbind (from_redis (hgetall client (redis_key s))) (\<lambda>v. Inr (s, v))) symbols)"

definition write_live_prices :: "redis_outcome \<Rightarrow> redis \<Rightarrow> (string \<times> vals) list \<Rightarrow> unit result \<times> redis" where
  "write_live_prices outcome client values_by_symbol =
     (let written = fold (\<lambda>(k, m). hset k m)
            (map (\<lambda>(s, v). (redis_key s, to_redis v)) values_by_symbol) client
      in case outcome of Done \<Rightarrow> (Inr (), written) | Refused e \<Rightarrow> (Inl e, client)
         | ReplyLost e \<Rightarrow> (Inl e, written))"

text \<open>What every stored hash looks like: distinct fields, all with a parser.\<close>

definition redis_ok :: "redis \<Rightarrow> bool" where
  "redis_ok r \<longleftrightarrow> (\<forall>s. distinct (map fst (r (redis_key s))) \<and>
     fst ` set (r (redis_key s)) \<subseteq> set live_fields)"

lemma redis_key_inj [simp]: "redis_key s = redis_key t \<longleftrightarrow> s = t"
  by (simp add: redis_key_def)

lemma from_redis_same_set:
  assumes "set raw = set (to_redis d)" "list_all entry_ok d"
  shows "\<exists>d'. from_redis raw = Inr d' \<and> set d' = set d"
proof -
  have "\<exists>e \<in> set d. x = show_entry e \<and> parse_entry x = Inr e" if "x \<in> set raw" for x
    using that assms by (auto simp: to_redis_def list_all_iff parse_show_entry)
  then obtain g where g: "\<And>x. x \<in> set raw \<Longrightarrow> g x \<in> set d \<and> x = show_entry (g x) \<and> parse_entry x = Inr (g x)"
    by metis
  have "from_redis raw = Inr (map g raw)"
    unfolding from_redis_def by (rule map_result_all_ok) (simp add: g)
  moreover have "set (map g raw) = set d"
  proof (intro subset_antisym subsetI)
    fix e assume "e \<in> set d"
    with assms have "show_entry e \<in> set raw" "parse_entry (show_entry e) = Inr e"
      by (auto simp: to_redis_def list_all_iff parse_show_entry)
    with g [of "show_entry e"] have "g (show_entry e) = e" by simp
    with \<open>show_entry e \<in> set raw\<close> show "e \<in> set (map g raw)" by (metis image_eqI set_map)
  qed (use g in auto)
  ultimately show ?thesis by blast
qed

lemma read_one:
  assumes "set (client (redis_key s)) = set (to_redis d)" "list_all entry_ok d"
  obtains d' where "from_redis (hgetall client (redis_key s)) = Inr d'" "set d' = set d"
  using from_redis_same_set [OF assms] by (auto simp: hgetall_def)

lemma read_live_prices_Inr:
  "read_live_prices f r syms = Inr res \<longleftrightarrow> f = None \<and>
     list_all2 (\<lambda>s e. \<exists>v. from_redis (hgetall r (redis_key s)) = Inr v \<and> e = (s, v)) syms res"
  by (auto simp: read_live_prices_def map_result_Inr_iff rbind_eq_Inr split: option.splits
      elim!: list_all2_mono)

section \<open>Properties\<close>

text \<open>
  Merging a day's non-empty batches one after the other (no NaN price) never fails and gives
  what one pass over all of them gives: the highest and lowest price of all trades and their
  number, whatever the batch boundaries and the order inside a batch; the opening price is that
  of the earliest trade of the first batch, and day, time, price and volume are those of the
  latest trade of the last batch.
\<close>

theorem merge_day_stats:
  assumes "bs \<noteq> []" "\<forall>b \<in> set bs. b \<noteq> []" "NaN \<notin> prices (concat bs)"
  shows "\<exists>v et lt. merge_all [] bs = Inr v \<and>
    et \<in> set (hd bs) \<and> (\<forall>u \<in> set (hd bs). trade_ts et \<le> trade_ts u) \<and>
    lt \<in> set (last bs) \<and> (\<forall>u \<in> set (last bs). trade_ts u \<le> trade_ts lt) \<and>
    holds_latest v lt \<and>
    holds_stats v (price et) (Max (prices (concat bs))) (Min (prices (concat bs)))
      (int (length (concat bs)))"
proof -
  obtain b cs where bs: "bs = b # cs" using assms(1) by (cases bs) auto
  have b: "b \<noteq> []" "NaN \<notin> prices b" and cs: "NaN \<notin> prices (concat cs)" "\<forall>b \<in> set cs. b \<noteq> []"
    using assms bs by auto
  obtain et where et: "py_min trade_ts b = Inr et" "et \<in> set b" "\<And>u. u \<in> set b \<Longrightarrow> trade_ts et \<le> trade_ts u"
    using earliest_exists [OF b(1)] by metis
  obtain bt where bt: "py_max trade_ts b = Inr bt" using latest_exists [OF b(1)] .
  have "last bs \<noteq> []" using assms(1,2) by simp
  then obtain lt where lt: "py_max trade_ts (last bs) = Inr lt" "lt \<in> set (last bs)"
    "\<And>u. u \<in> set (last bs) \<Longrightarrow> trade_ts u \<le> trade_ts lt" by (rule latest_exists) blast
  obtain v where v: "merge [] b = Inr v" "holds_latest v bt"
    "holds_stats v (price et) (Max (prices b)) (Min (prices b)) (int (length b))"
    using merge_first [OF b bt et(1)] by blast
  have "\<exists>w. merge_all [] bs = Inr w \<and> holds_latest w lt \<and>
    holds_stats w (price et) (Max (prices (concat bs))) (Min (prices (concat bs))) (int (length (concat bs)))"
  proof (cases "cs = []")
    case True
    with bs bt lt(1) v show ?thesis by auto
  next
    case False
    with bs lt(1) have "py_max trade_ts (last cs) = Inr lt" by simp
    from merge_all_step [OF cs(2,1) v(3) price_extremes(3,4) [OF b] False this]
    obtain w where w: "merge_all v cs = Inr w" "holds_latest w lt"
      "holds_stats w (price et) (Max (insert (Max (prices b)) (prices (concat cs))))
        (Min (insert (Min (prices b)) (prices (concat cs)))) (int (length b) + int (length (concat cs)))"
      by blast
    have "prices (concat cs) \<noteq> {}" using False cs(2) by (cases cs) auto
    with w v(1) b(1) bs show ?thesis by (simp add: Max_Un Min_Un)
  qed
  moreover have "hd bs = b" using bs by simp
  ultimately show ?thesis using et(2,3) lt(2,3) by blast
qed

definition sample :: "int \<Rightarrow> pyfloat \<Rightarrow> trade" where
  "sample ts p = \<lparr> symbol = ''NVDA'', trade_ts = ts, price = p, volume = Fin 1, conditions = [] \<rparr>"

theorem merge_day_stats_witness:
  "\<exists>v. merge_all [] [[sample 20 (Fin 7), sample 10 (Fin 5)], [sample 30 (Fin 6)]] = Inr v \<and>
     holds_stats v (Fin 5) (Fin 7) (Fin 5) 3 \<and> map_of v ''price'' = Some (VFloat (Fin 6))"
proof -
  let ?bs = "[[sample 20 (Fin 7), sample 10 (Fin 5)], [sample 30 (Fin 6)]]"
  have m: "Max (prices (concat ?bs)) = Fin 7" "Min (prices (concat ?bs)) = Fin 5"
    by (simp_all add: prices_def sample_def max_def min_def)
  have "NaN \<notin> prices (concat ?bs)" by (simp add: prices_def sample_def)
  with merge_day_stats [of ?bs] obtain v et lt where
    v: "merge_all [] ?bs = Inr v" "et \<in> set (hd ?bs)" "\<forall>u \<in> set (hd ?bs). trade_ts et \<le> trade_ts u"
    "lt \<in> set (last ?bs)" "holds_latest v lt"
    "holds_stats v (price et) (Fin 7) (Fin 5) (int (length (concat ?bs)))"
    unfolding m by auto
  then have "et = sample 10 (Fin 5)" "lt = sample 30 (Fin 6)" by (auto simp: sample_def)
  with v show ?thesis by (auto simp: sample_def holds_latest_def)
qed

text \<open>
  A NaN price makes the day's high forget everything before it: after a trade at 10, a NaN
  trade in a batch of its own and a trade at 5, the stored high is 5.
\<close>

theorem nan_price_forgets_high:
  "\<exists>v. merge_all [] [[sample 1 (Fin 10)], [sample 2 NaN], [sample 3 (Fin 5)]] = Inr v \<and>
     map_of v ''day_high'' = Some (VFloat (Fin 5)) \<and> map_of v ''trades_today'' = Some (VInt 3)"
  by (simp add: merge_def sample_def py_max_def py_min_def fmax_list_def fmin_list_def vget_def
      number_def add_count_def)

text \<open>
  C28: The conversion to Redis strings loses nothing: a well-typed set of values comes back
  exactly, floats bit for bit, times to the microsecond, dates over the whole calendar; and
  \<open>merge\<close> of well-typed values with well-typed trades gives such a set, with all eight fields.
\<close>

theorem live_prices_roundtrip:
  "(vals_ok d \<longrightarrow> from_redis (to_redis d) = Inr d) \<and>
   (vals_ok old \<and> (\<forall>t \<in> set trades. trade_ok t) \<and> merge old trades = Inr v \<longrightarrow>
      vals_ok v \<and> map fst v = live_fields \<and> from_redis (to_redis v) = Inr v)"
  using merge_ok [of old trades v] merge_fields [of old trades v] from_to_redis entries_stats_ok
  by (auto simp: vals_ok_def)

lemma sample_ok: "trade_ok (sample 1 (Fin 5))"
  by (simp add: trade_ok_def sample_def time_in_range_def is_double_numeral)

theorem live_prices_roundtrip_witness:
  "\<exists>v. merge [] [sample 1 (Fin 5)] = Inr v \<and> from_redis (to_redis v) = Inr v \<and> length v = 8"
proof -
  obtain v where v: "merge [] [sample 1 (Fin 5)] = Inr v"
    using merge_first [of "[sample 1 (Fin 5)]"] by (auto simp: prices_def sample_def py_max_def py_min_def)
  with live_prices_roundtrip [of "[]" "[]" "[sample 1 (Fin 5)]" v] sample_ok
  have "map fst v = live_fields" "from_redis (to_redis v) = Inr v" by (auto simp: vals_ok_def)
  then have "length (map fst v) = 8" by (simp add: live_fields_def)
  with v \<open>from_redis (to_redis v) = Inr v\<close> show ?thesis by simp
qed

lemma write_live_prices_Done:
  assumes "redis_ok r" "distinct (map fst vs)"
    "\<forall>(s, v) \<in> set vs. vals_ok v \<and> map fst v = live_fields"
    "write_live_prices Done r vs = (res, r')"
  shows "res = Inr ()" "redis_ok r'"
    "k \<notin> redis_key ` fst ` set vs \<Longrightarrow> r' k = r k"
    "(s, v) \<in> set vs \<Longrightarrow> \<exists>d. from_redis (hgetall r' (redis_key s)) = Inr d \<and> set d = set v"
proof -
  let ?kms = "map (\<lambda>(s, v). (redis_key s, to_redis v)) vs"
  have r': "res = Inr ()" "r' = fold (\<lambda>(k, m). hset k m) ?kms r"
    using assms(4) by (auto simp: write_live_prices_def)
  have keys: "map fst ?kms = map redis_key (map fst vs)" by (simp add: case_prod_beta)
  have dk: "distinct (map fst ?kms)"
    unfolding keys using assms(2) by (simp add: distinct_map inj_on_def)
  have other: "r' k = r k" if "k \<notin> redis_key ` fst ` set vs" for k
    using rs.fold_other [of k ?kms r] that by (simp add: hgetall_def r'(2) image_image case_prod_beta)
  have same: "set (r' (redis_key s)) = set (to_redis v)" if sv: "(s, v) \<in> set vs" for s v
  proof -
    have v: "map fst (to_redis v) = live_fields" "distinct (map fst (to_redis v))"
      using assms(3) sv by (auto simp: vals_ok_def live_fields_def)
    then have "fst ` set (r (redis_key s)) \<subseteq> fst ` set (to_redis v)"
      using assms(1) by (metis redis_ok_def set_map)
    with rs.fold_overwrites [of ?kms "redis_key s" "to_redis v" r] dk v(2) sv assms(1)
    show ?thesis by (force simp: hgetall_def r'(2) redis_ok_def)
  qed
  have dist: "distinct (map fst (r' (redis_key s)))" for s
    using rs.fold_distinct [of r "redis_key s" ?kms] assms(1) by (simp add: hgetall_def r'(2) redis_ok_def)
  have "fst ` set (r' (redis_key s)) \<subseteq> set live_fields" for s
  proof (cases "s \<in> fst ` set vs")
    case True
    then obtain v where sv: "(s, v) \<in> set vs" by auto
    then have "map fst (to_redis v) = live_fields" using assms(3) by auto
    with same [OF sv] show ?thesis by (metis order_refl set_map)
  next
    case False
    then have "r' (redis_key s) = r (redis_key s)" by (intro other) force
    with assms(1) show ?thesis by (simp add: redis_ok_def)
  qed
  with dist show "redis_ok r'" by (simp add: redis_ok_def)
  show "res = Inr ()" "k \<notin> redis_key ` fst ` set vs \<Longrightarrow> r' k = r k" using r'(1) other by auto
  show "\<exists>d. from_redis (hgetall r' (redis_key s)) = Inr d \<and> set d = set v" if sv: "(s, v) \<in> set vs"
  proof -
    have "list_all entry_ok v" using assms(3) sv by (auto simp: vals_ok_def)
    from read_one [where client = r', OF same [OF sv] this] show ?thesis by blast
  qed
qed

text \<open>
  After a successful pipeline write, reading the written symbols back succeeds and gives,
  for every one of them, exactly the fields and values written, and nothing else is changed:
  any other key keeps its hash. The store stays well-formed. A write that fails before the
  server applied it changes nothing.
\<close>

theorem write_then_read:
  assumes "redis_ok r" "distinct (map fst vs)"
    "\<forall>(s, v) \<in> set vs. vals_ok v \<and> map fst v = live_fields"
    "write_live_prices Done r vs = (res, r')"
  shows "res = Inr () \<and> redis_ok r' \<and>
    (\<exists>got. read_live_prices None r' (map fst vs) = Inr got \<and>
       list_all2 (\<lambda>(s, v) (s', v'). s = s' \<and> set v = set v') vs got) \<and>
    (\<forall>k. k \<notin> redis_key ` fst ` set vs \<longrightarrow> r' k = r k) \<and>
    (\<forall>e. write_live_prices (Refused e) r vs = (Inl e, r))"
proof -
  note wrote = write_live_prices_Done [OF assms]
  have "\<exists>got. list_all2 (\<lambda>s e. \<exists>v. from_redis (hgetall r' (redis_key s)) = Inr v \<and> e = (s, v))
      (map fst ws) got \<and> list_all2 (\<lambda>(s, v) (s', v'). s = s' \<and> set v = set v') ws got"
    if "set ws \<subseteq> set vs" for ws
    using that
  proof (induction ws)
    case (Cons w ws)
    obtain s v where w: "w = (s, v)" by fastforce
    with Cons.prems have "(s, v) \<in> set vs" by simp
    from wrote(4) [OF this] obtain d where "from_redis (hgetall r' (redis_key s)) = Inr d" "set d = set v"
      by blast
    with Cons w show ?case by (auto simp: list_all2_Cons1)
  qed simp
  then have "\<exists>got. read_live_prices None r' (map fst vs) = Inr got \<and>
      list_all2 (\<lambda>(s, v) (s', v'). s = s' \<and> set v = set v') vs got"
    unfolding read_live_prices_Inr by auto
  with wrote(1-3) show ?thesis by (auto simp: write_live_prices_def)
qed

lemma sample_values_ok: "merge [] [sample 1 (Fin 5)] = Inr v \<Longrightarrow> vals_ok v \<and> map fst v = live_fields"
  using merge_ok [of "[]" "[sample 1 (Fin 5)]" v] merge_fields sample_ok by (simp add: stats_ok_def)

theorem write_then_read_witness:
  "\<exists>v got. merge [] [sample 1 (Fin 5)] = Inr v \<and>
     read_live_prices None (snd (write_live_prices Done (\<lambda>k. []) [(''NVDA'', v)])) [''NVDA''] = Inr got \<and>
     (\<exists>v'. got = [(''NVDA'', v')] \<and> set v' = set v)"
proof -
  obtain v where v: "merge [] [sample 1 (Fin 5)] = Inr v"
    using merge_first [of "[sample 1 (Fin 5)]"] by (auto simp: prices_def sample_def py_max_def py_min_def)
  obtain res r' where w: "write_live_prices Done (\<lambda>k. []) [(''NVDA'', v)] = (res, r')" by fastforce
  have "redis_ok (\<lambda>k. [])" by (simp add: redis_ok_def)
  from write_then_read [OF this _ _ w] sample_values_ok [OF v] v w show ?thesis
    by (fastforce simp: list_all2_Cons1)
qed

end
