(* ===== verification/Alerts.thy ===== *)
theory Alerts
  imports Tables
begin

text \<open>
  The alert matcher of the stream (stream/alerts.py): which pending alerts a batch of trades
  sets off, at which trade. A threshold arrives from a \<open>NUMERIC\<close> column as a Python
  \<open>Decimal\<close>; comparing it with a float is exact, and raises when the float is NaN.
\<close>

section \<open>The matcher\<close>

definition ABOVE :: string where
  "ABOVE = ''above''"

record pending_alert =
  pa_alert_id :: nat
  pa_symbol :: string
  pa_direction :: string
  pa_threshold :: rat

record fired =
  fi_alert_id :: nat
  fi_price :: pyfloat
  fi_trade_ts :: int

fun float_ge_decimal :: "pyfloat \<Rightarrow> rat \<Rightarrow> bool result" where
  "float_ge_decimal (Fin q) d = Inr (d \<le> q)"
| "float_ge_decimal PosInf d = Inr True"
| "float_ge_decimal NegInf d = Inr False"
| "float_ge_decimal NaN d = Inl InvalidOperation"

fun float_le_decimal :: "pyfloat \<Rightarrow> rat \<Rightarrow> bool result" where
  "float_le_decimal (Fin q) d = Inr (q \<le> d)"
| "float_le_decimal PosInf d = Inr False"
| "float_le_decimal NegInf d = Inr True"
| "float_le_decimal NaN d = Inl InvalidOperation"

definition crossed :: "pending_alert \<Rightarrow> trade \<Rightarrow> bool result" where
  "crossed alert t =
     (if symbol t \<noteq> pa_symbol alert then Inr False
      else if pa_direction alert = ABOVE then float_ge_decimal (price t) (pa_threshold alert)
      else float_le_decimal (price t) (pa_threshold alert))"

text \<open>\<open>next((t for t in in_time_order if crossed(alert, t)), None)\<close>: lazy, so it stops at
  the first trade that crosses or raises.\<close>

fun first_crossing :: "pending_alert \<Rightarrow> trade list \<Rightarrow> trade option result" where
  "first_crossing alert [] = Inr None"
| "first_crossing alert (t # ts) =
     rbind (crossed alert t) (\<lambda>c. if c then Inr (Some t) else first_crossing alert ts)"

definition fired_by :: "pending_alert \<Rightarrow> trade \<Rightarrow> fired" where
  "fired_by alert t =
     \<lparr> fi_alert_id = pa_alert_id alert, fi_price = price t, fi_trade_ts = trade_ts t \<rparr>"

fun fire_loop :: "pending_alert list \<Rightarrow> trade list \<Rightarrow> fired list result" where
  "fire_loop [] in_time_order = Inr []"
| "fire_loop (alert # alerts) in_time_order =
     rbind (first_crossing alert in_time_order) (\<lambda>first.
     rbind (fire_loop alerts in_time_order) (\<lambda>rest.
       Inr (case first of None \<Rightarrow> rest | Some t \<Rightarrow> fired_by alert t # rest)))"

definition find_triggered :: "pending_alert list \<Rightarrow> trade list \<Rightarrow> fired list result" where
  "find_triggered alerts trades = fire_loop alerts (sort_key trade_ts trades)"

section \<open>What it promises\<close>

text \<open>The contract: a trade crosses an alert of its symbol when its price is at or beyond the
  threshold on the alert's side. It is undefined only on a NaN price of that symbol.\<close>

fun above_decimal :: "pyfloat \<Rightarrow> rat \<Rightarrow> bool" where
  "above_decimal (Fin q) d = (d \<le> q)"
| "above_decimal x d = (x = PosInf)"

fun below_decimal :: "pyfloat \<Rightarrow> rat \<Rightarrow> bool" where
  "below_decimal (Fin q) d = (q \<le> d)"
| "below_decimal x d = (x = NegInf)"

definition crosses :: "pending_alert \<Rightarrow> trade \<Rightarrow> bool" where
  "crosses alert t \<longleftrightarrow> symbol t = pa_symbol alert \<and>
     (if pa_direction alert = ABOVE then above_decimal (price t) (pa_threshold alert)
      else below_decimal (price t) (pa_threshold alert))"

lemma crossed_crosses:
  "price t \<noteq> NaN \<or> symbol t \<noteq> pa_symbol alert \<Longrightarrow> crossed alert t = Inr (crosses alert t)"
  by (cases "price t") (auto simp: crossed_def crosses_def)

lemma crossed_NaN: "price t = NaN \<Longrightarrow> symbol t = pa_symbol alert \<Longrightarrow> crossed alert t = Inl InvalidOperation"
  by (simp add: crossed_def)

lemma crossed_cases:
  "crossed alert t = Inr (crosses alert t) \<or>
   crossed alert t = Inl InvalidOperation \<and> price t = NaN \<and> symbol t = pa_symbol alert"
  using crossed_crosses [of t alert] crossed_NaN [of t alert] by blast

lemma NaN_not_crosses: "price t = NaN \<Longrightarrow> \<not> crosses alert t"
  by (simp add: crosses_def)

lemma first_crossing_find:
  "\<forall>t \<in> set ts. price t \<noteq> NaN \<Longrightarrow> first_crossing alert ts = Inr (List.find (crosses alert) ts)"
  by (induction ts) (simp_all add: crossed_crosses)

lemma first_crossing_raises:
  assumes "n \<in> set ts" "price n = NaN" "symbol n = pa_symbol alert"
    and "\<forall>t \<in> set ts. \<not> crosses alert t"
  shows "first_crossing alert ts = Inl InvalidOperation"
  using assms
proof (induction ts)
  case (Cons t ts)
  show ?case
  proof (cases "t = n")
    case True
    with Cons.prems show ?thesis by (simp add: crossed_NaN)
  next
    case False
    with Cons show ?thesis using crossed_cases [of alert t] by auto
  qed
qed simp

lemma first_crossing_append:
  "\<forall>t \<in> set ts. \<not> crosses alert t \<Longrightarrow> first_crossing alert (ts @ us) =
   rbind (first_crossing alert ts) (\<lambda>r. first_crossing alert us)"
proof (induction ts)
  case (Cons t ts)
  then show ?case using crossed_cases [of alert t] by auto
qed simp

lemma first_crossing_exn: "first_crossing alert ts = Inl e \<Longrightarrow> e = InvalidOperation"
proof (induction ts)
  case (Cons t ts)
  then show ?case using crossed_cases [of alert t] by (auto split: if_splits)
qed simp

lemma fire_loop_exn: "fire_loop alerts ts = Inl e \<Longrightarrow> e = InvalidOperation"
  by (induction alerts) (auto simp: rbind_eq_Inl dest: first_crossing_exn)

lemma fire_loop_raises:
  "alert \<in> set alerts \<Longrightarrow> first_crossing alert ts = Inl InvalidOperation \<Longrightarrow>
   fire_loop alerts ts = Inl InvalidOperation"
proof (induction alerts)
  case (Cons a alerts)
  show ?case
  proof (cases "first_crossing a ts")
    case (Inl e)
    then show ?thesis using first_crossing_exn by simp
  next
    case (Inr r)
    with Cons show ?thesis by auto
  qed
qed simp

text \<open>Whatever the prices, what fires was crossed.\<close>

lemma first_crossing_sound: "first_crossing p ts = Inr (Some t) \<Longrightarrow> t \<in> set ts \<and> crosses p t"
proof (induction ts)
  case (Cons u ts)
  then show ?case using crossed_cases [of p u] by (auto split: if_splits)
qed simp

lemma fire_loop_sound:
  "fire_loop ps ts = Inr fs \<Longrightarrow> f \<in> set fs \<Longrightarrow> \<exists>p \<in> set ps. \<exists>t \<in> set ts. f = fired_by p t \<and> crosses p t"
proof (induction ps arbitrary: fs)
  case (Cons p ps)
  then show ?case using first_crossing_sound [of p ts]
    by (fastforce simp: rbind_eq_Inr split: option.splits)
qed simp

text \<open>With no NaN price the loop is a map over the alerts that some trade crosses.\<close>

definition first_hit :: "trade list \<Rightarrow> pending_alert \<Rightarrow> fired option" where
  "first_hit ts alert = map_option (fired_by alert) (List.find (crosses alert) ts)"

lemma fire_loop_map_filter:
  "\<forall>t \<in> set ts. price t \<noteq> NaN \<Longrightarrow> fire_loop alerts ts = Inr (List.map_filter (first_hit ts) alerts)"
  by (induction alerts)
    (auto simp: first_crossing_find first_hit_def List.map_filter_simps split: option.splits)

lemma first_hit_None_iff: "first_hit ts alert = None \<longleftrightarrow> \<not> (\<exists>t \<in> set ts. crosses alert t)"
  by (auto simp: first_hit_def find_None_iff)

lemma first_hit_Some:
  assumes "first_hit ts alert = Some f" "sorted (map trade_ts ts)"
  shows "\<exists>t \<in> set ts. f = fired_by alert t \<and> crosses alert t \<and>
           (\<forall>u \<in> set ts. crosses alert u \<longrightarrow> trade_ts t \<le> trade_ts u)"
proof -
  from assms(1) obtain t where t: "List.find (crosses alert) ts = Some t" "f = fired_by alert t"
    by (auto simp: first_hit_def)
  from t(1) have "t \<in> set ts" "crosses alert t" by (auto simp: find_Some_split)
  moreover have "\<forall>u \<in> set ts. crosses alert u \<longrightarrow> trade_ts t \<le> trade_ts u"
    using find_Some_sorted [OF assms(2) t(1)] by blast
  ultimately show ?thesis using t(2) by blast
qed

lemma map_filter_ids:
  assumes "\<And>a f. g a = Some f \<Longrightarrow> h f = k a"
  shows "map h (List.map_filter g as) = map k (filter (\<lambda>a. g a \<noteq> None) as)"
  by (induction as) (auto simp: List.map_filter_simps assms split: option.splits)

lemma set_map_filter_iff: "f \<in> set (List.map_filter g as) \<longleftrightarrow> (\<exists>a \<in> set as. g a = Some f)"
  by (induction as) (auto simp: List.map_filter_simps split: option.splits)

lemma fired_by_id [simp]: "fi_alert_id (fired_by a t) = pa_alert_id a"
  by (simp add: fired_by_def)

lemma first_hit_id: "first_hit ts a = Some f \<Longrightarrow> fi_alert_id f = pa_alert_id a"
  by (auto simp: first_hit_def)

section \<open>Properties\<close>

text \<open>
  A batch without NaN prices sets off exactly the alerts that some trade of the batch
  crosses, once each and in the order of the alerts, and every firing carries the price and
  time of the earliest trade that crosses its alert, whatever order the trades arrived in.
\<close>

theorem find_triggered_correct:
  assumes "\<forall>t \<in> set trades. price t \<noteq> NaN"
  shows "\<exists>fs. find_triggered alerts trades = Inr fs \<and>
    map fi_alert_id fs =
      map pa_alert_id (filter (\<lambda>a. \<exists>t \<in> set trades. crosses a t) alerts) \<and>
    (\<forall>f \<in> set fs. \<exists>a \<in> set alerts. \<exists>t \<in> set trades. f = fired_by a t \<and> crosses a t \<and>
       (\<forall>u \<in> set trades. crosses a u \<longrightarrow> trade_ts t \<le> trade_ts u))"
proof -
  let ?ts = "sort_key trade_ts trades"
  let ?fs = "List.map_filter (first_hit ?ts) alerts"
  have "find_triggered alerts trades = Inr ?fs"
    using assms by (simp add: find_triggered_def fire_loop_map_filter)
  moreover have "map fi_alert_id ?fs =
      map pa_alert_id (filter (\<lambda>a. \<exists>t \<in> set trades. crosses a t) alerts)"
    by (subst map_filter_ids [where k = pa_alert_id])
      (simp_all add: first_hit_id first_hit_None_iff)
  moreover have "\<forall>f \<in> set ?fs. \<exists>a \<in> set alerts. \<exists>t \<in> set trades. f = fired_by a t \<and> crosses a t \<and>
       (\<forall>u \<in> set trades. crosses a u \<longrightarrow> trade_ts t \<le> trade_ts u)"
    using first_hit_Some [of ?ts] by (fastforce simp: set_map_filter_iff)
  ultimately show ?thesis by blast
qed

definition nvda_above_130 :: pending_alert where
  "nvda_above_130 =
     \<lparr> pa_alert_id = 7, pa_symbol = ''NVDA'', pa_direction = ''above'', pa_threshold = 130 \<rparr>"

definition nvda_trade :: "int \<Rightarrow> rat \<Rightarrow> trade" where
  "nvda_trade ts p =
     \<lparr> symbol = ''NVDA'', trade_ts = ts, price = Fin p, volume = Fin 1, conditions = [] \<rparr>"

lemmas alert_examples = nvda_above_130_def nvda_trade_def crosses_def ABOVE_def fired_by_def

text \<open>The first crossing by time is the 131 at time 20, although the 140 arrived first.\<close>

theorem find_triggered_correct_witness:
  "\<exists>fs. find_triggered [nvda_above_130] [nvda_trade 30 140, nvda_trade 20 131, nvda_trade 10 129] = Inr fs \<and>
     map fi_alert_id fs = [7] \<and> (\<forall>f \<in> set fs. fi_price f = Fin 131 \<and> fi_trade_ts f = 20)"
proof -
  let ?ts = "[nvda_trade 30 140, nvda_trade 20 131, nvda_trade 10 129]"
  have "\<forall>t \<in> set ?ts. price t \<noteq> NaN" by (simp add: nvda_trade_def)
  from find_triggered_correct [OF this, of "[nvda_above_130]"] show ?thesis
    by (auto simp: alert_examples)
qed

text \<open>
  One trade with a NaN price stops the whole matcher: if it comes before every trade that
  crosses an alert of its symbol, the comparison with the alert's decimal threshold raises,
  and no alert of any symbol fires for that batch.
\<close>

theorem nan_price_silences_batch:
  assumes "alert \<in> set alerts" "n \<in> set trades" "price n = NaN" "symbol n = pa_symbol alert"
    and "\<forall>t \<in> set trades. crosses alert t \<longrightarrow> trade_ts n < trade_ts t"
  shows "find_triggered alerts trades = Inl InvalidOperation"
proof -
  let ?ts = "sort_key trade_ts trades"
  have n: "n \<in> set ?ts" using assms(2) by simp
  obtain us vs where split: "?ts = us @ n # vs" using split_list [OF n] by blast
  moreover have "sorted (map trade_ts ?ts)" by simp
  ultimately have "\<forall>u \<in> set us. trade_ts u \<le> trade_ts n" by (auto simp: sorted_append)
  moreover have "set us \<subseteq> set trades" using split by (metis set_sort set_append Un_upper1)
  ultimately have "\<forall>u \<in> set us. \<not> crosses alert u" using assms(5) by fastforce
  moreover have "\<not> crosses alert n" using assms(3) by (rule NaN_not_crosses)
  ultimately have raise: "first_crossing alert (us @ [n]) = Inl InvalidOperation"
    using assms(3,4) by (intro first_crossing_raises [of n]) auto
  have "first_crossing alert ((us @ [n]) @ vs) = Inl InvalidOperation"
    using \<open>\<forall>u \<in> set us. \<not> crosses alert u\<close> \<open>\<not> crosses alert n\<close> raise
    by (subst first_crossing_append) auto
  then have "first_crossing alert ?ts = Inl InvalidOperation" by (simp add: split)
  with assms(1) show ?thesis unfolding find_triggered_def by (rule fire_loop_raises)
qed

theorem nan_price_silences_batch_witness:
  "find_triggered [nvda_above_130]
     [nvda_trade 20 131, (nvda_trade 10 1)\<lparr>price := NaN\<rparr>] = Inl InvalidOperation"
  by (rule nan_price_silences_batch [of nvda_above_130 _ "(nvda_trade 10 1)\<lparr>price := NaN\<rparr>"])
    (simp_all add: alert_examples)

text \<open>
  A trade at exactly the alert's price need not fire it. The feed's price is the double
  nearest to 100.1, which lies below the decimal 100.1 the alert stores, so an alert "above
  100.1" does not cross at a trade reported at 100.1.
\<close>

theorem exact_price_may_not_fire:
  "crossed \<lparr> pa_alert_id = n, pa_symbol = s, pa_direction = ABOVE, pa_threshold = 1001/10 \<rparr>
     \<lparr> symbol = s, trade_ts = ts, price = rnd (1001/10), volume = v, conditions = c \<rparr> = Inr False"
proof -
  have "rnd_fin (1001/10) = of_int (rhe (1001/10 / 2 powi (6 - 52))) * 2 powi (6 - 52)"
    by (rule rnd_fin_eval) simp_all
  also have "rhe (1001/10 / 2 powi (6 - 52)) = 7043911292184166"
    by (rule rhe_nearest) (simp_all add: power_int_def field_simps)
  also have "of_int 7043911292184166 * 2 powi (6 - 52) = (3521955646092083 / 35184372088832 :: rat)"
    by (simp add: power_int_def field_simps)
  finally have "rnd (1001/10) = Fin (3521955646092083 / 35184372088832)"
    by (simp add: rnd_def)
  then show ?thesis by (simp add: crossed_def)
qed

end
