(* ===== verification/SocketClient.thy ===== *)
theory SocketClient
  imports Tables PyText
begin

text \<open>
  The websocket side of the stream (stream/socket_client.py): Finnhub's JSON messages are
  parsed into trades, put on the queue one by one, and reported to the \<open>on_event\<close> callback.

  \<open>json.loads\<close> is an argument of the parser (its result on the raw message), so the theorems
  hold whatever it returns or raises; \<open>str(code)\<close> of a condition code that is not a string is
  an argument too. A JSON object is an association list without duplicate keys.
\<close>

section \<open>JSON values\<close>

datatype json =
    JNull
  | JBool bool
  | JInt int
  | JFloat pyfloat
  | JStr string
  | JArr "json list"
  | JObj "(string \<times> json) list"

text \<open>Python's truth value, used by \<open>x or default\<close>.\<close>

fun truthy :: "json \<Rightarrow> bool" where
  "truthy JNull = False"
| "truthy (JBool b) = b"
| "truthy (JInt n) = (n \<noteq> 0)"
| "truthy (JFloat x) = (x \<noteq> Fin 0)"
| "truthy (JStr s) = (s \<noteq> [])"
| "truthy (JArr xs) = (xs \<noteq> [])"
| "truthy (JObj kvs) = (kvs \<noteq> [])"

text \<open>\<open>item["s"]\<close> and \<open>item.get("v")\<close>.\<close>

fun json_index :: "json \<Rightarrow> string \<Rightarrow> json result" where
  "json_index (JObj kvs) k = (case map_of kvs k of Some v \<Rightarrow> Inr v | None \<Rightarrow> Inl KeyError)"
| "json_index _ k = Inl TypeError"

definition json_get :: "(string \<times> json) list \<Rightarrow> string \<Rightarrow> json" where
  "json_get kvs k = (case map_of kvs k of Some v \<Rightarrow> v | None \<Rightarrow> JNull)"

text \<open>What a \<open>for\<close> loop over the value yields.\<close>

fun json_iter :: "json \<Rightarrow> json list result" where
  "json_iter (JArr xs) = Inr xs"
| "json_iter (JStr s) = Inr (map (\<lambda>c. JStr [c]) s)"
| "json_iter (JObj kvs) = Inr (map (\<lambda>kv. JStr (fst kv)) kvs)"
| "json_iter _ = Inl TypeError"

definition iter_or_empty :: "json \<Rightarrow> json list result" where
  "iter_or_empty j = (if truthy j then json_iter j else Inr [])"

text \<open>\<open>float(value)\<close> and \<open>value / 1000\<close>.\<close>

fun json_float :: "json \<Rightarrow> pyfloat result" where
  "json_float (JInt n) = float_of_int n"
| "json_float (JBool b) = Inr (Fin (if b then 1 else 0))"
| "json_float (JFloat x) = Inr x"
| "json_float (JStr s) = float_of_str s"
| "json_float _ = Inl TypeError"

fun json_div_1000 :: "json \<Rightarrow> pyfloat result" where
  "json_div_1000 (JInt n) = (case rnd (of_int n / 1000) of Fin q \<Rightarrow> Inr (Fin q) | _ \<Rightarrow> Inl OverflowError)"
| "json_div_1000 (JBool b) = Inr (rnd ((if b then 1 else 0) / 1000))"
| "json_div_1000 (JFloat x) = Inr (fdiv_const x 1000)"
| "json_div_1000 _ = Inl TypeError"

text \<open>
  \<open>datetime.fromtimestamp(x, tz=UTC)\<close>: the whole seconds, and the fraction scaled to
  microseconds in floating point and rounded half to even.
\<close>

definition truncate :: "rat \<Rightarrow> int" where
  "truncate q = (if 0 \<le> q then \<lfloor>q\<rfloor> else \<lceil>q\<rceil>)"

fun fromtimestamp :: "pyfloat \<Rightarrow> int result" where
  "fromtimestamp (Fin q) =
     (let i = truncate q; us = i * 1000000 + rhe (rnd_fin ((q - of_int i) * 1000000))
      in if time_in_range us then Inr us else Inl ValueError)"
| "fromtimestamp NaN = Inl ValueError"
| "fromtimestamp _ = Inl OverflowError"

section \<open>Parsing\<close>

definition SUBSCRIBE :: string where "SUBSCRIBE = ''subscribe''"

definition TRADE :: string where "TRADE = ''trade''"

definition ERROR :: string where "ERROR = ''error''"

definition code_text :: "(json \<Rightarrow> string) \<Rightarrow> json \<Rightarrow> string" where
  "code_text str_of code = (case code of JStr s \<Rightarrow> s | _ \<Rightarrow> str_of code)"

text \<open>The body of \<open>parse_trade\<close>; the arguments of \<open>Trade\<close> are evaluated left to right.\<close>

definition read_trade :: "(json \<Rightarrow> string) \<Rightarrow> json \<Rightarrow> json gtrade result" where
  "read_trade str_of item =
     rbind (json_index item ''s'') (\<lambda>s.
     rbind (json_index item ''t'') (\<lambda>t.
     rbind (json_div_1000 t) (\<lambda>seconds.
     rbind (fromtimestamp seconds) (\<lambda>ts.
     rbind (json_index item ''p'') (\<lambda>p.
     rbind (json_float p) (\<lambda>pr.
     (case item of JObj kvs \<Rightarrow>
        (let v = json_get kvs ''v'' in
        rbind (json_float (if truthy v then v else JInt 0)) (\<lambda>vol.
        rbind (iter_or_empty (json_get kvs ''c'')) (\<lambda>codes.
          Inr \<lparr> symbol = s, trade_ts = ts, price = pr, volume = vol,
                conditions = join_with '','' (map (code_text str_of) codes) \<rparr>)))
      | _ \<Rightarrow> Inl AttributeError)))))))"

definition parse_trade_catches :: "exn \<Rightarrow> bool" where
  "parse_trade_catches e \<longleftrightarrow> e \<in> {KeyError, TypeError, ValueError, OSError, OverflowError}"

definition parse_trade :: "(json \<Rightarrow> string) \<Rightarrow> json \<Rightarrow> json gtrade option result" where
  "parse_trade str_of item = (case read_trade str_of item of
       Inr t \<Rightarrow> Inr (Some t)
     | Inl e \<Rightarrow> if parse_trade_catches e then Inr None else Inl e)"

definition parse_message ::
  "(json \<Rightarrow> string) \<Rightarrow> json result \<Rightarrow> (json \<times> json gtrade list) result" where
  "parse_message str_of loaded = (case loaded of
       Inl e \<Rightarrow> (if e = TypeError \<or> e = ValueError then Inr (JStr ERROR, []) else Inl e)
     | Inr (JObj message) \<Rightarrow>
         (let message_type = json_get message ''type'' in
          if message_type \<noteq> JStr TRADE then Inr (message_type, [])
          else rbind (iter_or_empty (json_get message ''data'')) (\<lambda>items.
               rbind (map_result (parse_trade str_of) items) (\<lambda>parsed.
                 Inr (JStr TRADE, List.map_filter id parsed))))
     | Inr _ \<Rightarrow> Inr (JStr ERROR, []))"

section \<open>The socket callbacks\<close>

datatype detail = DNone | DInt int | DStr string

text \<open>\<open>_on_open\<close> sends one subscription per symbol, then reports; the other callbacks only
  report. An event is the pair handed to \<open>on_event\<close>.\<close>

definition subscribe_message :: "string \<Rightarrow> json" where
  "subscribe_message s = JObj [(''type'', JStr SUBSCRIBE), (''symbol'', JStr s)]"

definition on_open :: "string list \<Rightarrow> json list \<times> (json \<times> detail)" where
  "on_open symbols = (map subscribe_message symbols, (JStr ''open'', DNone))"

definition on_message ::
  "(json \<Rightarrow> string) \<Rightarrow> json result \<Rightarrow> json gtrade list \<Rightarrow>
     (json gtrade list \<times> (json \<times> detail)) result" where
  "on_message str_of loaded q =
     rbind (parse_message str_of loaded) (\<lambda>(message_type, trades).
       Inr (foldl (\<lambda>q t. q @ [t]) q trades, (message_type, DInt (int (length trades)))))"

definition on_error :: "string \<Rightarrow> string \<Rightarrow> json \<times> detail" where
  "on_error type_name err = (JStr ''failed'', DStr (type_name @ '': '' @ err))"

definition on_close :: "int option \<Rightarrow> json \<times> detail" where
  "on_close status_code =
     (JStr ''closed'', case status_code of None \<Rightarrow> DNone | Some n \<Rightarrow> DInt n)"

section \<open>Lemmas\<close>

lemma json_index_exn: "json_index j k = Inl e \<Longrightarrow> parse_trade_catches e"
  by (cases j) (auto simp: parse_trade_catches_def split: option.splits)

lemma scan_exponent_exn: "scan_exponent t = Inl e \<Longrightarrow> e = ValueError"
  by (auto simp: scan_exponent_def Let_def split: list.splits if_splits prod.splits)

lemma scan_decimal_exn: "scan_decimal t = Inl e \<Longrightarrow> e = ValueError"
  by (auto simp: scan_decimal_def Let_def rbind_eq_Inl dest: scan_exponent_exn
      split: list.splits if_splits prod.splits)

lemma float_of_str_exn: "float_of_str s = Inl e \<Longrightarrow> e = ValueError"
  by (auto simp: float_of_str_def Let_def rbind_eq_Inl dest: scan_decimal_exn
      split: if_splits prod.splits)

lemma json_float_exn: "json_float j = Inl e \<Longrightarrow> parse_trade_catches e"
  by (cases j) (auto simp: parse_trade_catches_def float_of_int_def dest: float_of_str_exn
      split: pyfloat.splits)

lemma json_div_exn: "json_div_1000 j = Inl e \<Longrightarrow> parse_trade_catches e"
  by (cases j) (auto simp: parse_trade_catches_def split: pyfloat.splits)

lemma fromtimestamp_exn: "fromtimestamp x = Inl e \<Longrightarrow> parse_trade_catches e"
  by (cases x) (auto simp: parse_trade_catches_def Let_def split: if_splits)

lemma iter_or_empty_exn: "iter_or_empty j = Inl e \<Longrightarrow> parse_trade_catches e"
  by (cases j) (auto simp: iter_or_empty_def parse_trade_catches_def split: if_splits)

lemma read_trade_exn:
  assumes "read_trade str_of item = Inl e"
  shows "parse_trade_catches e"
proof (cases item)
  case (JObj kvs)
  with assms show ?thesis
    by (auto simp: read_trade_def rbind_eq_Inl Let_def simp del: json_index.simps split del: if_split
        dest: json_index_exn json_div_exn fromtimestamp_exn json_float_exn iter_or_empty_exn)
qed (use assms in \<open>auto simp: read_trade_def parse_trade_catches_def\<close>)

lemma parse_trade_total: "\<exists>r. parse_trade str_of item = Inr r"
  using read_trade_exn [of str_of item] by (auto simp: parse_trade_def split: sum.splits)

definition parsed_trade :: "(json \<Rightarrow> string) \<Rightarrow> json \<Rightarrow> json gtrade option" where
  "parsed_trade str_of item = (case read_trade str_of item of Inr t \<Rightarrow> Some t | Inl _ \<Rightarrow> None)"

lemma parse_trade_parsed: "parse_trade str_of item = Inr (parsed_trade str_of item)"
  using read_trade_exn [of str_of item]
  by (auto simp: parse_trade_def parsed_trade_def split: sum.splits)

lemma parse_items:
  "map_result (parse_trade str_of) items = Inr (map (parsed_trade str_of) items)"
  by (rule map_result_all_ok) (rule parse_trade_parsed)

lemma map_filter_id_map: "List.map_filter id (map f xs) = List.map_filter f xs"
  by (induction xs) (simp_all add: List.map_filter_simps split: option.split)

text \<open>The floats \<open>json.loads\<close> can produce.\<close>

fun json_floats_ok :: "json \<Rightarrow> bool" where
  "json_floats_ok (JFloat x) = float_ok x"
| "json_floats_ok (JArr xs) = list_all json_floats_ok xs"
| "json_floats_ok (JObj kvs) = list_all (\<lambda>kv. json_floats_ok (snd kv)) kvs"
| "json_floats_ok _ = True"

lemma json_float_ok: "json_float j = Inr x \<Longrightarrow> json_floats_ok j \<Longrightarrow> float_ok x"
  by (cases j) (auto simp: float_of_int_def float_of_str_def Let_def rbind_eq_Inr
      split: pyfloat.splits if_splits prod.splits dest: rnd_is_double)

lemma json_index_ok: "json_index j k = Inr v \<Longrightarrow> json_floats_ok j \<Longrightarrow> json_floats_ok v"
  by (cases j) (auto simp: list_all_iff split: option.splits dest!: map_of_SomeD)

lemma json_get_ok: "json_floats_ok (JObj kvs) \<Longrightarrow> json_floats_ok (json_get kvs k)"
  by (auto simp: json_get_def list_all_iff split: option.splits dest!: map_of_SomeD)

lemma fromtimestamp_range: "fromtimestamp x = Inr ts \<Longrightarrow> time_in_range ts"
  by (cases x) (auto simp: Let_def split: if_splits)

lemma read_trade_ok:
  assumes "read_trade str_of item = Inr t" "json_floats_ok item"
  shows "trade_ok t"
proof (cases item)
  case (JObj kvs)
  from assms(1) JObj obtain v c s tj sec ts p pr vol codes where
    "json_index item ''p'' = Inr p" "json_float p = Inr pr" "fromtimestamp sec = Inr ts"
    "v = json_get kvs ''v''" "json_float (if truthy v then v else JInt 0) = Inr vol"
    and t: "t = \<lparr> symbol = s, trade_ts = ts, price = pr, volume = vol,
        conditions = join_with '','' (map (code_text str_of) codes) \<rparr>"
    by (auto simp: read_trade_def rbind_eq_Inr Let_def simp del: json_index.simps split del: if_split)
  moreover have "json_floats_ok p" using json_index_ok assms(2) calculation(1) by blast
  moreover have "json_floats_ok (if truthy v then v else JInt 0)"
    using json_get_ok assms(2) JObj calculation(4) by auto
  ultimately show ?thesis
    using json_float_ok fromtimestamp_range by (simp add: trade_ok_def)
qed (use assms in \<open>auto simp: read_trade_def\<close>)

section \<open>Times\<close>

text \<open>A millisecond count below 2^32 seconds survives the trip through binary floating point.\<close>

lemma truncate_between: "0 \<le> n \<Longrightarrow> of_int n \<le> q \<Longrightarrow> q < of_int n + 1 \<Longrightarrow> truncate q = n"
  by (auto simp: truncate_def floor_unique)

lemma abs_close: "\<bar>x - y\<bar> \<le> d \<Longrightarrow> 0 \<le> y \<Longrightarrow> y \<le> m \<Longrightarrow> \<bar>x\<bar> \<le> m + (d :: rat)"
  unfolding abs_le_iff by linarith

lemma fromtimestamp_ms:
  assumes "0 \<le> ms" "ms < 2 ^ 32 * 1000"
  shows "json_div_1000 (JInt ms) = Inr (Fin (rnd_fin (of_int ms / 1000)))"
    and "fromtimestamp (Fin (rnd_fin (of_int ms / 1000))) = Inr (ms * 1000)"
proof -
  let ?x = "of_int ms / 1000 :: rat"
  let ?q = "rnd_fin ?x"
  have x: "0 \<le> ?x" "?x < 2 powi 32" using assms by (simp_all add: field_simps flip: of_int_less_iff)
  have q0: "0 \<le> ?q" using x(1) by (rule rnd_fin_nonneg)
  have close: "\<bar>?q - ?x\<bar> \<le> 1 / 4194304"
  proof (cases "?x = 0")
    case False
    with x rnd_fin_close [of ?x 32] have "\<bar>?q - ?x\<bar> \<le> 2 powi (32 - 53) / 2" by simp
    also have "\<dots> = 1 / 4194304" by (simp add: power_int_def power_divide)
    finally show ?thesis .
  qed simp
  have "?x < 4294967296" using x(2) by (simp add: power_int_def)
  with close have "?q < 8589934592" by (simp only: abs_le_iff) linarith
  then have "?q < 2 ^ 33" by simp
  then have lt: "?q < 2 ^ 1024" by (rule less_le_trans) simp
  with q0 show "json_div_1000 (JInt ms) = Inr (Fin ?q)" by (simp add: rnd_def)
  define a where "a = ms div 1000"
  define b where "b = ms mod 1000"
  have ms: "ms = a * 1000 + b" and b: "0 \<le> b" "b < 1000" and a0: "0 \<le> a"
    using assms by (auto simp: a_def b_def)
  have xab: "?x = of_int a + of_int b / 1000" by (simp add: ms field_simps)
  have i: "truncate ?q = a"
  proof (cases "b = 0")
    case True
    then have "?x = of_int a" using xab by simp
    moreover have "\<bar>a\<bar> \<le> 2 ^ 53" using a0 assms by (simp add: a_def)
    then have "is_double (of_int a)" by (rule is_double_int)
    ultimately have "?q = of_int a"
      by (auto simp: is_double_def rnd_def Let_def split: if_splits)
    then show ?thesis using a0 by (intro truncate_between) auto
  next
    case False
    then have ob: "1 \<le> (of_int b :: rat)" "(of_int b :: rat) \<le> 999" using b by linarith+
    have q: "?x - 1 / 4194304 \<le> ?q" "?q \<le> ?x + 1 / 4194304"
      using close unfolding abs_le_iff by linarith+
    show ?thesis
      by (rule truncate_between [OF a0]) (use ob q xab in linarith)+
  qed
  let ?f = "(?q - of_int a) * 1000000"
  have f: "\<bar>?f - of_int (b * 1000)\<bar> \<le> 1/4"
  proof -
    have "?f - of_int (b * 1000) = (?q - ?x) * 1000000" unfolding xab by (simp add: algebra_simps)
    then have "\<bar>?f - of_int (b * 1000)\<bar> = \<bar>(?q - ?x) * 1000000\<bar>" by (simp only:)
    also have "\<dots> = \<bar>?q - ?x\<bar> * 1000000" by (simp only: abs_mult abs_numeral)
    also have "\<dots> \<le> 1 / 4194304 * 1000000" using close by (rule mult_right_mono) simp
    also have "\<dots> \<le> 1/4" by simp
    finally show ?thesis .
  qed
  have bound: "\<bar>?f\<bar> < 2 powi 20" 
  proof -
    have "0 \<le> b * 1000" "b * 1000 \<le> 999000" using b by simp_all
    then have "(0::rat) \<le> of_int (b * 1000)" "of_int (b * 1000) \<le> (of_int 999000 :: rat)"
      by (simp_all only: of_int_le_iff of_int_0_le_iff)
    then have "(0::rat) \<le> of_int (b * 1000)" "of_int (b * 1000) \<le> (999000 :: rat)"
      by simp_all
    then have "\<bar>?f\<bar> \<le> 999000 + 1/4" by (rule abs_close [OF f])
    also have "\<dots> < 2 powi 20" by (simp add: power_int_def)
    finally show ?thesis .
  qed
  have "\<bar>rnd_fin ?f - ?f\<bar> \<le> 1/8"
  proof -
    consider "0 < ?f" | "?f = 0" | "0 < - ?f" by linarith
    then show ?thesis
    proof cases
      case 1
      have "\<bar>rnd_fin ?f - ?f\<bar> \<le> 2 powi (20 - 53) / 2"
        using 1 bound by (intro rnd_fin_close) auto
      also have "\<dots> \<le> 1/8" by (simp add: power_int_def power_divide)
      finally show ?thesis .
    next
      case 2
      then show ?thesis by simp
    next
      case 3
      have "\<bar>rnd_fin (- ?f) - (- ?f)\<bar> \<le> 2 powi (20 - 53) / 2"
        using 3 bound by (intro rnd_fin_close) auto
      also have "\<dots> \<le> 1/8" by (simp add: power_int_def power_divide)
      finally show ?thesis by (simp only: rnd_fin_minus abs_minus_commute) 
    qed
  qed
  with f have "\<bar>rnd_fin ?f - of_int (b * 1000)\<bar> < 1/2" by linarith
  then have r: "rhe (rnd_fin ?f) = b * 1000" by (rule rhe_near)
  have "time_in_range (ms * 1000)" using assms by (simp add: time_in_range_def)
  moreover have "a * 1000000 + b * 1000 = ms * 1000" by (simp add: ms)
  ultimately show "fromtimestamp (Fin ?q) = Inr (ms * 1000)"
    by (simp only: fromtimestamp.simps Let_def i r if_True)
qed

section \<open>Properties\<close>

definition iterable :: "json \<Rightarrow> bool" where
  "iterable j = (case j of JArr _ \<Rightarrow> True | JStr _ \<Rightarrow> True | JObj _ \<Rightarrow> True | _ \<Rightarrow> False)"

lemma iter_or_empty_Inl_iff:
  "iter_or_empty j = Inl e \<longleftrightarrow> e = TypeError \<and> truthy j \<and> \<not> iterable j"
  by (cases j) (auto simp: iter_or_empty_def iterable_def)

lemma parse_message_dict:
  "parse_message str_of (Inr (JObj m)) =
     (if json_get m ''type'' = JStr TRADE
      then rbind (iter_or_empty (json_get m ''data'')) (\<lambda>items.
             Inr (JStr TRADE, List.map_filter (parsed_trade str_of) items))
      else Inr (json_get m ''type'', []))"
  by (simp add: parse_message_def parse_items map_filter_id_map Let_def)

text \<open>
  C35: The exact cases in which \<open>parse_message\<close> raises: the JSON decoder raised something
  other than \<open>TypeError\<close> or \<open>ValueError\<close> (a nesting too deep for it, for example), or a
  message of type "trade" carries as its data a true scalar, which cannot be iterated. In
  every other case, malformed text, other JSON values and unusable items included, it returns
  a pair.
\<close>

theorem parse_message_raises_iff:
  "parse_message str_of loaded = Inl e \<longleftrightarrow>
     loaded = Inl e \<and> e \<notin> {TypeError, ValueError} \<or>
     e = TypeError \<and> (\<exists>m. loaded = Inr (JObj m) \<and> json_get m ''type'' = JStr TRADE \<and>
        truthy (json_get m ''data'') \<and> \<not> iterable (json_get m ''data''))"
proof (cases loaded)
  case (Inl x)
  then show ?thesis by (auto simp: parse_message_def)
next
  case (Inr j)
  show ?thesis
  proof (cases j)
    case (JObj m)
    then show ?thesis
      using Inr by (auto simp: parse_message_dict rbind_eq_Inl iter_or_empty_Inl_iff)
  qed (auto simp: Inr parse_message_def)
qed

text \<open>The decoded message \<open>{"type": "trade", "data": 5}\<close> is one of these cases.\<close>

theorem parse_message_raises_iff_witness:
  "parse_message (\<lambda>_. []) (Inr (JObj [(''type'', JStr TRADE), (''data'', JInt 5)])) = Inl TypeError"
  by (subst parse_message_raises_iff) (simp add: json_get_def iterable_def)

text \<open>
  A trade message with a list of items appends to the queue, in the order of the items,
  exactly the trades of the usable items (the unusable ones are dropped, never raised), and
  reports their number; every trade it appends has float values a double can hold and a time
  within the range of \<open>datetime\<close>.
\<close>

theorem on_message_enqueues:
  assumes "json_get m ''type'' = JStr TRADE" "json_get m ''data'' = JArr items"
    and "json_floats_ok (JObj m)"
  shows "on_message str_of (Inr (JObj m)) q =
      Inr (q @ List.map_filter (parsed_trade str_of) items,
           (JStr TRADE, DInt (int (length (List.map_filter (parsed_trade str_of) items))))) \<and>
    (\<forall>t \<in> set (List.map_filter (parsed_trade str_of) items). trade_ok t)"
proof
  have app: "foldl (\<lambda>q t. q @ [t]) q ts = q @ ts" for ts :: "json gtrade list"
    by (induction ts arbitrary: q) auto
  have "iter_or_empty (JArr items) = Inr items" by (cases items) (auto simp: iter_or_empty_def)
  with assms show "on_message str_of (Inr (JObj m)) q =
      Inr (q @ List.map_filter (parsed_trade str_of) items,
           (JStr TRADE, DInt (int (length (List.map_filter (parsed_trade str_of) items)))))"
    by (simp add: on_message_def parse_message_dict app)
  have "list_all json_floats_ok items"
    using json_get_ok [OF assms(3), of "''data''"] assms(2) by simp
  then show "\<forall>t \<in> set (List.map_filter (parsed_trade str_of) items). trade_ok t"
    by (induction items)
      (auto simp: List.map_filter_simps parsed_trade_def read_trade_ok split: sum.splits)
qed

text \<open>A JSON number and the double it is: a float, or an integer that a double holds.\<close>

definition json_number :: "json \<Rightarrow> pyfloat \<Rightarrow> bool" where
  "json_number j x = (case j of JFloat y \<Rightarrow> x = y | JInt n \<Rightarrow> \<bar>n\<bar> \<le> 2 ^ 53 \<and> x = Fin (of_int n) | _ \<Rightarrow> False)"

lemma float_of_small_int: "\<bar>n\<bar> \<le> 2 ^ 53 \<Longrightarrow> float_of_int n = Inr (Fin (of_int n))"
  using is_double_int [of n] by (simp add: float_of_int_def rnd_double)

lemma json_number_float: "json_number j x \<Longrightarrow> json_float j = Inr x"
  by (cases j) (auto simp: json_number_def float_of_small_int)

lemma json_number_volume:
  assumes "j = JNull \<and> x = Fin 0 \<or> json_number j x"
  shows "json_float (if truthy j then j else JInt 0) = Inr x"
proof (cases "truthy j")
  case True
  with assms json_number_float show ?thesis by auto
next
  case False
  with assms have "x = Fin 0" by (cases j) (auto simp: json_number_def)
  with False float_of_small_int [of 0] show ?thesis by simp
qed

text \<open>
  C33: Every item shaped as Finnhub documents it (a symbol, an integer millisecond time below 2^32
  seconds, a price, an optional volume and optional string condition codes) is usable: the
  parsed trade has exactly that instant, although the code divides the milliseconds in
  floating point, the price and volume unchanged, 0 for a missing volume, and the codes joined
  with commas. Prices and volumes may be floats or integers up to 2^53, zero included. The symbol is passed on as it is, a string or not.
\<close>

theorem finnhub_item_parsed:
  assumes "map_of kvs ''s'' = Some s" "map_of kvs ''t'' = Some (JInt ms)"
    and "0 \<le> ms" "ms < 2 ^ 32 * 1000" "map_of kvs ''p'' = Some pj" "json_number pj p"
    and "json_get kvs ''v'' = JNull \<and> v = Fin 0 \<or> json_number (json_get kvs ''v'') v"
    and "json_get kvs ''c'' \<in> {JNull, JArr (map JStr codes)}"
  shows "parse_trade str_of (JObj kvs) = Inr (Some
     \<lparr> symbol = s, trade_ts = ms * 1000, price = p, volume = v,
       conditions = (if json_get kvs ''c'' = JNull then [] else join_with '','' codes) \<rparr>)"
proof -
  note num = json_number_float [OF assms(6)] json_number_volume [OF assms(7)]
  have codes: "iter_or_empty (json_get kvs ''c'') =
      Inr (if json_get kvs ''c'' = JNull then [] else map JStr codes)"
    using assms(8) by (cases codes) (auto simp: iter_or_empty_def)
  have "map (code_text str_of) (map JStr codes) = codes" by (simp add: code_text_def comp_def)
  then show ?thesis
    using assms(1,2,5) fromtimestamp_ms [OF assms(3,4)] num codes
    by (simp add: parse_trade_def read_trade_def Let_def del: fromtimestamp.simps json_div_1000.simps
        if_split)
qed

theorem finnhub_item_parsed_witness:
  "parse_trade (\<lambda>_. []) (JObj [(''s'', JInt 5), (''t'', JInt 1700000000123), (''p'', JFloat (Fin 100)),
     (''v'', JInt 10), (''c'', JArr [JStr ''1'', JStr ''12''])]) = Inr (Some
     \<lparr> symbol = JInt 5, trade_ts = 1700000000123000, price = Fin 100, volume = Fin 10,
       conditions = ''1,12'' \<rparr>)"
  by (subst finnhub_item_parsed [where s = "JInt 5" and ms = 1700000000123 and pj = "JFloat (Fin 100)" and p = "Fin 100"
        and v = "Fin 10" and codes = "[''1'', ''12'']"])
    (simp_all add: json_get_def json_number_def)

theorem on_message_enqueues_witness:
  "on_message (\<lambda>_. []) (Inr (JObj [(''type'', JStr TRADE),
       (''data'', JArr [JObj [], JNull])])) [] = Inr ([], (JStr TRADE, DInt 0))"
proof -
  let ?m = "[(''type'', JStr TRADE), (''data'', JArr [JObj [], JNull])]"
  have "json_get ?m ''type'' = JStr TRADE" "json_get ?m ''data'' = JArr [JObj [], JNull]"
    "json_floats_ok (JObj ?m)" by (simp_all add: json_get_def)
  from on_message_enqueues [OF this, of "\<lambda>_. []" "[]"] show ?thesis
    by (simp add: List.map_filter_simps parsed_trade_def read_trade_def)
qed

end
