(* ===== verification/PyEnv.thy ===== *)
theory PyEnv
  imports PyFloatText
begin

text \<open>
  The environment a service is configured from: \<open>os.environ\<close> as a partial map, and the
  \<open>_read_number\<close>, \<open>_read_required\<close> helpers the three configuration modules share. A
  \<open>ConfigError\<close> carries the start of its message (the quoted value is left out).
\<close>

type_synonym env = "string \<Rightarrow> string option"

definition env_get :: "env \<Rightarrow> string \<Rightarrow> string \<Rightarrow> string" where
  "env_get e name dflt = (case e name of Some v \<Rightarrow> v | None \<Rightarrow> dflt)"

text \<open>Python converts no more than 4300 digits between \<open>int\<close> and \<open>str\<close>
  (\<open>sys.set_int_max_str_digits\<close>; the services run on Python 3.11), in either direction: more is a
  \<open>ValueError\<close>.\<close>

definition MAX_STR_DIGITS :: nat where
  "MAX_STR_DIGITS = 4300"

definition int_setting :: "string \<Rightarrow> int result" where
  "int_setting text = rbind (int_of_str text) (\<lambda>n.
     if MAX_STR_DIGITS < length (filter is_digit text) then Inl ValueError else Inr n)"

definition unprintable :: "int \<Rightarrow> bool" where
  "unprintable n \<longleftrightarrow> 10 ^ MAX_STR_DIGITS \<le> \<bar>n\<bar>"

text \<open>\<open>env.get(name) or DEFAULTS[name]\<close>: an empty value counts as unset.\<close>

definition env_or :: "(string \<times> string) list \<Rightarrow> env \<Rightarrow> string \<Rightarrow> string result" where
  "env_or defaults e name = (let v = env_get e name [] in
     if v \<noteq> [] then Inr v
     else (case map_of defaults name of Some d \<Rightarrow> Inr d | None \<Rightarrow> Inl KeyError))"

definition read_number ::
  "(string \<times> string) list \<Rightarrow> env \<Rightarrow> string \<Rightarrow> (string \<Rightarrow> 'a result) \<Rightarrow> 'a result" where
  "read_number defaults e name parse =
     rbind (env_or defaults e name) (\<lambda>raw. case parse raw of
       Inr x \<Rightarrow> Inr x
     | Inl err \<Rightarrow> if err = TypeError \<or> err = ValueError
         then Inl (ConfigError (name @ '' must be a number'')) else Inl err)"

definition read_required :: "env \<Rightarrow> string \<Rightarrow> string \<Rightarrow> string result" where
  "read_required e name hint = (let v = strip (env_get e name []) in
     if v = [] then Inl (ConfigError (name @ '' is not set. '' @ hint)) else Inr v)"

text \<open>A check that raises when its condition holds.\<close>

definition reject :: "bool \<Rightarrow> string \<Rightarrow> unit result" where
  "reject bad message = (if bad then Inl (ConfigError message) else Inr ())"

lemma reject_Inr [simp]: "reject bad m = Inr u \<longleftrightarrow> \<not> bad"
  by (simp add: reject_def)

lemma reject_False [simp]: "reject False m = Inr ()"
  by (simp add: reject_def)

lemma env_or_unset: "e name = None \<Longrightarrow> map_of defaults name = Some d \<Longrightarrow> env_or defaults e name = Inr d"
  by (simp add: env_or_def env_get_def)

lemma env_or_set: "e name = Some v \<Longrightarrow> v \<noteq> [] \<Longrightarrow> env_or defaults e name = Inr v"
  by (simp add: env_or_def env_get_def)

lemma read_number_value:
  "env_or defaults e name = Inr raw \<Longrightarrow> parse raw = Inr x \<Longrightarrow> read_number defaults e name parse = Inr x"
  by (simp add: read_number_def)

lemma read_number_Inr: "read_number defaults e name parse = Inr x \<Longrightarrow> \<exists>raw. parse raw = Inr x"
proof -
  assume "read_number defaults e name parse = Inr x"
  then obtain raw where "(case parse raw of Inr x \<Rightarrow> Inr x
      | Inl err \<Rightarrow> if err = TypeError \<or> err = ValueError
         then Inl (ConfigError (name @ '' must be a number'')) else Inl err) = Inr x"
    unfolding read_number_def rbind_eq_Inr by blast
  then show ?thesis by (cases "parse raw") (auto split: if_splits)
qed

lemma float_of_str_ok: "float_of_str text = Inr x \<Longrightarrow> float_ok x"
  by (auto simp: float_of_str_def Let_def rbind_eq_Inr split: prod.splits if_splits)

lemma read_required_Inr: "read_required e name hint = Inr v \<Longrightarrow> v \<noteq> [] \<and> strip v = v"
  by (auto simp: read_required_def Let_def split: if_splits)

text \<open>Texts of plain digits.\<close>

lemma scan_digits_only: "all_digits ds \<Longrightarrow> ds \<noteq> [] \<Longrightarrow> scan_decimal ds = Inr (of_int (digits_value ds))"
  using scan_all_digits [of ds "[]"] by (simp add: scan_decimal_def scan_exponent_def)

lemma plain_digits: "all_digits ds \<Longrightarrow> ds \<noteq> [] \<Longrightarrow> plain_number ds"
  by (simp add: plain_number_def all_digits_def)

lemma float_of_digits: "all_digits ds \<Longrightarrow> ds \<noteq> [] \<Longrightarrow> float_of_str ds = Inr (rnd (of_int (digits_value ds)))"
  by (rule float_of_plain(1) [OF plain_digits scan_digits_only])

lemma int_of_digits:
  assumes "all_digits ds" "ds \<noteq> []"
  shows "int_of_str ds = Inr (digits_value ds)"
proof -
  have "\<not> is_space (hd ds)" "\<not> is_space (last ds)" "is_digit (hd ds)"
    using assms digit_not_space by (auto simp: all_digits_def)
  moreover from this assms(2) have "strip ds = ds" by (intro strip_id) auto
  moreover have "scan_sign ds = (1, ds)"
    using \<open>is_digit (hd ds)\<close> assms(2) scan_sign_digit by (cases ds) auto
  moreover have "scan_digits ds = (ds, [])" using scan_all_digits [OF assms(1), of "[]"] by simp
  ultimately show ?thesis using assms(2) by (simp add: int_of_str_def)
qed

lemma int_setting_digits:
  assumes "all_digits ds" "ds \<noteq> []" "length ds \<le> MAX_STR_DIGITS"
  shows "int_setting ds = Inr (digits_value ds)"
proof -
  have "filter is_digit ds = ds" using assms(1) by (auto simp: all_digits_def filter_id_conv)
  with assms show ?thesis by (simp add: int_setting_def int_of_digits)
qed

lemmas text_eval = all_digits_simps(1,2) is_digit_def char_code_def digits_value_def digit_value_def Let_def

end
