(* ===== verification/StreamWriter.thy ===== *)
theory StreamWriter
  imports LivePrices Alerts SocketClient PyEnv
begin

text \<open>
  What the stream writes to and reads from the destination database (stream/writer.py and
  stream/db.py), as functions on the tables that return or raise; the caller wraps them in a
  transaction. \<open>now()\<close> of a statement is an argument.
\<close>

section \<open>Inserting trades\<close>

definition raw_row :: "int \<Rightarrow> nat \<Rightarrow> trade \<Rightarrow> raw_trade_row" where
  "raw_row now i t = \<lparr> rt_id = i, rt_symbol = symbol t, rt_ts = trade_ts t, rt_price = price t,
     rt_volume = Some (volume t), rt_conditions = Some (conditions t), rt_received_at = now \<rparr>"

definition trade_error :: "trade \<Rightarrow> exn option" where
  "trade_error t = first_error
     [text_error (symbol t), numeric_error (price t), numeric_error (volume t), text_error (conditions t)]"

definition insert_trade :: "int \<Rightarrow> trade \<Rightarrow> pg \<Rightarrow> pg" where
  "insert_trade now t db = db\<lparr> raw_trades := raw_trades db @ [raw_row now (next_trade_id db) t],
     next_trade_id := Suc (next_trade_id db) \<rparr>"

text \<open>\<open>executemany\<close> runs the statement row by row and stops at the first that fails.\<close>

fun insert_rows :: "int \<Rightarrow> trade list \<Rightarrow> pg \<Rightarrow> pg result" where
  "insert_rows now [] db = Inr db"
| "insert_rows now (t # ts) db = (case trade_error t of
       Some e \<Rightarrow> Inl e
     | None \<Rightarrow> insert_rows now ts (insert_trade now t db))"

definition insert_trades :: "int \<Rightarrow> trade list \<Rightarrow> pg \<Rightarrow> (int \<times> pg) result" where
  "insert_trades now trades db =
     (if trades = [] then Inr (0, db)
      else rbind (insert_rows now trades db) (\<lambda>db'. Inr (int (length trades), db')))"

section \<open>Sessions\<close>

definition session_row_new :: "int \<Rightarrow> nat \<Rightarrow> string list \<Rightarrow> nat \<Rightarrow> session_row" where
  "session_row_new now i symbols reconnects = \<lparr> ss_id = i, ss_connected_at = now,
     ss_disconnected_at = None, ss_symbols = join_with '','' symbols, ss_trades_received = 0,
     ss_rows_written = 0, ss_last_message_at = None, ss_last_trade_at = None,
     ss_reconnects = reconnects, ss_market_open = None, ss_market_session = None,
     ss_status = ''live'', ss_error_message = None \<rparr>"

definition start_session :: "int \<Rightarrow> string list \<Rightarrow> nat \<Rightarrow> pg \<Rightarrow> (nat \<times> pg) result" where
  "start_session now symbols reconnects db =
     (case text_error (join_with '','' symbols) of
        Some e \<Rightarrow> Inl e
      | None \<Rightarrow> Inr (next_session_id db,
          db\<lparr> stream_sessions := stream_sessions db @
                 [session_row_new now (next_session_id db) symbols reconnects],
              next_session_id := Suc (next_session_id db) \<rparr>))"

record beat =
  hb_trades :: int
  hb_rows :: int
  hb_last_message_at :: "int option"
  hb_last_trade_at :: "int option"
  hb_market_open :: "bool option"
  hb_market_session :: json

text \<open>The session string comes from Finnhub's JSON unchecked. A string or a null can be stored;
  any other value makes \<open>COALESCE(value, market_session)\<close> a type error in the database or
  cannot be adapted by the driver.\<close>

definition session_text :: "json \<Rightarrow> string option result" where
  "session_text j = (case j of
       JNull \<Rightarrow> Inr None
     | JStr s \<Rightarrow> (case text_error s of Some e \<Rightarrow> Inl e | None \<Rightarrow> Inr (Some s))
     | _ \<Rightarrow> Inl (DbError ''COALESCE types cannot be matched''))"

definition beat_row :: "beat \<times> string option \<Rightarrow> session_row \<Rightarrow> session_row" where
  "beat_row p r = (let (b, sess) = p in r\<lparr>
     ss_trades_received := ss_trades_received r + hb_trades b,
     ss_rows_written := ss_rows_written r + hb_rows b,
     ss_last_message_at := greatest (ss_last_message_at r) (hb_last_message_at b),
     ss_last_trade_at := greatest (ss_last_trade_at r) (hb_last_trade_at b),
     ss_market_open := coalesce (hb_market_open b) (ss_market_open r),
     ss_market_session := coalesce sess (ss_market_session r) \<rparr>)"

definition heartbeat :: "nat \<Rightarrow> beat \<Rightarrow> pg \<Rightarrow> (unit \<times> pg) result" where
  "heartbeat session_id b db = rbind (session_text (hb_market_session b)) (\<lambda>sess.
     Inr ((), db\<lparr> stream_sessions :=
       update_where (\<lambda>r. ss_id r = session_id) (beat_row (b, sess)) (stream_sessions db) \<rparr>))"

definition finish_row :: "int \<times> string \<times> string option \<Rightarrow> session_row \<Rightarrow> session_row" where
  "finish_row p r = (let (now, status, error_message) = p in r\<lparr>
     ss_disconnected_at := Some now, ss_status := status, ss_error_message := error_message \<rparr>)"

definition finish_session :: "int \<Rightarrow> nat \<Rightarrow> string \<Rightarrow> string option \<Rightarrow> pg \<Rightarrow> (unit \<times> pg) result" where
  "finish_session now session_id status error_message db =
     (case first_error [text_error status, Option.bind error_message text_error] of
        Some e \<Rightarrow> Inl e
      | None \<Rightarrow> Inr ((), db\<lparr> stream_sessions :=
          update_where (\<lambda>r. ss_id r = session_id) (finish_row (now, status, error_message))
            (stream_sessions db) \<rparr>))"

section \<open>Alerts\<close>

definition pending_of :: "alert_row \<Rightarrow> pending_alert" where
  "pending_of a = \<lparr> pa_alert_id = al_id a, pa_symbol = al_symbol a,
     pa_direction = al_direction a, pa_threshold = al_threshold a \<rparr>"

definition read_pending_alerts :: "pg \<Rightarrow> pending_alert list" where
  "read_pending_alerts db = map pending_of (filter (\<lambda>a. al_triggered_at a = None) (price_alerts db))"

definition trigger_row :: "fired \<Rightarrow> alert_row \<Rightarrow> alert_row" where
  "trigger_row f a = a\<lparr> al_triggered_at := Some (fi_trade_ts f), al_triggered_price := Some (fi_price f) \<rparr>"

definition mark_one :: "fired \<Rightarrow> alert_row list \<Rightarrow> alert_row list" where
  "mark_one f = update_where (\<lambda>a. al_id a = fi_alert_id f \<and> al_triggered_at a = None) (trigger_row f)"

fun mark_rows :: "fired list \<Rightarrow> alert_row list \<Rightarrow> alert_row list result" where
  "mark_rows [] rows = Inr rows"
| "mark_rows (f # fs) rows = (case numeric_error (fi_price f) of
       Some e \<Rightarrow> Inl e
     | None \<Rightarrow> mark_rows fs (mark_one f rows))"

definition mark_triggered :: "fired list \<Rightarrow> pg \<Rightarrow> (int \<times> pg) result" where
  "mark_triggered fs db =
     (if fs = [] then Inr (0, db)
      else rbind (mark_rows fs (price_alerts db)) (\<lambda>rows.
        Inr (int (length fs), db\<lparr> price_alerts := rows \<rparr>)))"

section \<open>Day statistics\<close>

definition day_rows :: "pg \<Rightarrow> string \<Rightarrow> int \<Rightarrow> raw_trade_row list" where
  "day_rows db s day = filter (\<lambda>r. rt_symbol r = s \<and> day_start day \<le> rt_ts r \<and>
     rt_ts r < day_start (day + 1)) (raw_trades db)"

text \<open>One group of the query. Among rows of the same time \<open>array_agg\<close> takes the first in
  table order; \<open>max\<close> and \<open>min\<close> of a \<open>NUMERIC\<close> put NaN above everything.\<close>

definition stats_of_rows :: "int \<Rightarrow> raw_trade_row list \<Rightarrow> vals" where
  "stats_of_rows day rows = (case rows of [] \<Rightarrow> [] | r # rs \<Rightarrow>
     [(''day'', VDay day),
      (''day_open'', VFloat (rt_price (min_by rt_ts r rs))),
      (''day_high'', VFloat (Max (rt_price ` set rows))),
      (''day_low'', VFloat (Min (rt_price ` set rows))),
      (''trades_today'', VInt (int (length rows)))])"

text \<open>\<open>day_start + timedelta(days=1)\<close> overflows on the last day of the calendar.\<close>

definition read_day_stats :: "pg \<Rightarrow> string list \<Rightarrow> int \<Rightarrow> (string \<times> vals) list result" where
  "read_day_stats db symbols day =
     (if day_in_range (day + 1)
      then Inr (map (\<lambda>s. (s, stats_of_rows day (day_rows db s day))) (dedup symbols))
      else Inl OverflowError)"

section \<open>get_engine\<close>


text \<open>The connection URL; creating the engine opens no connection.\<close>

definition get_engine :: "env \<Rightarrow> string result" where
  "get_engine e =
     (let host = env_get e ''DESTINATION_POSTGRES_HOST'' ''destination_postgres'';
          port = env_get e ''DESTINATION_POSTGRES_PORT'' ''5432'';
          db_name = env_get e ''DESTINATION_POSTGRES_DB'' ''destination_db'';
          user = env_get e ''DESTINATION_POSTGRES_USER'' ''postgres'';
          password = env_get e ''DESTINATION_POSTGRES_PASSWORD'' []
      in if password = [] then Inl (RuntimeError ''DESTINATION_POSTGRES_PASSWORD is not set. Check that docker-compose.yaml passes ./.env to the stream service.'')
         else Inr (''postgresql+psycopg2://'' @ user @ '':'' @ password @ ''@'' @ host @ '':'' @ port @
                   ''/'' @ db_name))"

section \<open>Lemmas\<close>

interpretation beats: row_update ss_id beat_row
  by unfold_locales (simp add: beat_row_def case_prod_beta Let_def)

interpretation finishes: row_update ss_id finish_row
  by unfold_locales (simp add: finish_row_def case_prod_beta Let_def)

interpretation triggers: row_update al_id trigger_row
  by unfold_locales (simp add: trigger_row_def)

lemma trigger_row_simps [simp]:
  "al_user_id (trigger_row f a) = al_user_id a" "al_symbol (trigger_row f a) = al_symbol a"
  "al_direction (trigger_row f a) = al_direction a" "al_threshold (trigger_row f a) = al_threshold a"
  "al_triggered_at (trigger_row f a) = Some (fi_trade_ts f)"
  "al_triggered_price (trigger_row f a) = Some (fi_price f)"
  by (simp_all add: trigger_row_def)

text \<open>The rows an insert appends.\<close>

definition stored_as :: "raw_trade_row \<Rightarrow> trade \<Rightarrow> bool" where
  "stored_as r t \<longleftrightarrow> rt_symbol r = symbol t \<and> rt_ts r = trade_ts t \<and> rt_price r = price t \<and>
     rt_volume r = Some (volume t) \<and> rt_conditions r = Some (conditions t)"

lemma insert_rows_Inr:
  "insert_rows now ts db = Inr db' \<longleftrightarrow> (\<forall>t \<in> set ts. trade_error t = None) \<and>
     db' = db\<lparr> raw_trades := raw_trades db @
               map2 (raw_row now) [next_trade_id db..<next_trade_id db + length ts] ts,
            next_trade_id := next_trade_id db + length ts \<rparr>"
proof (induction ts arbitrary: db)
  case (Cons t ts)
  have "[next_trade_id db..<next_trade_id db + length (t # ts)] =
      next_trade_id db # [Suc (next_trade_id db)..<Suc (next_trade_id db) + length ts]"
    by (simp add: upt_conv_Cons del: upt.simps)
  with Cons [of "insert_trade now t db"] show ?case
    by (auto simp: insert_trade_def split: option.splits)
qed auto

lemma insert_rows_Inl: "insert_rows now ts db = Inl e \<Longrightarrow> \<exists>t \<in> set ts. trade_error t = Some e"
  by (induction ts arbitrary: db) (auto split: option.splits)

lemma stored_as_raw_rows: "length ids = length ts \<Longrightarrow> list_all2 stored_as (map2 (raw_row now) ids ts) ts"
  by (induction ids ts rule: list_induct2) (simp_all add: stored_as_def raw_row_def)

lemma raw_row_ids: "length ts = k \<Longrightarrow> map rt_id (map2 (raw_row now) [n..<n + k] ts) = [n..<n + k]"
  by (intro nth_equalityI) (simp_all add: raw_row_def)

lemma list_all2_filter:
  "list_all2 R xs ys \<Longrightarrow> (\<And>x y. R x y \<Longrightarrow> P x = Q y) \<Longrightarrow> list_all2 R (filter P xs) (filter Q ys)"
  by (induction rule: list_all2_induct) auto

lemma insert_rows_stored:
  assumes "insert_rows now ts db = Inr db'"
  obtains rows where "raw_trades db' = raw_trades db @ rows" "list_all2 stored_as rows ts"
    "map rt_id rows = [next_trade_id db..<next_trade_id db + length ts]"
    "db' = db\<lparr> raw_trades := raw_trades db @ rows, next_trade_id := next_trade_id db + length ts \<rparr>"
proof
  let ?rows = "map2 (raw_row now) [next_trade_id db..<next_trade_id db + length ts] ts"
  show "db' = db\<lparr> raw_trades := raw_trades db @ ?rows, next_trade_id := next_trade_id db + length ts \<rparr>"
    using assms by (simp add: insert_rows_Inr)
  then show "raw_trades db' = raw_trades db @ ?rows" by simp
  show "list_all2 stored_as ?rows ts" by (rule stored_as_raw_rows) simp
  show "map rt_id ?rows = [next_trade_id db..<next_trade_id db + length ts]"
    by (rule raw_row_ids) simp
qed

text \<open>What \<open>mark_rows\<close> does to each row.\<close>

definition marked :: "fired list \<Rightarrow> alert_row \<Rightarrow> alert_row" where
  "marked fs a = (if al_triggered_at a = None
     then (case List.find (\<lambda>f. fi_alert_id f = al_id a) fs of None \<Rightarrow> a | Some f \<Rightarrow> trigger_row f a)
     else a)"

lemma marked_Nil [simp]: "marked [] = (\<lambda>a. a)"
  by (simp add: fun_eq_iff marked_def)

lemma mark_rows_Inr:
  "mark_rows fs rows = Inr rows' \<longleftrightarrow>
   (\<forall>f \<in> set fs. numeric_error (fi_price f) = None) \<and> rows' = map (marked fs) rows"
proof (induction fs arbitrary: rows)
  case Nil
  then show ?case by auto
next
  case (Cons f fs)
  have "map (marked fs) (mark_one f rows) = map (marked (f # fs)) rows"
    by (simp add: mark_one_def update_where_def) (auto simp: marked_def)
  with Cons [of "mark_one f rows"] show ?case by (auto split: option.splits)
qed

lemma mark_rows_Inl: "mark_rows fs rows = Inl e \<Longrightarrow> \<exists>f \<in> set fs. numeric_error (fi_price f) = Some e"
  by (induction fs arbitrary: rows) (auto split: option.splits)

lemma marked_keys [simp]: "al_id (marked fs a) = al_id a" "al_user_id (marked fs a) = al_user_id a"
  by (auto simp: marked_def split: option.splits)

lemma marked_marked [simp]: "al_triggered_at (marked fs a) \<noteq> None \<Longrightarrow> marked fs' (marked fs a) = marked fs a"
  by (auto simp: marked_def [of fs'])

lemma pg_keys_ok_alerts:
  assumes "pg_keys_ok db" "map (\<lambda>a. (al_id a, al_user_id a)) rows = map (\<lambda>a. (al_id a, al_user_id a)) (price_alerts db)"
  shows "pg_keys_ok (db\<lparr> price_alerts := rows \<rparr>)"
proof -
  have ids: "map al_id rows = map al_id (price_alerts db)" "map al_user_id rows = map al_user_id (price_alerts db)"
    using assms(2) by (metis (no_types, lifting) comp_apply fst_conv snd_conv list.map_comp map_cong)+
  then have "al_user_id ` set rows = al_user_id ` set (price_alerts db)" by (metis set_map)
  then have "\<forall>a \<in> set rows. al_user_id a \<in> us_id ` set (users db)"
    using assms(1) unfolding pg_keys_ok_def by (metis (no_types, lifting) image_iff)
  with assms(1) ids(1) show ?thesis by (simp add: pg_keys_ok_def serial_ok_keys del: set_map)
qed

text \<open>The stored day and the cached values agree on high, low and count.\<close>

definition coherent :: "vals \<Rightarrow> raw_trade_row list \<Rightarrow> bool" where
  "coherent d rows \<longleftrightarrow> (if rows = [] then d = []
     else \<exists>op. holds_stats d op (Max (rt_price ` set rows)) (Min (rt_price ` set rows)) (int (length rows)))"

lemma stats_coherent: "coherent (stats_of_rows day rows) rows"
  by (cases rows) (simp_all add: coherent_def stats_of_rows_def holds_stats_def)

lemma stored_prices:
  assumes "list_all2 stored_as rows ts"
  shows "rt_price ` set rows = prices ts" "length rows = length ts"
proof -
  have "map rt_price rows = map price ts"
    using assms by (induction rule: list_all2_induct) (simp_all add: stored_as_def)
  then show "rt_price ` set rows = prices ts" unfolding prices_def by (metis set_map)
  show "length rows = length ts" using assms by (rule list_all2_lengthD)
qed

lemma merge_coherent:
  assumes "coherent d rows" "list_all2 stored_as new bs" "bs \<noteq> []"
    "NaN \<notin> prices bs" "NaN \<notin> rt_price ` set rows"
  shows "\<exists>v lt. merge d bs = Inr v \<and> coherent v (rows @ new) \<and> lt \<in> set bs \<and> holds_latest v lt \<and>
    (\<forall>u \<in> set bs. trade_ts u \<le> trade_ts lt)"
proof -
  obtain lt where lt: "py_max trade_ts bs = Inr lt" "lt \<in> set bs" "\<forall>u \<in> set bs. trade_ts u \<le> trade_ts lt"
    using latest_exists [OF assms(3)] by metis
  obtain et where et: "py_min trade_ts bs = Inr et" using earliest_exists [OF assms(3)] .
  note new = stored_prices [OF assms(2)]
  have ne: "prices bs \<noteq> {}" "new \<noteq> []" using assms(2,3) by auto
  show ?thesis
  proof (cases "rows = []")
    case True
    with merge_first [OF assms(3,4) lt(1) et] lt assms(1) new ne(2) show ?thesis
      by (auto simp: coherent_def)
  next
    case False
    let ?hi = "Max (rt_price ` set rows)" and ?lo = "Min (rt_price ` set rows)"
    obtain op where op: "holds_stats d op ?hi ?lo (int (length rows))"
      using assms(1) False by (auto simp: coherent_def)
    have "?hi \<noteq> NaN" "?lo \<noteq> NaN"
      using False assms(5) Max_in [of "rt_price ` set rows"] Min_in [of "rt_price ` set rows"]
      by (metis List.finite_set finite_imageI image_is_empty set_empty)+
    from merge_next [OF assms(3,4) op this lt(1)] obtain v where
      v: "merge d bs = Inr v" "holds_latest v lt"
        "holds_stats v op (max ?hi (Max (prices bs))) (min ?lo (Min (prices bs)))
          (int (length rows) + int (length bs))" by blast
    moreover have "max ?hi (Max (prices bs)) = Max (rt_price ` set (rows @ new))"
      "min ?lo (Min (prices bs)) = Min (rt_price ` set (rows @ new))"
      using False ne new by (simp_all add: image_Un Max_Un Min_Un)
    ultimately have "coherent v (rows @ new)" using False new(2) by (auto simp: coherent_def)
    with v lt show ?thesis by blast
  qed
qed

lemma day_rows_insert:
  assumes "insert_rows now ts db = Inr db'"
  obtains new where "day_rows db' s day = day_rows db s day @ new"
    "list_all2 stored_as new (filter (\<lambda>t. symbol t = s \<and> date_of (trade_ts t) = day) ts)"
proof -
  obtain rows where rows: "raw_trades db' = raw_trades db @ rows" "list_all2 stored_as rows ts"
    using insert_rows_stored [OF assms] by metis
  let ?P = "\<lambda>r. rt_symbol r = s \<and> day_start day \<le> rt_ts r \<and> rt_ts r < day_start (day + 1)"
  have "list_all2 stored_as (filter ?P rows) (filter (\<lambda>t. symbol t = s \<and> date_of (trade_ts t) = day) ts)"
    by (rule list_all2_filter [OF rows(2)]) (auto simp: stored_as_def date_of_iff)
  with that [of "filter ?P rows"] rows(1) show ?thesis by (simp add: day_rows_def)
qed

section \<open>Properties\<close>

text \<open>
  C22: Inserting a batch is all or nothing. When every trade can be stored, the rows appended
  are exactly the trades, in order, with fresh distinct ids, and the count returned is theirs;
  a single trade with an infinite number or a NUL character (the parser lets both through)
  fails the whole batch and leaves the database as it was. All other tables and every key of
  the schema are kept.
\<close>

theorem insert_trades_atomic:
  assumes "pg_keys_ok db" "transaction None (insert_trades now ts) db = (r, db')"
  shows "pg_keys_ok db' \<and>
    (if \<forall>t \<in> set ts. trade_error t = None
     then r = Inr (int (length ts)) \<and>
       (\<exists>rows. raw_trades db' = raw_trades db @ rows \<and> list_all2 stored_as rows ts \<and>
          db' = db\<lparr> raw_trades := raw_trades db', next_trade_id := next_trade_id db + length ts \<rparr>)
     else db' = db \<and> (\<exists>t \<in> set ts. \<exists>e. r = Inl e \<and> trade_error t = Some e))"
proof (cases "insert_rows now ts db")
  case (Inl e)
  with assms(2) have "r = Inl e" "db' = db" by (auto simp: transaction_def insert_trades_def split: if_splits)
  moreover have "\<exists>t \<in> set ts. trade_error t = Some e" by (rule insert_rows_Inl [OF Inl])
  ultimately show ?thesis using assms(1) by auto
next
  case (Inr d)
  then have ok: "\<forall>t \<in> set ts. trade_error t = None" by (simp add: insert_rows_Inr)
  have r: "r = Inr (int (length ts))" "db' = d"
    using assms(2) Inr by (auto simp: transaction_def insert_trades_def split: if_splits)
  obtain rows where rows: "list_all2 stored_as rows ts"
    "map rt_id rows = [next_trade_id db..<next_trade_id db + length ts]"
    "d = db\<lparr> raw_trades := raw_trades db @ rows, next_trade_id := next_trade_id db + length ts \<rparr>"
    using insert_rows_stored [OF Inr] by metis
  have "serial_ok rt_id (raw_trades db @ rows) (next_trade_id db + length ts)"
    using assms(1) rows(2) by (intro serial_ok_append) (auto simp: pg_keys_ok_def)
  with assms(1) rows(3) r(2) have "pg_keys_ok db'" by (simp add: pg_keys_ok_def)
  with ok r rows(1,3) show ?thesis by auto
qed

theorem insert_trades_atomic_witness:
  "snd (transaction None (insert_trades 0 [sample 1 (Fin 5), sample 2 PosInf]) empty_pg) = empty_pg \<and>
   length (raw_trades (snd (transaction None (insert_trades 0 [sample 1 (Fin 5)]) empty_pg))) = 1"
proof -
  have e: "trade_error (sample 2 PosInf) \<noteq> None" "trade_error (sample 1 (Fin 5)) = None"
    by (simp_all add: trade_error_def sample_def text_error_def numeric_error_def)
  obtain r d where rd: "transaction None (insert_trades 0 [sample 1 (Fin 5), sample 2 PosInf]) empty_pg = (r, d)"
    by fastforce
  obtain r' d' where rd': "transaction None (insert_trades 0 [sample 1 (Fin 5)]) empty_pg = (r', d')"
    by fastforce
  from insert_trades_atomic [OF pg_keys_ok_empty rd] e(1) have "d = empty_pg"
    by (auto split: if_splits)
  moreover from insert_trades_atomic [OF pg_keys_ok_empty rd'] e(2)
  obtain rows where "raw_trades d' = raw_trades empty_pg @ rows" "list_all2 stored_as rows [sample 1 (Fin 5)]"
    by auto
  then have "length (raw_trades d') = 1" by (auto simp: empty_pg_def dest: list_all2_lengthD)
  ultimately show ?thesis using rd rd' by simp
qed

definition opt_le :: "int option \<Rightarrow> int option \<Rightarrow> bool" where
  "opt_le a b = (case a of None \<Rightarrow> True | Some x \<Rightarrow> (case b of None \<Rightarrow> False | Some y \<Rightarrow> x \<le> y))"

lemma opt_le_greatest: "opt_le a (greatest a b)"
  by (cases a; cases b) (simp_all add: opt_le_def)

text \<open>
  A heartbeat touches only its own session row. There the two counters grow by exactly the
  reported amounts, the times of the last message and last trade never move back and never
  return to null, a missing market status keeps the stored one, and the connection's identity
  and end state are kept. Every key of the schema is kept.
\<close>

theorem heartbeat_monotone:
  assumes "pg_keys_ok db" "heartbeat sid b db = Inr (u, db')"
  shows "pg_keys_ok db' \<and> db' = db\<lparr> stream_sessions := stream_sessions db' \<rparr> \<and>
    list_all2 (\<lambda>r r'. if ss_id r \<noteq> sid then r' = r else
        ss_trades_received r' = ss_trades_received r + hb_trades b \<and>
        ss_rows_written r' = ss_rows_written r + hb_rows b \<and>
        opt_le (ss_last_message_at r) (ss_last_message_at r') \<and>
        opt_le (hb_last_message_at b) (ss_last_message_at r') \<and>
        opt_le (ss_last_trade_at r) (ss_last_trade_at r') \<and>
        opt_le (hb_last_trade_at b) (ss_last_trade_at r') \<and>
        (hb_market_open b = None \<longrightarrow> ss_market_open r' = ss_market_open r) \<and>
        (hb_market_session b = JNull \<longrightarrow> ss_market_session r' = ss_market_session r) \<and>
        ss_id r' = ss_id r \<and> ss_connected_at r' = ss_connected_at r \<and>
        ss_disconnected_at r' = ss_disconnected_at r \<and> ss_status r' = ss_status r \<and>
        ss_error_message r' = ss_error_message r)
      (stream_sessions db) (stream_sessions db')"
proof -
  obtain sess where sess: "session_text (hb_market_session b) = Inr sess"
    and db': "db' = db\<lparr> stream_sessions :=
      update_where (\<lambda>r. ss_id r = sid) (beat_row (b, sess)) (stream_sessions db) \<rparr>"
    using assms(2) by (auto simp: heartbeat_def rbind_eq_Inr)
  have null: "hb_market_session b = JNull \<Longrightarrow> sess = None"
    using sess by (simp add: session_text_def)
  have le: "opt_le y (greatest x y)" for x y by (cases x; cases y) (simp_all add: opt_le_def)
  have "pg_keys_ok db'" using assms(1) by (simp add: db' pg_keys_ok_def beats.serial)
  then show ?thesis
    using null by (simp add: db' update_where_def list_all2_conv_all_nth beat_row_def Let_def
        opt_le_greatest le)
qed

definition quiet_beat :: beat where
  "quiet_beat = \<lparr> hb_trades = 2, hb_rows = 2, hb_last_message_at = None, hb_last_trade_at = None,
     hb_market_open = None, hb_market_session = JNull \<rparr>"

theorem heartbeat_monotone_witness:
  "\<exists>db db'. start_session 0 [''NVDA''] 0 empty_pg = Inr (1, db) \<and> heartbeat 1 quiet_beat db = Inr ((), db') \<and>
     map ss_trades_received (stream_sessions db') = [2]"
proof -
  obtain db where db: "start_session 0 [''NVDA''] 0 empty_pg = Inr (1, db)"
      "stream_sessions db = [session_row_new 0 1 [''NVDA''] 0]" "pg_keys_ok db"
    by (simp add: start_session_def text_error_def empty_pg_def pg_keys_ok_def serial_ok_def
        session_row_new_def)
  obtain db' where hb: "heartbeat 1 quiet_beat db = Inr ((), db')"
    by (simp add: heartbeat_def session_text_def quiet_beat_def)
  from heartbeat_monotone [OF db(3) hb] db(2)
  have "map ss_trades_received (stream_sessions db') = [2]"
    by (auto simp: list_all2_Cons1 session_row_new_def quiet_beat_def)
  with db(1) hb show ?thesis by (intro exI [of _ db] exI [of _ db'] conjI)
qed

text \<open>
  Marking alerts is exactly once: an alert that is pending when a list of firings is applied
  takes the time and price of the first firing for it; an alert no firing names, and an alert
  that had already triggered, is untouched, so a later list of firings never overwrites an
  earlier one. The count returned is the number of firings; keys and the other tables are kept.
\<close>

theorem mark_triggered_once:
  assumes "pg_keys_ok db" "mark_triggered fs db = Inr (n, db')"
  shows "pg_keys_ok db' \<and> n = int (length fs) \<and> db' = db\<lparr> price_alerts := price_alerts db' \<rparr> \<and>
    price_alerts db' = map (marked fs) (price_alerts db) \<and>
    (\<forall>a \<in> set (price_alerts db). (al_triggered_at a \<noteq> None \<longrightarrow> a \<in> set (price_alerts db')) \<and>
       (\<forall>f. al_triggered_at a = None \<and> List.find (\<lambda>f. fi_alert_id f = al_id a) fs = Some f \<longrightarrow>
          a\<lparr> al_triggered_at := Some (fi_trade_ts f), al_triggered_price := Some (fi_price f) \<rparr>
            \<in> set (price_alerts db'))) \<and>
    (\<forall>gs m db''. mark_triggered gs db' = Inr (m, db'') \<longrightarrow>
       (\<forall>a \<in> set (price_alerts db'). al_triggered_at a \<noteq> None \<longrightarrow> a \<in> set (price_alerts db'')))"
proof -
  have mark: "price_alerts d' = map (marked gs) (price_alerts d) \<and> m = int (length gs) \<and>
      d' = d\<lparr> price_alerts := price_alerts d' \<rparr>" if "mark_triggered gs d = Inr (m, d')" for gs d m d'
  proof (cases "gs = []")
    case True
    with that show ?thesis by (simp add: mark_triggered_def)
  next
    case False
    with that show ?thesis by (auto simp: mark_triggered_def rbind_eq_Inr mark_rows_Inr)
  qed
  have kept: "a \<in> set (map (marked gs) rows)" if "a \<in> set rows" "al_triggered_at a \<noteq> None" for a gs rows
  proof -
    have "marked gs a = a" using that(2) by (auto simp: marked_def)
    with that(1) show ?thesis by (metis image_eqI set_map)
  qed
  note m = mark [OF assms(2)]
  have "pg_keys_ok (db\<lparr> price_alerts := price_alerts db' \<rparr>)"
    using m by (intro pg_keys_ok_alerts [OF assms(1)]) (simp add: comp_def)
  then have keys: "pg_keys_ok db'" using m by metis
  have fired: "a\<lparr> al_triggered_at := Some (fi_trade_ts f), al_triggered_price := Some (fi_price f) \<rparr>
      \<in> set (price_alerts db')"
    if "a \<in> set (price_alerts db)" "al_triggered_at a = None"
      "List.find (\<lambda>f. fi_alert_id f = al_id a) fs = Some f" for a f
  proof -
    have "marked fs a = trigger_row f a" using that by (simp add: marked_def)
    with that(1) m show ?thesis by (metis image_eqI set_map trigger_row_def)
  qed
  have later: "a \<in> set (price_alerts db'')"
    if "mark_triggered gs db' = Inr (k, db'')" "a \<in> set (price_alerts db')" "al_triggered_at a \<noteq> None"
    for gs k db'' a
    using mark [OF that(1)] kept [OF that(2,3), of gs] by simp
  have stay: "a \<in> set (price_alerts db')"
    if "a \<in> set (price_alerts db)" "al_triggered_at a \<noteq> None" for a
    using kept [OF that, of fs] m by simp
  show ?thesis
    by (intro conjI ballI impI allI keys; (elim conjE)?) (use m stay fired later in \<open>blast | simp\<close>)+
qed

definition nvda_alert :: alert_row where
  "nvda_alert = \<lparr> al_id = 7, al_user_id = 1, al_symbol = ''NVDA'', al_direction = ''above'',
     al_threshold = 130, al_created_at = 0, al_triggered_at = None, al_triggered_price = None \<rparr>"

definition ada :: user_row where
  "ada = \<lparr> us_id = 1, us_email = ''ada@x.io'', us_password_hash = ''h'', us_role = ''user'', us_created_at = 0 \<rparr>"

definition alert_db :: pg where
  "alert_db = empty_pg\<lparr> users := [ada], next_user_id := 2, price_alerts := [nvda_alert], next_alert_id := 8 \<rparr>"

lemma alert_db_ok: "pg_keys_ok alert_db"
  by (simp add: alert_db_def ada_def nvda_alert_def pg_keys_ok_def empty_pg_def serial_ok_def)

definition firing :: "int \<Rightarrow> rat \<Rightarrow> fired" where
  "firing ts p = \<lparr> fi_alert_id = 7, fi_price = Fin p, fi_trade_ts = ts \<rparr>"

theorem mark_triggered_once_witness:
  "\<exists>db'. mark_triggered [firing 20 131, firing 30 140] alert_db = Inr (2, db') \<and>
     map al_triggered_at (price_alerts db') = [Some 20]"
proof -
  obtain db' where m: "mark_triggered [firing 20 131, firing 30 140] alert_db = Inr (2, db')"
    by (auto simp: mark_triggered_def firing_def numeric_error_def)
  from mark_triggered_once [OF alert_db_ok m]
  have "price_alerts db' = map (marked [firing 20 131, firing 30 140]) (price_alerts alert_db)" by blast
  then have "map al_triggered_at (price_alerts db') = [Some 20]"
    by (simp add: alert_db_def nvda_alert_def marked_def firing_def)
  with m show ?thesis by (intro exI [of _ db'] conjI)
qed

text \<open>
  Redis and PostgreSQL agree after a flush. Seed a symbol from the database as it was before
  the insert (nothing, when the day had no trades), merge the symbol's trades of the batch, all
  of that day and none NaN: the result's high, low and number of trades are exactly those the
  query returns after the insert, and so is the opening price unless a trade of the batch is
  older than every stored one.
\<close>

theorem seed_then_merge_agrees:
  assumes "insert_rows now ts db = Inr db'"
    "bs = filter (\<lambda>t. symbol t = s) ts" "bs \<noteq> []" "\<forall>t \<in> set bs. date_of (trade_ts t) = day"
    "NaN \<notin> prices bs" "NaN \<notin> rt_price ` set (day_rows db s day)"
  shows "\<exists>v op op' hi lo n. merge (stats_of_rows day (day_rows db s day)) bs = Inr v \<and>
    map_of v ''day'' = Some (VDay day) \<and> holds_stats v op hi lo n \<and>
    holds_stats (stats_of_rows day (day_rows db' s day)) op' hi lo n \<and>
    ((\<forall>r \<in> set (day_rows db s day). \<forall>t \<in> set bs. rt_ts r \<le> trade_ts t) \<and>
      day_rows db s day \<noteq> [] \<longrightarrow> op = op')"
proof -
  let ?rows = "day_rows db s day" and ?rows' = "day_rows db' s day"
  obtain new where new: "?rows' = ?rows @ new" "list_all2 stored_as new
      (filter (\<lambda>t. symbol t = s \<and> date_of (trade_ts t) = day) ts)"
    using day_rows_insert [OF assms(1)] by metis
  have "filter (\<lambda>t. symbol t = s \<and> date_of (trade_ts t) = day) ts = bs"
    using assms(2,4) by (auto intro!: filter_cong)
  with new(2) have stored: "list_all2 stored_as new bs" by simp
  obtain v lt where v: "merge (stats_of_rows day ?rows) bs = Inr v" "coherent v ?rows'"
    "lt \<in> set bs" "holds_latest v lt"
    using merge_coherent [OF stats_coherent stored assms(3,5,6)] new(1) by metis
  have ne: "?rows' \<noteq> []" using stored assms(3) new(1) by auto
  obtain op where op: "holds_stats v op (Max (rt_price ` set ?rows')) (Min (rt_price ` set ?rows'))
      (int (length ?rows'))" using v(2) ne by (auto simp: coherent_def)
  obtain op' where op': "holds_stats (stats_of_rows day ?rows') op' (Max (rt_price ` set ?rows'))
      (Min (rt_price ` set ?rows')) (int (length ?rows'))"
    using stats_coherent [of day ?rows'] ne by (auto simp: coherent_def)
  have day: "map_of v ''day'' = Some (VDay day)" using v(3,4) assms(4) by (simp add: holds_latest_def)
  have "op = op'" if later: "\<forall>r \<in> set ?rows. \<forall>t \<in> set bs. rt_ts r \<le> trade_ts t" and "?rows \<noteq> []"
  proof -
    obtain r rs where r: "?rows = r # rs" using \<open>?rows \<noteq> []\<close> by (cases ?rows) auto
    let ?m = "min_by rt_ts r rs"
    have "?m \<in> set ?rows" using min_by_in [of rt_ts r rs] r by simp
    then have "\<forall>x \<in> set new. rt_ts ?m \<le> rt_ts x"
      using later stored by (fastforce simp: list_all2_conv_all_nth in_set_conv_nth stored_as_def)
    then have "min_by rt_ts r (rs @ new) = ?m" by (rule min_by_append_later)
    then have "map_of (stats_of_rows day ?rows') ''day_open'' = map_of (stats_of_rows day ?rows) ''day_open''"
      by (simp add: stats_of_rows_def r new(1))
    moreover have "map_of v ''day_open'' = map_of (stats_of_rows day ?rows) ''day_open''"
      using merge_keeps_open [OF v(1)] r by (simp add: stats_of_rows_def)
    ultimately show ?thesis using op op' by (simp add: holds_stats_def)
  qed
  with v(1) day op op' show ?thesis by blast
qed

theorem seed_then_merge_agrees_witness:
  "\<exists>db v. insert_rows 0 [sample 1 (Fin 5)] empty_pg = Inr db \<and>
     merge (stats_of_rows 0 (day_rows db ''NVDA'' 0)) [sample 2 (Fin 9)] = Inr v \<and>
     map_of v ''day_high'' = Some (VFloat (Fin 9)) \<and> map_of v ''trades_today'' = Some (VInt 2)"
proof -
  let ?r = "raw_row 0 1 (sample 1 (Fin 5))"
  have e: "trade_error (sample i (Fin q)) = None" for i q
    by (simp add: trade_error_def sample_def text_error_def numeric_error_def)
  obtain db where db: "insert_rows 0 [sample 1 (Fin 5)] empty_pg = Inr db" "raw_trades db = [?r]"
    by (simp add: insert_trade_def e empty_pg_def)
  obtain db' where db': "insert_rows 0 [sample 2 (Fin 9)] db = Inr db'" "raw_trades db' = [?r, raw_row 0 (next_trade_id db) (sample 2 (Fin 9))]"
    by (simp add: insert_trade_def e db(2))
  have rows: "day_rows db ''NVDA'' 0 = [?r]"
    "day_rows db' ''NVDA'' 0 = [?r, raw_row 0 (next_trade_id db) (sample 2 (Fin 9))]"
    by (simp_all add: day_rows_def db(2) db'(2) raw_row_def sample_def day_start_def)
  have m: "Max (rt_price ` set (day_rows db' ''NVDA'' 0)) = Fin 9" "length (day_rows db' ''NVDA'' 0) = 2"
    by (simp_all add: rows raw_row_def sample_def max_def)
  obtain v op op' hi lo n where v: "merge (stats_of_rows 0 (day_rows db ''NVDA'' 0)) [sample 2 (Fin 9)] = Inr v"
    "holds_stats v op hi lo n" "holds_stats (stats_of_rows 0 (day_rows db' ''NVDA'' 0)) op' hi lo n"
    using seed_then_merge_agrees [OF db'(1), of "[sample 2 (Fin 9)]" "''NVDA''" 0]
    by (auto simp: rows(1)) (auto simp: sample_def date_of_def prices_def raw_row_def)
  have "hi = Fin 9" "n = 2" using v(3) m rows(2) by (auto simp: holds_stats_def stats_of_rows_def)
  with db(1) v(1,2) show ?thesis by (auto simp: holds_stats_def)
qed

end
