(* ===== verification/StreamFlush.thy ===== *)
theory StreamFlush
  imports StreamWriter
begin

text \<open>
  The pieces of one flush (stream/main.py): \<open>check_alerts\<close>, \<open>load_live_prices\<close> and
  \<open>save_live_prices\<close>, with the failures of PostgreSQL and Redis as arguments. A handler's
  \<open>except Exception\<close> turns every failure into the value it returns.
\<close>

section \<open>check_alerts\<close>

definition check_alerts :: "exn option \<Rightarrow> trade list \<Rightarrow> pg \<Rightarrow> int \<times> pg" where
  "check_alerts failure trades db =
     (if trades = [] then (0, db)
      else (case transaction failure (\<lambda>d. rbind (find_triggered (read_pending_alerts d) trades)
                   (\<lambda>fs. mark_triggered fs d)) db of
              (Inr n, db') \<Rightarrow> (n, db')
            | (Inl e, db') \<Rightarrow> (0, db')))"

section \<open>load_live_prices\<close>

definition dict_merge :: "('k \<times> 'v) list \<Rightarrow> ('k \<times> 'v) list \<Rightarrow> ('k \<times> 'v) list" where
  "dict_merge a b = fold (\<lambda>(k, v). AList.update k v) b a"

text \<open>\<open>sorted({trade.symbol for trade in trades})\<close>.\<close>

definition batch_symbols :: "trade list \<Rightarrow> string list" where
  "batch_symbols trades = sort (remdups (map symbol trades))"

definition stored_day :: "(string \<times> vals) list \<Rightarrow> string \<Rightarrow> pyval option" where
  "stored_day stored s = (case map_of stored s of None \<Rightarrow> None | Some v \<Rightarrow> map_of v ''day'')"

definition load_live_prices ::
  "exn option \<Rightarrow> exn option \<Rightarrow> redis \<Rightarrow> pg \<Rightarrow> trade list \<Rightarrow> bool \<Rightarrow> (string \<times> vals) list option" where
  "load_live_prices redis_failure pg_failure client db trades reseed =
     (if trades = [] then Some []
      else
        let syms = batch_symbols trades;
            body = rbind (py_max trade_ts trades) (\<lambda>latest.
              let day = date_of (trade_ts latest) in
              rbind (if reseed then Inr [] else read_live_prices redis_failure client syms) (\<lambda>stored.
                let stale = filter (\<lambda>s. stored_day stored s \<noteq> Some (VDay day)) syms in
                if stale = [] then Inr stored
                else rbind (fst (transaction pg_failure
                       (\<lambda>d. rbind (read_day_stats d stale day) (\<lambda>r. Inr (r, d))) db)) (\<lambda>seeded.
                     Inr (dict_merge stored seeded))))
        in (case body of Inr stored \<Rightarrow> Some stored | Inl e \<Rightarrow> None))"

section \<open>save_live_prices\<close>

text \<open>The symbols come from a set; the order they are visited in changes neither the hashes
  written nor the outcome, so the first-occurrence order stands for it.\<close>

definition merged_values :: "(string \<times> vals) list \<Rightarrow> trade list \<Rightarrow> (string \<times> vals) list result" where
  "merged_values stored trades = map_result (\<lambda>s.
     (case map_of stored s of None \<Rightarrow> Inl KeyError
      | Some v \<Rightarrow> rbind (merge v (filter (\<lambda>t. symbol t = s) trades)) (\<lambda>v'. Inr (s, v'))))
     (dedup (map symbol trades))"

definition save_live_prices ::
  "redis_outcome \<Rightarrow> redis \<Rightarrow> (string \<times> vals) list \<Rightarrow> trade list \<Rightarrow> bool \<times> redis" where
  "save_live_prices outcome client stored trades =
     (case merged_values stored trades of
        Inl e \<Rightarrow> (False, client)
      | Inr values \<Rightarrow> (case write_live_prices outcome client values of
          (Inl e, client') \<Rightarrow> (False, client')
        | (Inr _, client') \<Rightarrow> (True, client')))"

section \<open>Lemmas\<close>

lemma set_batch_symbols [simp]: "set (batch_symbols trades) = symbol ` set trades"
  by (simp add: batch_symbols_def)

lemma distinct_batch_symbols [simp]: "distinct (batch_symbols trades)"
  by (simp add: batch_symbols_def)

lemma sorted_distinct_single: "distinct xs \<Longrightarrow> set xs = {s} \<Longrightarrow> xs = [s]"
  by (metis distinct_card card.empty card_insert_disjoint empty_iff finite.emptyI length_Suc_conv
      length_0_conv list.set(1) list.set_intros(1) singletonD One_nat_def)

lemma map_of_dict_merge: "distinct (map fst b) \<Longrightarrow> map_of (dict_merge a b) = map_of a ++ map_of b"
  unfolding dict_merge_def by (rule map_of_fold_update)

lemma map_of_read_day_stats:
  assumes "read_day_stats db syms day = Inr seeded" "distinct syms"
  shows "map_of seeded s = (if s \<in> set syms then Some (stats_of_rows day (day_rows db s day)) else None)"
    and "distinct (map fst seeded)"
proof -
  have "seeded = map (\<lambda>s. (s, stats_of_rows day (day_rows db s day))) syms"
    using assms by (simp add: read_day_stats_def dedup_distinct split: if_splits)
  then show "map_of seeded s = (if s \<in> set syms then Some (stats_of_rows day (day_rows db s day)) else None)"
    "distinct (map fst seeded)"
    using assms(2) by (simp_all add: map_of_map_restrict restrict_map_def comp_def)
qed

lemma map_of_read_live_prices:
  assumes "read_live_prices f client syms = Inr stored" "s \<in> set syms"
  shows "\<exists>v. map_of stored s = Some v \<and> from_redis (hgetall client (redis_key s)) = Inr v"
proof -
  have "list_all2 (\<lambda>s e. \<exists>v. from_redis (hgetall client (redis_key s)) = Inr v \<and> e = (s, v)) syms stored"
    using assms(1) by (simp add: read_live_prices_Inr)
  then show ?thesis using assms(2)
    by (induction rule: list_all2_induct) auto
qed

text \<open>What \<open>load_live_prices\<close> returns for each symbol of the batch: the stored hash when it is of
  the batch's day, the day's statistics from PostgreSQL otherwise.\<close>

lemma load_live_prices_Some:
  assumes "load_live_prices rf pf client db trades reseed = Some stored" "trades \<noteq> []"
    "\<forall>t \<in> set trades. date_of (trade_ts t) = day" "s \<in> symbol ` set trades"
  shows "\<exists>v. map_of stored s = Some v \<and>
    (v = stats_of_rows day (day_rows db s day) \<or>
     \<not> reseed \<and> from_redis (hgetall client (redis_key s)) = Inr v \<and> map_of v ''day'' = Some (VDay day))"
proof -
  obtain lt where lt: "py_max trade_ts trades = Inr lt" "lt \<in> set trades"
    using latest_exists [OF assms(2)] by metis
  have d: "date_of (trade_ts lt) = day" using assms(3) lt(2) by blast
  let ?syms = "batch_symbols trades"
  obtain base where base: "(if reseed then Inr [] else read_live_prices rf client ?syms) = Inr base"
    and rest: "(let stale = filter (\<lambda>s. stored_day base s \<noteq> Some (VDay day)) ?syms in
        if stale = [] then Inr base
        else rbind (fst (transaction pf (\<lambda>d. rbind (read_day_stats d stale day) (\<lambda>r. Inr (r, d))) db))
          (\<lambda>seeded. Inr (dict_merge base seeded))) = Inr stored"
    using assms(1,2) lt(1) d
    by (cases "if reseed then Inr [] else read_live_prices rf client ?syms")
      (auto simp: load_live_prices_def Let_def split: sum.splits)
  let ?stale = "filter (\<lambda>s. stored_day base s \<noteq> Some (VDay day)) ?syms"
  have keep: "\<exists>v. map_of base s = Some v \<and> \<not> reseed \<and>
      from_redis (hgetall client (redis_key s)) = Inr v \<and> map_of v ''day'' = Some (VDay day)"
    if "s \<notin> set ?stale"
  proof -
    have day: "stored_day base s = Some (VDay day)" using that assms(4) by simp
    then have "\<not> reseed" using base by (auto simp: stored_day_def)
    with base map_of_read_live_prices [of rf client ?syms base s] assms(4) day show ?thesis
      by (auto simp: stored_day_def)
  qed
  show ?thesis
  proof (cases "?stale = []")
    case True
    with rest have "stored = base" by simp
    with keep True show ?thesis by auto
  next
    case False
    with rest obtain seeded where "read_day_stats db ?stale day = Inr seeded" "stored = dict_merge base seeded"
      by (auto simp: Let_def rbind_eq_Inr transaction_def split: option.splits sum.splits)
    moreover from this map_of_read_day_stats [of db ?stale day seeded]
    have "map_of stored s = (if s \<in> set ?stale then Some (stats_of_rows day (day_rows db s day)) else map_of base s)"
      by (simp add: map_of_dict_merge map_add_def)
    ultimately show ?thesis using keep by (cases "s \<in> set ?stale") auto
  qed
qed

text \<open>Firings by alert id, when the pending alerts have distinct ids.\<close>

lemma find_fired:
  "distinct (map pa_alert_id alerts) \<Longrightarrow> a \<in> set alerts \<Longrightarrow>
   List.find (\<lambda>f. fi_alert_id f = pa_alert_id a) (List.map_filter (first_hit ts) alerts) = first_hit ts a"
proof (induction alerts)
  case (Cons b alerts)
  have none: "List.find (\<lambda>f. fi_alert_id f = pa_alert_id b) (List.map_filter (first_hit ts) alerts) = None"
    if "pa_alert_id b \<notin> pa_alert_id ` set alerts" for b
    using that by (auto simp: find_None_iff set_map_filter_iff dest: first_hit_id) (metis first_hit_id image_eqI)
  show ?case
  proof (cases "a = b")
    case True
    with Cons.prems none [of b] first_hit_id [of ts b] show ?thesis
      by (auto simp: List.map_filter_simps split: option.splits)
  next
    case False
    with Cons.prems have "a \<in> set alerts" by simp
    moreover have "pa_alert_id b \<notin> pa_alert_id ` set alerts" using Cons.prems(1) by simp
    then have "pa_alert_id a \<noteq> pa_alert_id b" using \<open>a \<in> set alerts\<close> by (metis image_eqI)
    ultimately have "a \<in> set alerts" "pa_alert_id a \<noteq> pa_alert_id b" by auto
    with Cons first_hit_id [of ts b] show ?thesis
      by (auto simp: List.map_filter_simps split: option.splits)
  qed
qed simp

lemma pending_simps [simp]: "pa_alert_id (pending_of a) = al_id a" "pa_symbol (pending_of a) = al_symbol a"
  by (simp_all add: pending_of_def)

text \<open>The outcome for one alert row.\<close>

definition alerted :: "trade list \<Rightarrow> alert_row \<Rightarrow> alert_row \<Rightarrow> bool" where
  "alerted trades a a' \<longleftrightarrow>
     (if al_triggered_at a = None \<and> (\<exists>t \<in> set trades. crosses (pending_of a) t)
      then \<exists>t \<in> set trades. crosses (pending_of a) t \<and>
             (\<forall>u \<in> set trades. crosses (pending_of a) u \<longrightarrow> trade_ts t \<le> trade_ts u) \<and>
             a' = a\<lparr> al_triggered_at := Some (trade_ts t), al_triggered_price := Some (price t) \<rparr>
      else a' = a)"

lemma map_filter_None: "(\<And>x. x \<in> set xs \<Longrightarrow> g x = None) \<Longrightarrow> List.map_filter g xs = []"
  by (induction xs) (simp_all add: List.map_filter_simps)

lemma alerted_pending:
  assumes "alerted trades a a'" "al_triggered_at a' = None"
  shows "\<not> (\<exists>t \<in> set trades. crosses (pending_of a') t)"
proof (cases "al_triggered_at a = None \<and> (\<exists>t \<in> set trades. crosses (pending_of a) t)")
  case True
  then have "al_triggered_at a' \<noteq> None" using assms(1) unfolding alerted_def if_P [OF True] by auto
  with assms(2) show ?thesis by blast
next
  case False
  then have "a' = a" using assms(1) unfolding alerted_def if_not_P [OF False] by blast
  with False assms(2) show ?thesis by blast
qed

lemma check_alerts_value:
  assumes "pg_keys_ok db" "trades \<noteq> []" "\<forall>t \<in> set trades. price t \<noteq> NaN \<and> numeric_error (price t) = None"
  defines "fs \<equiv> List.map_filter (first_hit (sort_key trade_ts trades)) (read_pending_alerts db)"
  shows "check_alerts None trades db =
      (int (length fs), db\<lparr> price_alerts := map (marked fs) (price_alerts db) \<rparr>)"
    and "a \<in> set (price_alerts db) \<Longrightarrow> alerted trades a (marked fs a)"
proof -
  let ?ts = "sort_key trade_ts trades"
  have ft: "find_triggered (read_pending_alerts db) trades = Inr fs"
    using assms(3) by (simp add: find_triggered_def fire_loop_map_filter fs_def)
  have hit: "\<exists>a \<in> set (read_pending_alerts db). \<exists>t \<in> set ?ts. f = fired_by a t" if "f \<in> set fs" for f
    using that first_hit_Some [of ?ts] unfolding fs_def by (fastforce simp: set_map_filter_iff)
  have num: "\<forall>f \<in> set fs. numeric_error (fi_price f) = None"
    using hit assms(3) by (fastforce simp: fired_by_def)
  show "check_alerts None trades db =
      (int (length fs), db\<lparr> price_alerts := map (marked fs) (price_alerts db) \<rparr>)"
    using assms(2) ft mark_rows_Inr [of fs "price_alerts db", THEN iffD2, OF conjI, OF num refl]
    by (cases "fs = []") (simp_all add: check_alerts_def transaction_def mark_triggered_def)
  show "alerted trades a (marked fs a)" if a: "a \<in> set (price_alerts db)"
  proof (cases "al_triggered_at a = None")
    case True
    have "distinct (map al_id (price_alerts db))" using assms(1) by (simp add: pg_keys_ok_def serial_ok_def)
    then have "distinct (map pa_alert_id (read_pending_alerts db))"
      by (simp add: read_pending_alerts_def comp_def distinct_map_filter)
    moreover have "pending_of a \<in> set (read_pending_alerts db)"
      using a True by (simp add: read_pending_alerts_def)
    ultimately have find: "List.find (\<lambda>f. fi_alert_id f = al_id a) fs = first_hit ?ts (pending_of a)"
      using find_fired [of "read_pending_alerts db" "pending_of a" ?ts] by (simp add: fs_def)
    show ?thesis
    proof (cases "first_hit ?ts (pending_of a)")
      case None
      with True find show ?thesis
        by (simp add: alerted_def marked_def first_hit_None_iff)
    next
      case (Some f)
      then obtain t where t: "t \<in> set trades" "f = fired_by (pending_of a) t" "crosses (pending_of a) t"
        "\<forall>u \<in> set trades. crosses (pending_of a) u \<longrightarrow> trade_ts t \<le> trade_ts u"
        using first_hit_Some [of ?ts "pending_of a" f] by auto
      then have "marked fs a = a\<lparr> al_triggered_at := Some (trade_ts t), al_triggered_price := Some (price t) \<rparr>"
        using True find Some by (simp add: marked_def trigger_row_def fired_by_def)
      with t True show ?thesis unfolding alerted_def by auto
    qed
  next
    case False
    then show ?thesis by (auto simp: alerted_def marked_def)
  qed
qed

text \<open>The row says it fired at this trade.\<close>

definition fired_at :: "trade \<Rightarrow> alert_row \<Rightarrow> bool" where
  "fired_at t a \<longleftrightarrow> crosses (pending_of a) t \<and> al_triggered_at a = Some (trade_ts t) \<and>
     al_triggered_price a = Some (price t)"

lemma check_alerts_sound:
  assumes "pg_keys_ok db" "a \<in> set (price_alerts (snd (check_alerts f ts db)))" "al_triggered_at a \<noteq> None"
  shows "a \<in> set (price_alerts db) \<or> (\<exists>t \<in> set ts. fired_at t a)"
proof (cases "\<exists>fs. find_triggered (read_pending_alerts db) ts = Inr fs \<and>
    snd (check_alerts f ts db) = db\<lparr> price_alerts := map (marked fs) (price_alerts db) \<rparr>")
  case False
  have "snd (check_alerts f ts db) = db"
  proof (cases "find_triggered (read_pending_alerts db) ts")
    case (Inl e)
    then show ?thesis by (simp add: check_alerts_def transaction_def split: option.split)
  next
    case (Inr fs)
    have "rows = map (marked fs) (price_alerts db)" if "mark_rows fs (price_alerts db) = Inr rows" for rows
      using that by (simp add: mark_rows_Inr)
    with Inr False show ?thesis
      by (cases "mark_rows fs (price_alerts db)")
        (auto simp: check_alerts_def transaction_def mark_triggered_def split: option.splits if_splits)
  qed
  with assms show ?thesis by simp
next
  case True
  then obtain fs where fs: "fire_loop (read_pending_alerts db) (sort_key trade_ts ts) = Inr fs"
    "snd (check_alerts f ts db) = db\<lparr> price_alerts := map (marked fs) (price_alerts db) \<rparr>"
    by (auto simp: find_triggered_def)
  with assms(2) obtain b where b: "b \<in> set (price_alerts db)" "a = marked fs b" by auto
  show ?thesis
  proof (cases "a = b")
    case False
    then obtain h where h: "List.find (\<lambda>h. fi_alert_id h = al_id b) fs = Some h" "a = trigger_row h b" "al_triggered_at b = None"
      using b(2) by (auto simp: marked_def split: if_splits option.splits)
    then have "h \<in> set fs" "fi_alert_id h = al_id b" by (auto simp: find_Some_iff)
    with fire_loop_sound [OF fs(1)] obtain p t where p: "p \<in> set (read_pending_alerts db)" "t \<in> set ts"
      "h = fired_by p t" "crosses p t" by fastforce
    then obtain c where c: "c \<in> set (price_alerts db)" "p = pending_of c" by (auto simp: read_pending_alerts_def)
    have "al_id c = al_id b" using p(3) c(2) \<open>fi_alert_id h = al_id b\<close> by (simp add: fired_by_def)
    with assms(1) b(1) c(1) have "c = b" by (auto simp: pg_keys_ok_def serial_ok_def dest: inj_onD distinct_map [THEN iffD1])
    then have "fired_at t a" using h(2) p(3,4) c(2) by (simp add: fired_at_def fired_by_def pending_of_def)
    with p(2) show ?thesis by blast
  qed (use b in blast)
qed

section \<open>Properties\<close>

text \<open>
  C12: One alert check over a batch without NaN or infinite prices triggers exactly the pending
  alerts some trade of the batch crosses, each with the time and price of its earliest crossing
  trade, and leaves every other alert alone; checking the same batch again changes nothing.
\<close>

theorem check_alerts_exact:
  assumes "pg_keys_ok db" "\<forall>t \<in> set trades. price t \<noteq> NaN \<and> numeric_error (price t) = None"
    "check_alerts None trades db = (n, db')"
  shows "list_all2 (alerted trades) (price_alerts db) (price_alerts db') \<and>
    n = int (length (filter (\<lambda>a. al_triggered_at a = None \<and> (\<exists>t \<in> set trades. crosses (pending_of a) t))
      (price_alerts db))) \<and>
    pg_keys_ok db' \<and> check_alerts None trades db' = (0, db')"
proof (cases "trades = []")
  case True
  with assms show ?thesis by (auto simp: check_alerts_def alerted_def list_all2_refl)
next
  case False
  let ?hit = "\<lambda>d. List.map_filter (first_hit (sort_key trade_ts trades)) (read_pending_alerts d)"
  note v = check_alerts_value [OF assms(1) False assms(2)]
  have db': "n = int (length (?hit db))" "db' = db\<lparr> price_alerts := map (marked (?hit db)) (price_alerts db) \<rparr>"
    using v(1) assms(3) by simp_all
  have len: "length (List.map_filter g xs) = length (filter (\<lambda>x. g x \<noteq> None) xs)"
    for g :: "pending_alert \<Rightarrow> fired option" and xs
    by (induction xs) (auto simp: List.map_filter_simps split: option.splits)
  have n: "n = int (length (filter (\<lambda>a. al_triggered_at a = None \<and> (\<exists>t \<in> set trades. crosses (pending_of a) t))
      (price_alerts db)))"
    unfolding db'(1) len read_pending_alerts_def filter_map length_map filter_filter comp_def
    by (simp add: first_hit_None_iff conj_commute)
  have rel: "list_all2 (alerted trades) (price_alerts db) (price_alerts db')"
    using v(2) by (simp add: db'(2) list_all2_conv_all_nth)
  have keys: "pg_keys_ok db'" unfolding db'(2)
    by (intro pg_keys_ok_alerts [OF assms(1)]) (simp add: comp_def)
  have quiet: "\<not> (\<exists>t \<in> set trades. crosses (pending_of a) t)"
    if a: "a \<in> set (price_alerts db')" "al_triggered_at a = None" for a
  proof -
    obtain b where "b \<in> set (price_alerts db)" "alerted trades b a"
      using list_all2_in_right [OF rel a(1)] by blast
    from alerted_pending [OF this(2) a(2)] show ?thesis .
  qed
  have "first_hit (sort_key trade_ts trades) p = None" if p: "p \<in> set (read_pending_alerts db')" for p
  proof -
    obtain a where "p = pending_of a" "a \<in> set (price_alerts db')" "al_triggered_at a = None"
      using p unfolding read_pending_alerts_def set_map set_filter by blast
    with quiet show ?thesis unfolding first_hit_None_iff set_sort by blast
  qed
  then have "?hit db' = []" by (rule map_filter_None)
  then have "check_alerts None trades db' = (0, db')"
    by (simp add: check_alerts_value(1) [OF keys False assms(2)])
  with rel n keys show ?thesis by blast
qed

theorem check_alerts_exact_witness:
  "\<exists>db'. check_alerts None [nvda_trade 30 140, nvda_trade 20 131] alert_db = (1, db') \<and>
     map al_triggered_at (price_alerts db') = [Some 20]"
proof -
  let ?ts = "[nvda_trade 30 140, nvda_trade 20 131]"
  have ok: "\<forall>t \<in> set ?ts. price t \<noteq> NaN \<and> numeric_error (price t) = None"
    by (simp add: nvda_trade_def numeric_error_def)
  obtain n db' where c: "check_alerts None ?ts alert_db = (n, db')" by fastforce
  from check_alerts_exact [OF alert_db_ok ok c]
  have "list_all2 (alerted ?ts) [nvda_alert] (price_alerts db')" "n = 1"
    by (simp_all add: alert_db_def nvda_alert_def nvda_trade_def crosses_def pending_of_def ABOVE_def)
  then have "map al_triggered_at (price_alerts db') = [Some 20]"
    by (auto simp: list_all2_Cons1 alerted_def nvda_alert_def nvda_trade_def crosses_def pending_of_def
        ABOVE_def split: if_splits)
  with c \<open>n = 1\<close> show ?thesis by simp
qed

section \<open>Redis and PostgreSQL stay in step\<close>

text \<open>The hash of a symbol, when it is of the given day, has the day's high, low and count.\<close>

definition synced :: "redis \<Rightarrow> pg \<Rightarrow> int \<Rightarrow> string \<Rightarrow> bool" where
  "synced client db day s \<longleftrightarrow>
     (\<forall>v. from_redis (hgetall client (redis_key s)) = Inr v \<and> map_of v ''day'' = Some (VDay day) \<longrightarrow>
        coherent v (day_rows db s day))"

text \<open>A one-day batch of usable trades.\<close>

definition day_batch :: "int \<Rightarrow> trade list \<Rightarrow> bool" where
  "day_batch day trades \<longleftrightarrow> trades \<noteq> [] \<and>
     (\<forall>t \<in> set trades. trade_ok t \<and> date_of (trade_ts t) = day \<and> price t \<noteq> NaN)"

definition stored_prices_ok :: "pg \<Rightarrow> bool" where
  "stored_prices_ok db \<longleftrightarrow> (\<forall>r \<in> set (raw_trades db). float_ok (rt_price r) \<and> rt_price r \<noteq> NaN)"

lemma map_of_same_set: "distinct (map fst d) \<Longrightarrow> set d' = set d \<Longrightarrow> map_of d' = map_of d"
proof (rule ext)
  fix k assume d: "distinct (map fst d)" "set d' = set d"
  show "map_of d' k = map_of d k"
  proof (cases "map_of d' k")
    case None
    then have "k \<notin> fst ` set d" using d(2) by (simp add: map_of_eq_None_iff)
    then have "map_of d k = None" by (simp add: map_of_eq_None_iff)
    with None show ?thesis by simp
  next
    case (Some x)
    then have "(k, x) \<in> set d" using d(2) by (auto dest: map_of_SomeD)
    with d(1) Some show ?thesis by simp
  qed
qed

lemma coherent_map_of: "map_of d = map_of d' \<Longrightarrow> d \<noteq> [] \<Longrightarrow> d' \<noteq> [] \<Longrightarrow> coherent d rows = coherent d' rows"
  by (simp add: coherent_def holds_stats_def)

lemma stats_of_rows_ok:
  assumes "\<forall>r \<in> set rows. float_ok (rt_price r)"
  shows "stats_ok (stats_of_rows day rows)"
proof (cases rows)
  case (Cons r rs)
  have "min_by rt_ts r rs \<in> set rows" using min_by_in [of rt_ts r rs] Cons by simp
  moreover have "Max (rt_price ` set rows) \<in> rt_price ` set rows" "Min (rt_price ` set rows) \<in> rt_price ` set rows"
    using Cons by (intro Max_in Min_in; simp)+
  ultimately have "float_ok (rt_price (min_by rt_ts r rs))" "float_ok (Max (rt_price ` set rows))"
    "float_ok (Min (rt_price ` set rows))" using assms by auto
  with Cons show ?thesis
    by (simp add: stats_of_rows_def stats_ok_def entry_ok_def parser_of_def val_ok_def)
qed (simp add: stats_of_rows_def stats_ok_def)

lemma day_rows_subset: "set (day_rows db s day) \<subseteq> set (raw_trades db)"
  by (auto simp: day_rows_def)

text \<open>The values of a symbol after the flush: all eight fields, well typed, of the batch's day, in
  step with the rows of that day, with the newest trade of the batch.\<close>

definition fresh_values :: "pg \<Rightarrow> int \<Rightarrow> trade list \<Rightarrow> vals \<Rightarrow> string \<Rightarrow> bool" where
  "fresh_values db day bs v s \<longleftrightarrow> vals_ok v \<and> fst ` set v = set live_fields \<and>
     map_of v ''day'' = Some (VDay day) \<and> coherent v (day_rows db s day) \<and>
     (\<exists>t \<in> set bs. holds_latest v t \<and> (\<forall>u \<in> set bs. trade_ts u \<le> trade_ts t))"

text \<open>What happens to one symbol of the batch.\<close>

lemma merge_symbol:
  assumes "load_live_prices rf pf client db trades reseed = Some stored" "day_batch day trades"
    "stored_prices_ok db" "insert_rows now trades db = Inr db'" "s \<in> symbol ` set trades"
    "reseed \<or> synced client db day s"
  shows "\<exists>v v'. map_of stored s = Some v \<and> merge v (filter (\<lambda>t. symbol t = s) trades) = Inr v' \<and>
    map fst v' = live_fields \<and> fresh_values db' day (filter (\<lambda>t. symbol t = s) trades) v' s"
proof -
  let ?bs = "filter (\<lambda>t. symbol t = s) trades"
  have b: "trades \<noteq> []" "\<forall>t \<in> set trades. date_of (trade_ts t) = day" "\<forall>t \<in> set ?bs. trade_ok t"
    "NaN \<notin> prices ?bs" "?bs \<noteq> []"
    using assms(2,5) by (auto simp: day_batch_def prices_def filter_empty_conv)
  have "float_ok (rt_price r) \<and> rt_price r \<noteq> NaN" if "r \<in> set (day_rows db s day)" for r
    using assms(3) subsetD [OF day_rows_subset that] unfolding stored_prices_ok_def by blast
  then have nan: "NaN \<notin> rt_price ` set (day_rows db s day)"
    and fok: "\<forall>r \<in> set (day_rows db s day). float_ok (rt_price r)"
    unfolding image_iff by metis+
  obtain v where v: "map_of stored s = Some v" "v = stats_of_rows day (day_rows db s day) \<or>
     \<not> reseed \<and> from_redis (hgetall client (redis_key s)) = Inr v \<and> map_of v ''day'' = Some (VDay day)"
    using load_live_prices_Some [OF assms(1) b(1,2) assms(5)] by blast
  have co: "coherent v (day_rows db s day)" "stats_ok v"
    using v(2) assms(6) stats_coherent stats_of_rows_ok [OF fok] from_redis_stats_ok
    by (auto simp: synced_def)
  obtain new where new: "day_rows db' s day = day_rows db s day @ new"
    "list_all2 stored_as new (filter (\<lambda>t. symbol t = s \<and> date_of (trade_ts t) = day) trades)"
    using day_rows_insert [OF assms(4)] by metis
  have "filter (\<lambda>t. symbol t = s \<and> date_of (trade_ts t) = day) trades = ?bs"
    using b(2) by (auto intro!: filter_cong)
  with new(2) have "list_all2 stored_as new ?bs" by simp
  from merge_coherent [OF co(1) this b(5,4) nan] obtain v' lt where
    v': "merge v ?bs = Inr v'" "coherent v' (day_rows db' s day)" "lt \<in> set ?bs" "holds_latest v' lt"
    "\<forall>u \<in> set ?bs. trade_ts u \<le> trade_ts lt"
    using new(1) by metis
  have "date_of (trade_ts lt) = day" using v'(3) b(2) by auto
  with v'(4) have "map_of v' ''day'' = Some (VDay day)" by (simp add: holds_latest_def)
  moreover have "map fst v' = live_fields" by (rule merge_fields [OF v'(1)])
  moreover from this have "fst ` set v' = set live_fields" by (metis set_map)
  ultimately have "fresh_values db' day ?bs v' s"
    using v' merge_ok [OF v'(1) co(2) b(3)] unfolding fresh_values_def by blast
  with v(1) v'(1) \<open>map fst v' = live_fields\<close> show ?thesis by blast
qed

lemma save_live_prices_Done:
  assumes "merged_values stored trades = Inr vs" "save_live_prices Done client stored trades = (ok, client')"
  shows "write_live_prices Done client vs = (Inr (), client')" "ok"
  using assms by (auto simp: save_live_prices_def write_live_prices_def Let_def)

lemma fresh_values_same_set:
  assumes "fresh_values db day bs v s" "map fst v = live_fields" "set d = set v" "distinct (map fst d)"
  shows "fresh_values db day bs d s"
proof -
  have "distinct (map fst v)" "list_all entry_ok v" using assms(1) by (auto simp: fresh_values_def vals_ok_def)
  then have m: "map_of d = map_of v" "list_all entry_ok d"
    using map_of_same_set [of v d] assms(3) by (simp_all add: list_all_iff)
  have "v \<noteq> []" "d \<noteq> []" using assms(2,3) by (auto simp: live_fields_def)
  from coherent_map_of [OF m(1) this(2,1)] have "coherent d (day_rows db s day) = coherent v (day_rows db s day)" .
  moreover have "holds_latest d t = holds_latest v t" for t using m(1) by (simp add: holds_latest_def)
  ultimately show ?thesis using assms m unfolding fresh_values_def vals_ok_def by simp
qed

lemma flush_hashes:
  assumes "load_live_prices rf pf client db trades reseed = Some stored" "day_batch day trades"
    "stored_prices_ok db" "insert_rows now trades db = Inr db'" "redis_ok client"
    "\<forall>s \<in> symbol ` set trades. reseed \<or> synced client db day s"
    "save_live_prices Done client stored trades = (ok, client')"
  shows "ok" "redis_ok client'" "k \<notin> redis_key ` symbol ` set trades \<Longrightarrow> client' k = client k"
    "s \<in> symbol ` set trades \<Longrightarrow> \<exists>d. from_redis (hgetall client' (redis_key s)) = Inr d \<and>
      fresh_values db' day (filter (\<lambda>t. symbol t = s) trades) d s"
proof -
  let ?syms = "dedup (map symbol trades)" and ?of = "\<lambda>s. filter (\<lambda>t. symbol t = s) trades"
  have "\<exists>v'. (\<exists>v. map_of stored s = Some v \<and> merge v (?of s) = Inr v') \<and>
      map fst v' = live_fields \<and> fresh_values db' day (?of s) v' s" if "s \<in> symbol ` set trades" for s
    using merge_symbol [OF assms(1-4) that] assms(6) that by blast
  then obtain g where g: "\<And>s. s \<in> symbol ` set trades \<Longrightarrow>
      (\<exists>v. map_of stored s = Some v \<and> merge v (?of s) = Inr (g s)) \<and>
      map fst (g s) = live_fields \<and> fresh_values db' day (?of s) (g s) s" by metis
  let ?vs = "map (\<lambda>s. (s, g s)) ?syms"
  have mv: "merged_values stored trades = Inr ?vs"
    unfolding merged_values_def
  proof (rule map_result_all_ok)
    fix s assume "s \<in> set ?syms"
    then obtain v where "map_of stored s = Some v" "merge v (?of s) = Inr (g s)"
      using g [of s] by auto
    then show "(case map_of stored s of None \<Rightarrow> Inl KeyError
       | Some v \<Rightarrow> rbind (merge v (?of s)) (\<lambda>v'. Inr (s, v'))) = Inr (s, g s)" by simp
  qed
  note w = save_live_prices_Done [OF mv assms(7)]
  have vs: "distinct (map fst ?vs)" "\<forall>(s, v) \<in> set ?vs. vals_ok v \<and> map fst v = live_fields"
    using g by (auto simp: comp_def fresh_values_def)
  note wrote = write_live_prices_Done [OF assms(5) vs w(1)]
  have keys: "redis_key ` fst ` set ?vs = redis_key ` symbol ` set trades" by (simp add: image_image)
  show "ok" "redis_ok client'" using w(2) wrote(2) by blast+
  show "k \<notin> redis_key ` symbol ` set trades \<Longrightarrow> client' k = client k" using wrote(3) unfolding keys .
  show "\<exists>d. from_redis (hgetall client' (redis_key s)) = Inr d \<and> fresh_values db' day (?of s) d s"
    if s: "s \<in> symbol ` set trades"
  proof -
    have "(s, g s) \<in> set ?vs" using s by auto
    from wrote(4) [OF this] obtain d where d: "from_redis (hgetall client' (redis_key s)) = Inr d" "set d = set (g s)"
      by blast
    have "distinct (map fst d)"
      using d(1) wrote(2) from_redis_fields by (metis redis_ok_def hgetall_def)
    with fresh_values_same_set [of db' day "?of s" "g s" s d] g [OF s] d show ?thesis by blast
  qed
qed

text \<open>
  C8: A flush that loads the live prices, inserts its batch and has its write applied by Redis
  leaves the hash of every symbol of the batch with exactly the high, low and number of trades
  PostgreSQL now holds for that symbol and day. It reports success, keeps Redis well-formed and touches no other key.
  This holds under four conditions: the batch is of one day, its trades usable and none with a NaN
  price; no trade stored before has a NaN price (with one it is false:
  \<open>nan_price_forgets_high\<close>); every hash of Redis holds the service's fields only, each once;
  and, for every symbol of the batch, the flush reseeded or the hash it started from was in step with the table.
\<close>

theorem flush_keeps_redis_in_step:
  assumes "load_live_prices rf pf client db trades reseed = Some stored" "day_batch day trades"
    "stored_prices_ok db" "insert_rows now trades db = Inr db'" "redis_ok client"
    "\<forall>s \<in> symbol ` set trades. reseed \<or> synced client db day s"
    "save_live_prices Done client stored trades = (ok, client')"
  shows "ok \<and> redis_ok client' \<and>
    (\<forall>s \<in> symbol ` set trades. synced client' db' day s \<and>
       (\<exists>v. from_redis (hgetall client' (redis_key s)) = Inr v \<and> map_of v ''day'' = Some (VDay day) \<and>
          coherent v (day_rows db' s day))) \<and>
    (\<forall>k. k \<notin> redis_key ` symbol ` set trades \<longrightarrow> client' k = client k)"
proof -
  note f = flush_hashes [OF assms]
  have "synced client' db' day s \<and> (\<exists>v. from_redis (hgetall client' (redis_key s)) = Inr v \<and>
      map_of v ''day'' = Some (VDay day) \<and> coherent v (day_rows db' s day))" if "s \<in> symbol ` set trades" for s
    using f(4) [OF that] by (auto simp: fresh_values_def synced_def)
  with f(1-3) show ?thesis by blast
qed

lemma sample_batch: "day_batch 0 [sample 1 (Fin 5)]"
  using sample_ok by (simp add: day_batch_def) (simp add: sample_def date_of_def)

lemma sample_load:
  "load_live_prices None None (\<lambda>k. []) empty_pg [sample 1 (Fin 5)] True = Some [(''NVDA'', [])]"
proof -
  have "batch_symbols [sample 1 (Fin 5)] = [''NVDA'']" by (simp add: batch_symbols_def sample_def)
  moreover have "py_max trade_ts [sample 1 (Fin 5)] = Inr (sample 1 (Fin 5))" by (simp add: py_max_def)
  moreover have "date_of (trade_ts (sample 1 (Fin 5))) = 0" by (simp add: sample_def date_of_def)
  ultimately show ?thesis
    by (simp add: load_live_prices_def stored_day_def transaction_def read_day_stats_def
        day_in_range_def day_rows_def empty_pg_def stats_of_rows_def dedup_def dict_merge_def)
qed

lemma sample_insert: "\<exists>db'. insert_rows now [sample 1 (Fin 5)] empty_pg = Inr db'"
  by (simp add: trade_error_def sample_def text_error_def numeric_error_def)

theorem flush_keeps_redis_in_step_witness:
  "\<exists>db' client' v. insert_rows 0 [sample 1 (Fin 5)] empty_pg = Inr db' \<and>
     save_live_prices Done (\<lambda>k. []) [(''NVDA'', [])] [sample 1 (Fin 5)] = (True, client') \<and>
     from_redis (hgetall client' (redis_key ''NVDA'')) = Inr v \<and> coherent v (day_rows db' ''NVDA'' 0)"
proof -
  obtain db' where db': "insert_rows 0 [sample 1 (Fin 5)] empty_pg = Inr db'" using sample_insert by blast
  obtain ok client' where s: "save_live_prices Done (\<lambda>k. []) [(''NVDA'', [])] [sample 1 (Fin 5)] = (ok, client')"
    by fastforce
  have pre: "stored_prices_ok empty_pg" "redis_ok (\<lambda>k. [])"
    by (simp_all add: stored_prices_ok_def empty_pg_def redis_ok_def)
  have "symbol (sample 1 (Fin 5)) = ''NVDA''" by (simp add: sample_def)
  with flush_keeps_redis_in_step [OF sample_load sample_batch pre(1) db' pre(2) _ s]
  have "ok" "\<exists>v. from_redis (hgetall client' (redis_key ''NVDA'')) = Inr v \<and> coherent v (day_rows db' ''NVDA'' 0)"
    by auto
  with db' s show ?thesis by auto
qed

text \<open>
  The reseed flag is forgotten too early. A flush that runs with the flag set and succeeds
  rebuilds only the symbols of its own batch and clears the flag; the hash of any other symbol
  stays as it was, and the next flush of that symbol takes a hash of the same day from Redis as
  it is, whatever PostgreSQL holds by then.
\<close>

theorem reseed_skips_other_symbols:
  assumes "load_live_prices rf pf client db trades True = Some stored" "day_batch day trades"
    "stored_prices_ok db" "insert_rows now trades db = Inr db'" "redis_ok client"
    "save_live_prices Done client stored trades = (ok, client')" "s \<notin> symbol ` set trades"
    "from_redis (hgetall client (redis_key s)) = Inr v" "map_of v ''day'' = Some (VDay day)"
    "day_batch day later" "\<forall>t \<in> set later. symbol t = s"
  shows "ok \<and> load_live_prices None pf' client' db'' later (\<not> ok) = Some [(s, v)]"
proof -
  have sync: "\<forall>s \<in> symbol ` set trades. True \<or> synced client db day s" by simp
  note f = flush_hashes [OF assms(1-5) sync assms(6)]
  have same: "client' (redis_key s) = client (redis_key s)" 
    by (rule f(3)) (use assms(7) in \<open>simp add: image_image image_iff\<close>)
  have ne: "later \<noteq> []" using assms(10) by (simp add: day_batch_def)
  then have syms: "batch_symbols later = [s]"
    using assms(11) by (intro sorted_distinct_single distinct_batch_symbols) (auto simp: neq_Nil_conv)
  obtain lt where lt: "py_max trade_ts later = Inr lt" "lt \<in> set later"
    using latest_exists [OF ne] by metis
  have "date_of (trade_ts lt) = day" using assms(10) lt(2) by (simp add: day_batch_def)
  moreover have "read_live_prices None client' [s] = Inr [(s, v)]"
    using assms(8) same by (simp add: read_live_prices_def hgetall_def)
  ultimately have "load_live_prices None pf' client' db'' later False = Some [(s, v)]"
    using ne syms lt(1) assms(9) by (simp add: load_live_prices_def Let_def stored_day_def)
  with f(1) show ?thesis by simp
qed

definition old_hash :: redis where
  "old_hash = (\<lambda>k. if k = redis_key ''AMZN'' then to_redis [(''day'', VDay 0)] else [])"

lemma old_hash_read: "from_redis (hgetall old_hash (redis_key ''AMZN'')) = Inr [(''day'', VDay 0)]"
  by (simp add: old_hash_def hgetall_def from_to_redis entry_ok_def parser_of_def val_ok_def day_in_range_def)

lemma old_hash_ok: "redis_ok old_hash"
  by (auto simp: redis_ok_def old_hash_def live_fields_def to_redis_def show_entry_def)

theorem reseed_skips_other_symbols_witness:
  "\<exists>client' ok. save_live_prices Done old_hash [(''NVDA'', [])] [sample 1 (Fin 5)] = (ok, client') \<and>
     load_live_prices None None client' empty_pg [(sample 2 (Fin 6))\<lparr>symbol := ''AMZN''\<rparr>] (\<not> ok) =
       Some [(''AMZN'', [(''day'', VDay 0)])]"
proof -
  obtain db' where db': "insert_rows 0 [sample 1 (Fin 5)] empty_pg = Inr db'" using sample_insert by blast
  obtain ok client' where s: "save_live_prices Done old_hash [(''NVDA'', [])] [sample 1 (Fin 5)] = (ok, client')"
    by fastforce
  have l: "load_live_prices None None old_hash empty_pg [sample 1 (Fin 5)] True = Some [(''NVDA'', [])]"
    using sample_load by (simp add: load_live_prices_def)
  have pre: "stored_prices_ok empty_pg" by (simp add: stored_prices_ok_def empty_pg_def)
  have later: "day_batch 0 [(sample 2 (Fin 6))\<lparr>symbol := ''AMZN''\<rparr>]"
    by (simp add: day_batch_def trade_ok_def sample_def time_in_range_def is_double_numeral date_of_def)
  have r: "''AMZN'' \<notin> symbol ` set [sample 1 (Fin 5)]" "map_of [(''day'', VDay 0)] ''day'' = Some (VDay 0)"
    "\<forall>t \<in> set [(sample 2 (Fin 6))\<lparr>symbol := ''AMZN''\<rparr>]. symbol t = ''AMZN''"
    by (simp_all add: sample_def)
  show ?thesis
    using reseed_skips_other_symbols [OF l sample_batch pre db' old_hash_ok s r(1) old_hash_read r(2) later r(3)] s
    by blast
qed

end
