(* ===== verification/Backoff.thy ===== *)
theory Backoff
  imports PyFloat
begin

text \<open>
  Reconnect backoff (stream/backoff.py). \<open>random.uniform(a, b)\<close> is \<open>a + (b - a) * random()\<close>;
  the value of \<open>random()\<close>, a float in the half-open unit interval, is an argument.
\<close>

section \<open>ExponentialBackoff\<close>

definition MAX_EXPONENT :: nat where
  "MAX_EXPONENT = 32"

record backoff =
  min_seconds :: pyfloat
  max_seconds :: pyfloat
  attempts :: nat

definition uniform :: "rat \<Rightarrow> pyfloat \<Rightarrow> pyfloat \<Rightarrow> pyfloat" where
  "uniform u a b = fadd a (fmul (fsub b a) (Fin u))"

definition capped :: "backoff \<Rightarrow> pyfloat" where
  "capped b = fmin2 (fmul (min_seconds b) (Fin (2 ^ min (attempts b) MAX_EXPONENT))) (max_seconds b)"

definition next_delay :: "rat \<Rightarrow> backoff \<Rightarrow> pyfloat \<times> backoff" where
  "next_delay u b =
     (uniform u (fdiv_const (capped b) 2) (capped b), b\<lparr>attempts := attempts b + 1\<rparr>)"

definition reset :: "backoff \<Rightarrow> backoff" where
  "reset b = b\<lparr>attempts := 0\<rparr>"

text \<open>A backoff the configuration admits: finite positive bounds in order.\<close>

definition backoff_ok :: "backoff \<Rightarrow> bool" where
  "backoff_ok b \<longleftrightarrow> (\<exists>m M. min_seconds b = Fin m \<and> max_seconds b = Fin M \<and>
     is_double m \<and> is_double M \<and> 0 < m \<and> m \<le> M)"

section \<open>Exactness of the scaling steps\<close>

lemma rnd_scale_pow2:
  assumes "is_double q" "0 < q"
  shows "rnd (q * 2 ^ k) = (if q * 2 ^ k < 2 ^ 1024 then Fin (q * 2 ^ k) else PosInf)"
proof -
  obtain m e where me: "0 < m" "m \<le> 2 ^ 53" "- 1074 \<le> e" "q = of_int m * 2 powi e"
    using double_grid [OF assms] by blast
  have q: "q * 2 ^ k = of_int m * 2 powi (e + int k)"
    using powi2_add [of e "int k"] by (simp add: me(4) mult.assoc)
  have "rnd_fin (q * 2 ^ k) = q * 2 ^ k"
    unfolding q using me by (intro rnd_fin_exact_pos [of m "e + int k"]) auto
  moreover have "0 \<le> q * 2 ^ k" using assms(2) by simp
  ultimately show ?thesis by (auto simp: rnd_def Let_def)
qed

text \<open>Halving rounds to a double whose distance to the original is again a double.\<close>

lemma half_double:
  assumes "is_double c" "0 < c"
  obtains a where "rnd (c / 2) = Fin a" "0 \<le> a" "a \<le> c" "is_double a" "is_double (c - a)"
proof -
  obtain m e where me: "0 < m" "m \<le> 2 ^ 53" "- 1074 \<le> e" "c = of_int m * 2 powi e"
    using double_grid [OF assms] by blast
  have big: "c < 2 ^ 1024" using is_double_less [OF assms(1)] .
  let ?a = "rnd_fin (c / 2)"
  have rc: "rnd_fin c = c" using assms(1) by (auto simp: is_double_def rnd_def Let_def split: if_splits)
  have a0: "0 \<le> ?a" using assms(2) by (intro rnd_fin_nonneg) simp
  have ac: "?a \<le> c" using rnd_fin_mono [of "c / 2" c] assms(2) rc by simp
  have ra: "rnd (c / 2) = Fin ?a" using a0 ac big by (simp add: rnd_def Let_def)
  have "is_double (c - ?a)"
  proof (cases "e = - 1074")
    case True
    obtain k f where kf: "0 \<le> k" "k \<le> 2 ^ 53" "- 1074 \<le> f" "?a = of_int k * 2 powi f"
      using rnd_fin_grid [of "c / 2"] assms(2) by auto
    define j where "j = k * 2 ^ nat (f + 1074)"
    have "(2::rat) powi f = 2 powi (f + 1074) * 2 powi (- 1074)"
      by (simp only: powi2_add) simp
    also have "(2::rat) powi (f + 1074) = of_int (2 ^ nat (f + 1074))"
      using kf(3) by (simp add: power_int_def)
    finally have aj: "?a = of_int j * 2 powi (- 1074)"
      using kf(4) by (simp only: j_def of_int_mult mult.assoc)
    have d: "c - ?a = of_int (m - j) * 2 powi (- 1074)"
      using me(4) True aj by (simp only: of_int_diff left_diff_distrib)
    have "0 \<le> of_int (m - j) * (2::rat) powi (- 1074)" using ac d by simp
    then have "0 \<le> m - j" by (simp add: zero_le_mult_iff)
    moreover have "0 \<le> j" using kf(1) by (simp add: j_def)
    ultimately show ?thesis unfolding d using me a0 big d
      by (intro grid_double) auto
  next
    case False
    then have h: "c / 2 = of_int m * 2 powi (e - 1)"
      using powi2_add [of "e - 1" 1] by (simp add: me(4))
    have a: "?a = c / 2"
      unfolding h using me False by (intro rnd_fin_exact_pos [of m "e - 1"]) auto
    have "is_double (c / 2)"
      unfolding h using me False big h assms(2) by (intro grid_double) auto
    moreover have "c - c / 2 = c / 2" by simp
    ultimately show ?thesis by (simp only: a)
  qed
  with that ra a0 ac rnd_is_double [OF ra] show ?thesis by blast
qed

lemma capped_eq:
  assumes "backoff_ok b" "min_seconds b = Fin m" "max_seconds b = Fin M"
  shows "capped b = Fin (min (m * 2 ^ min (attempts b) MAX_EXPONENT) M)"
proof -
  have mM: "is_double m" "is_double M" "0 < m" "m \<le> M" using assms by (auto simp: backoff_ok_def)
  show ?thesis
    using rnd_scale_pow2 [OF mM(1,3), of "min (attempts b) MAX_EXPONENT"] is_double_less [OF mM(2)]
    by (auto simp: capped_def assms fmin2_def min_def less_pyfloat_def)
qed

lemma uniform_within:
  assumes "is_double c" "0 < c" "0 \<le> u" "u \<le> 1" "rnd (c / 2) = Fin a"
  shows "\<exists>d. uniform u (Fin a) (Fin c) = Fin d \<and> a \<le> d \<and> d \<le> c"
proof -
  obtain a' where a: "rnd (c / 2) = Fin a'" "0 \<le> a'" "a' \<le> c" "is_double a'" "is_double (c - a')"
    using half_double [OF assms(1,2)] .
  then have [simp]: "a' = a" using assms(5) by simp
  have "rnd ((c - a) * u) \<le> rnd (c - a)"
    using a(3) assms(4) by (intro rnd_mono) (simp add: mult_left_le)
  also have "rnd (c - a) = Fin (c - a)" using a(5) by (simp add: rnd_double)
  finally have "rnd ((c - a) * u) \<le> Fin (c - a)" .
  moreover have "Fin 0 \<le> rnd ((c - a) * u)"
    using rnd_mono [of 0 "(c - a) * u"] a(3) assms(3) by simp
  ultimately obtain w where w: "rnd ((c - a) * u) = Fin w" "0 \<le> w" "w \<le> c - a"
    by (cases "rnd ((c - a) * u)") auto
  have "Fin a = rnd a" using a(4) by (simp add: rnd_double)
  also have "\<dots> \<le> rnd (a + w)" using w(2) by (intro rnd_mono) simp
  finally have lo: "Fin a \<le> rnd (a + w)" .
  have "rnd (a + w) \<le> rnd c" using w(3) by (intro rnd_mono) simp
  also have "\<dots> = Fin c" using assms(1) by (rule rnd_double)
  finally have hi: "rnd (a + w) \<le> Fin c" .
  have "uniform u (Fin a) (Fin c) = rnd (a + w)"
    using a(5) w(1) by (simp add: uniform_def fsub_def rnd_double)
  with lo hi show ?thesis by (cases "rnd (a + w)") auto
qed

lemma next_delay_within:
  assumes "backoff_ok b" "min_seconds b = Fin m" "max_seconds b = Fin M" "0 \<le> u" "u \<le> 1"
  defines "cap \<equiv> min (m * 2 ^ min (attempts b) MAX_EXPONENT) M"
  shows "\<exists>d. fst (next_delay u b) = Fin d \<and> rnd (cap / 2) \<le> Fin d \<and> d \<le> cap \<and> d \<le> M \<and>
    snd (next_delay u b) = b\<lparr>attempts := attempts b + 1\<rparr> \<and> backoff_ok (snd (next_delay u b))"
proof -
  have mM: "is_double m" "is_double M" "0 < m" "m \<le> M" using assms(1-3) by (auto simp: backoff_ok_def)
  have cap: "capped b = Fin cap" unfolding cap_def by (rule capped_eq [OF assms(1-3)])
  have pos: "0 < cap" using mM by (simp add: cap_def)
  have "is_double cap"
    using rnd_scale_pow2 [OF mM(1,3), of "min (attempts b) MAX_EXPONENT"] is_double_less [OF mM(2)] mM(2)
    by (auto simp: cap_def min_def is_double_def split: if_splits)
  from this pos obtain a where a: "rnd (cap / 2) = Fin a" using half_double by blast
  obtain d where d: "uniform u (Fin a) (Fin cap) = Fin d" "a \<le> d" "d \<le> cap"
    using uniform_within [OF \<open>is_double cap\<close> pos assms(4,5) a] by blast
  moreover have "cap \<le> M" by (simp add: cap_def)
  ultimately show ?thesis using assms(1)
    by (intro exI [of _ d]) (auto simp: next_delay_def cap a backoff_ok_def)
qed

section \<open>Properties\<close>

text \<open>
  C34: With finite positive bounds, the delay of attempt \<open>n\<close> is a finite float between half of
  the cap \<open>min(min_seconds * 2^min(n, 32), max_seconds)\<close> and the cap, in floating-point
  arithmetic and for every value of the random source; the scaling never overflows into the
  result, the attempt count grows by one, the bounds are untouched, and the delay never
  exceeds \<open>max_seconds\<close>.
\<close>

theorem next_delay_bounds:
  assumes "backoff_ok b" "min_seconds b = Fin m" "max_seconds b = Fin M" "0 \<le> u" "u \<le> 1"
  defines "cap \<equiv> min (m * 2 ^ min (attempts b) MAX_EXPONENT) M"
  shows "\<exists>d. fst (next_delay u b) = Fin d \<and> rnd (cap / 2) \<le> Fin d \<and> d \<le> cap \<and> d \<le> M \<and>
    snd (next_delay u b) = b\<lparr>attempts := attempts b + 1\<rparr> \<and> backoff_ok (snd (next_delay u b))"
  using next_delay_within [OF assms(1-5)] unfolding cap_def .

definition default_backoff :: "nat \<Rightarrow> backoff" where
  "default_backoff n = \<lparr> min_seconds = Fin 1, max_seconds = Fin 60, attempts = n \<rparr>"

lemma default_backoff_ok: "backoff_ok (default_backoff n)"
  by (simp add: backoff_ok_def default_backoff_def is_double_numeral)

text \<open>The default configuration after five failures: the cap is 32 of at most 60 seconds.\<close>

theorem next_delay_bounds_witness:
  "\<exists>d. fst (next_delay (1/4) (default_backoff 5)) = Fin d \<and> d \<le> 32 \<and>
     attempts (snd (next_delay (1/4) (default_backoff 5))) = 6"
proof -
  have "min (1 * 2 ^ min (attempts (default_backoff 5)) MAX_EXPONENT) 60 = (32::rat)"
    by (simp add: default_backoff_def MAX_EXPONENT_def)
  with next_delay_bounds [OF default_backoff_ok, of 5 1 60 "1/4"] show ?thesis
    by (auto simp: default_backoff_def)
qed

end
