(* ===== verification/StreamConfig.thy ===== *)
theory StreamConfig
  imports PyEnv Backoff
begin

text \<open>The configuration of the stream service (stream/config.py).\<close>

definition STREAM_DEFAULTS :: "(string \<times> string) list" where
  "STREAM_DEFAULTS =
     [(''STOCK_SYMBOLS'', ''AMZN,NVDA,GOOGL,TSLA,NFLX''),
      (''FINNHUB_WS_URL'', ''wss://ws.finnhub.io''),
      (''FINNHUB_BASE_URL'', ''https://finnhub.io/api/v1''),
      (''FINNHUB_TIMEOUT_SECONDS'', ''10''),
      (''FLUSH_INTERVAL_SECONDS'', ''1''),
      (''FLUSH_MAX_ROWS'', ''500''),
      (''RECONNECT_MIN_SECONDS'', ''1''),
      (''RECONNECT_MAX_SECONDS'', ''60''),
      (''MARKET_STATUS_INTERVAL_SECONDS'', ''60''),
      (''STALE_AFTER_SECONDS'', ''90''),
      (''REDIS_URL'', ''redis://redis:6379/0'')]"

text \<open>\<open>dict.fromkeys\<close> keeps the first occurrence of each symbol.\<close>

definition parse_symbols :: "string \<Rightarrow> string list result" where
  "parse_symbols raw =
     (let cleaned = map (\<lambda>piece. upper (strip piece)) (split_on CHR '','' raw);
          symbols = dedup (filter (\<lambda>piece. piece \<noteq> []) cleaned)
      in if symbols = [] then Inl (ConfigError ''STOCK_SYMBOLS has no usable symbols in it'')
         else Inr symbols)"

record stream_config =
  api_key :: string
  symbols :: "string list"
  ws_url :: string
  base_url :: string
  timeout_seconds :: pyfloat
  flush_interval_seconds :: pyfloat
  flush_max_rows :: int
  reconnect_min_seconds :: pyfloat
  reconnect_max_seconds :: pyfloat
  market_status_interval_seconds :: pyfloat
  stale_after_seconds :: pyfloat
  redis_url :: string

definition ws_endpoint :: "stream_config \<Rightarrow> string" where
  "ws_endpoint c = ws_url c @ ''?token='' @ api_key c"

definition load_stream_config :: "env \<Rightarrow> stream_config result" where
  "load_stream_config e =
     rbind (read_number STREAM_DEFAULTS e ''FINNHUB_TIMEOUT_SECONDS'' float_of_str) (\<lambda>timeout.
     rbind (read_number STREAM_DEFAULTS e ''FLUSH_INTERVAL_SECONDS'' float_of_str) (\<lambda>flush_interval.
     rbind (read_number STREAM_DEFAULTS e ''FLUSH_MAX_ROWS'' int_setting) (\<lambda>max_rows.
     rbind (read_number STREAM_DEFAULTS e ''RECONNECT_MIN_SECONDS'' float_of_str) (\<lambda>rmin.
     rbind (read_number STREAM_DEFAULTS e ''RECONNECT_MAX_SECONDS'' float_of_str) (\<lambda>rmax.
     rbind (read_number STREAM_DEFAULTS e ''MARKET_STATUS_INTERVAL_SECONDS'' float_of_str) (\<lambda>status_interval.
     rbind (read_number STREAM_DEFAULTS e ''STALE_AFTER_SECONDS'' float_of_str) (\<lambda>stale_after.
     rbind (reject (py_le timeout (Fin 0)) ''FINNHUB_TIMEOUT_SECONDS must be positive'') (\<lambda>_.
     rbind (reject (py_le flush_interval (Fin 0)) ''FLUSH_INTERVAL_SECONDS must be positive'') (\<lambda>_.
     rbind (reject (max_rows < 1) ''FLUSH_MAX_ROWS must be at least 1'') (\<lambda>_.
     rbind (reject (py_le rmin (Fin 0)) ''RECONNECT_MIN_SECONDS must be positive'') (\<lambda>_.
     rbind (reject (py_lt rmax rmin) ''RECONNECT_MAX_SECONDS cannot be below RECONNECT_MIN_SECONDS'') (\<lambda>_.
     rbind (reject (py_le status_interval (Fin 0)) ''MARKET_STATUS_INTERVAL_SECONDS must be positive'') (\<lambda>_.
     rbind (reject (py_le stale_after flush_interval) ''STALE_AFTER_SECONDS must be above FLUSH_INTERVAL_SECONDS'') (\<lambda>_.
     rbind (read_required e ''FINNHUB_API_KEY'' ''Get a free key at finnhub.io and put it in .env'') (\<lambda>key.
     rbind (rbind (env_or STREAM_DEFAULTS e ''STOCK_SYMBOLS'') parse_symbols) (\<lambda>syms.
     rbind (env_or STREAM_DEFAULTS e ''FINNHUB_WS_URL'') (\<lambda>ws.
     rbind (env_or STREAM_DEFAULTS e ''FINNHUB_BASE_URL'') (\<lambda>base.
     rbind (env_or STREAM_DEFAULTS e ''REDIS_URL'') (\<lambda>redis.
       Inr \<lparr> api_key = key, symbols = syms, ws_url = rstrip (\<lambda>c. c = CHR ''/'') ws,
             base_url = rstrip (\<lambda>c. c = CHR ''/'') base, timeout_seconds = timeout,
             flush_interval_seconds = flush_interval, flush_max_rows = max_rows,
             reconnect_min_seconds = rmin, reconnect_max_seconds = rmax,
             market_status_interval_seconds = status_interval,
             stale_after_seconds = stale_after, redis_url = redis \<rparr>)))))))))))))))))))"

section \<open>Symbols\<close>

text \<open>What the rest of the service relies on of a symbol list.\<close>

definition symbols_ok :: "string list \<Rightarrow> bool" where
  "symbols_ok ss \<longleftrightarrow> ss \<noteq> [] \<and> distinct ss \<and>
     (\<forall>s \<in> set ss. s \<noteq> [] \<and> upper s = s \<and> strip s = s \<and> CHR '','' \<notin> set s)"

lemma to_upper_comma: "to_upper c = CHR '','' \<longleftrightarrow> c = CHR '',''"
proof -
  have "char_code CHR '','' = 44" by (simp add: char_code_def)
  moreover have "char_code (to_upper c) = char_code c \<or>
      char_code (to_upper c) = char_code c - 32 \<and> 97 \<le> char_code c"
    by (auto simp: to_upper_def Let_def char_code_char_of)
  moreover have "x = y \<longleftrightarrow> char_code x = char_code y" for x y by (simp add: char_code_def)
  ultimately show ?thesis by (auto simp: to_upper_def Let_def)
qed

lemma comma_upper: "CHR '','' \<in> set (upper s) \<longleftrightarrow> CHR '','' \<in> set s"
  unfolding upper_def set_map image_iff using to_upper_comma by metis

lemma strip_upper: "strip s = s \<Longrightarrow> strip (upper s) = upper s"
proof (cases s)
  case (Cons a t)
  assume "strip s = s"
  with Cons hd_strip [of s] last_strip [of s] have "\<not> is_space (hd s)" "\<not> is_space (last s)" by auto
  with Cons show ?thesis by (intro strip_id) (auto simp: upper_def last_map)
qed (simp add: upper_def strip_id)

lemma parse_symbols_ok:
  assumes "parse_symbols raw = Inr ss"
  shows "symbols_ok ss"
proof -
  have ss: "ss = dedup (filter (\<lambda>p. p \<noteq> []) (map (\<lambda>p. upper (strip p)) (split_on CHR '','' raw)))" "ss \<noteq> []"
    using assms by (auto simp: parse_symbols_def Let_def split: if_splits)
  have "upper (strip p) = upper (upper (strip p)) \<and> strip (upper (strip p)) = upper (strip p) \<and>
      CHR '','' \<notin> set (upper (strip p))" if "p \<in> set (split_on CHR '','' raw)" for p
    using sep_notin_split [OF that] set_strip [of p] by (auto simp: strip_upper comma_upper)
  with ss show ?thesis by (auto simp: symbols_ok_def)
qed

lemma parse_symbols_join:
  assumes "symbols_ok ss"
  shows "parse_symbols (join_with '','' ss) = Inr ss"
proof -
  have "split_on CHR '','' (join_with '','' ss) = ss"
    using assms by (intro split_join) (auto simp: symbols_ok_def)
  moreover have "map (\<lambda>p. upper (strip p)) ss = ss" "filter (\<lambda>p. p \<noteq> []) ss = ss"
    using assms by (auto simp: symbols_ok_def map_idI filter_id_conv)
  ultimately show ?thesis using assms
    by (simp add: parse_symbols_def Let_def symbols_ok_def dedup_distinct)
qed

section \<open>Properties\<close>

lemma strip_Nil_iff: "strip s = [] \<longleftrightarrow> (\<forall>c \<in> set s. is_space c)"
proof
  assume "strip s = []"
  then have "\<forall>c \<in> set (dropWhile is_space s). is_space c"
    by (auto simp: strip_def rstrip_def lstrip_def dest: set_dropWhileD)
  then have "dropWhile is_space s = []"
    using hd_dropWhile [of is_space s] by (cases "dropWhile is_space s") auto
  then show "\<forall>c \<in> set s. is_space c" by simp
next
  assume "\<forall>c \<in> set s. is_space c"
  then have "dropWhile is_space s = []" by simp
  then show "strip s = []" by (simp add: strip_def rstrip_def lstrip_def del: dropWhile_eq_Nil_conv)
qed

lemma map_upper_Nil [simp]: "upper s = [] \<longleftrightarrow> s = []"
  by (simp add: upper_def)

text \<open>
  \<open>parse_symbols\<close> fails exactly when no comma-separated piece holds a character other than
  white space. Otherwise the symbols are distinct, non-empty, upper case, trimmed and free of
  commas, and they are a normal form: joining them with commas, as the session row does, parses
  back to the same list.
\<close>

theorem parse_symbols_normal_form:
  "(parse_symbols raw = Inl (ConfigError ''STOCK_SYMBOLS has no usable symbols in it'') \<longleftrightarrow>
      (\<forall>p \<in> set (split_on CHR '','' raw). \<forall>c \<in> set p. is_space c)) \<and>
   (parse_symbols raw = Inr ss \<longrightarrow> symbols_ok ss \<and> parse_symbols (join_with '','' ss) = Inr ss)"
proof -
  have "parse_symbols raw = Inl (ConfigError ''STOCK_SYMBOLS has no usable symbols in it'') \<longleftrightarrow>
      (\<forall>p \<in> set (split_on CHR '','' raw). strip p = [])"
    by (auto simp: parse_symbols_def Let_def filter_empty_conv)
  then show ?thesis using parse_symbols_ok parse_symbols_join strip_Nil_iff by blast
qed

theorem parse_symbols_normal_form_witness:
  "parse_symbols '', ,'' = Inl (ConfigError ''STOCK_SYMBOLS has no usable symbols in it'') \<and>
   parse_symbols (join_with '','' [''AMZN'', ''NVDA'']) = Inr [''AMZN'', ''NVDA'']"
proof
  show "parse_symbols '', ,'' = Inl (ConfigError ''STOCK_SYMBOLS has no usable symbols in it'')"
    using parse_symbols_normal_form [of "'', ,''"] by (simp add: is_space_def char_code_def Let_def)
  have "parse_symbols ''amzn, NVDA,, NVDA '' = Inr [''AMZN'', ''NVDA'']" by code_simp
  then show "parse_symbols (join_with '','' [''AMZN'', ''NVDA'']) = Inr [''AMZN'', ''NVDA'']"
    using parse_symbols_normal_form by blast
qed

lemma load_stream_config_fields:
  assumes "load_stream_config e = Inr c"
  shows "\<exists>raw. parse_symbols raw = Inr (symbols c)" "1 \<le> flush_max_rows c"
    "read_required e ''FINNHUB_API_KEY'' ''Get a free key at finnhub.io and put it in .env'' = Inr (api_key c)"
    "\<exists>n. read_number STREAM_DEFAULTS e n float_of_str = Inr (reconnect_min_seconds c)"
    "\<exists>n. read_number STREAM_DEFAULTS e n float_of_str = Inr (reconnect_max_seconds c)"
    "\<not> py_le (timeout_seconds c) (Fin 0)" "\<not> py_le (flush_interval_seconds c) (Fin 0)"
    "\<not> py_le (reconnect_min_seconds c) (Fin 0)" "\<not> py_le (market_status_interval_seconds c) (Fin 0)"
    "\<not> py_lt (reconnect_max_seconds c) (reconnect_min_seconds c)"
    "\<not> py_le (stale_after_seconds c) (flush_interval_seconds c)"
  using assms by (auto simp: load_stream_config_def rbind_eq_Inr not_less)

lemma config_backoff_ok:
  assumes "load_stream_config e = Inr c" "reconnect_min_seconds c = Fin m" "reconnect_max_seconds c = Fin M"
  shows "backoff_ok \<lparr> min_seconds = Fin m, max_seconds = Fin M, attempts = 0 \<rparr>"
proof -
  have float: "read_number STREAM_DEFAULTS e n float_of_str = Inr x \<Longrightarrow> float_ok x" for n x
    using read_number_Inr float_of_str_ok by metis
  note c = load_stream_config_fields [OF assms(1)]
  have "float_ok (Fin m)" "float_ok (Fin M)" using c(4,5) float assms(2,3) by metis+
  with c assms(2,3) show ?thesis by (auto simp: backoff_ok_def)
qed

text \<open>
  C31: A configuration that loads has a usable symbol list and a non-blank key, and a batch limit of
  at least one. Its time settings are in range up to NaN, which every comparison of the checks lets
  through: the four timed for themselves are positive or NaN; the largest reconnect delay is not below the smallest and
  staleness is above the flush interval, unless one of the two compared is NaN. So when none of the six is NaN all six are
  positive. When the two reconnect bounds are finite they are what the backoff's guarantee
  needs. The socket address is the configured one with the key appended.
\<close>

theorem load_stream_config_valid:
  assumes "load_stream_config e = Inr c"
  shows "symbols_ok (symbols c) \<and> api_key c \<noteq> [] \<and> strip (api_key c) = api_key c \<and>
    1 \<le> flush_max_rows c \<and>
    (\<forall>x \<in> {timeout_seconds c, flush_interval_seconds c, reconnect_min_seconds c,
       market_status_interval_seconds c}. x = NaN \<or> Fin 0 < x) \<and>
    (NaN \<in> {reconnect_min_seconds c, reconnect_max_seconds c} \<or> reconnect_min_seconds c \<le> reconnect_max_seconds c) \<and>
    (NaN \<in> {flush_interval_seconds c, stale_after_seconds c} \<or> flush_interval_seconds c < stale_after_seconds c) \<and>
    (NaN \<notin> {timeout_seconds c, flush_interval_seconds c, reconnect_min_seconds c, reconnect_max_seconds c,
         market_status_interval_seconds c, stale_after_seconds c} \<longrightarrow>
       (\<forall>x \<in> {timeout_seconds c, flush_interval_seconds c, reconnect_min_seconds c, reconnect_max_seconds c,
         market_status_interval_seconds c, stale_after_seconds c}. Fin 0 < x)) \<and>
    (\<forall>m M. reconnect_min_seconds c = Fin m \<and> reconnect_max_seconds c = Fin M \<longrightarrow>
       backoff_ok \<lparr> min_seconds = Fin m, max_seconds = Fin M, attempts = 0 \<rparr>) \<and>
    ws_endpoint c = ws_url c @ ''?token='' @ api_key c"
proof -
  have pos: "\<not> py_le x (Fin 0) \<Longrightarrow> x = NaN \<or> Fin 0 < x" for x
    by (cases "x = NaN") (auto simp: not_le)
  have le: "\<not> py_lt x y \<Longrightarrow> NaN \<in> {y, x} \<or> y \<le> x" and lt: "\<not> py_le x y \<Longrightarrow> NaN \<in> {y, x} \<or> y < x" for x y
    by (auto simp: py_le_def py_lt_def)
  note c = load_stream_config_fields [OF assms]
  have "symbols_ok (symbols c)" using c(1) parse_symbols_ok by blast
  moreover note read_required_Inr [OF c(3)] c(2) pos [OF c(6)] pos [OF c(7)] pos [OF c(8)] pos [OF c(9)]
    le [OF c(10)] lt [OF c(11)] config_backoff_ok [OF assms]
  moreover from this have "NaN \<notin> {timeout_seconds c, flush_interval_seconds c, reconnect_min_seconds c, reconnect_max_seconds c,
         market_status_interval_seconds c, stale_after_seconds c} \<longrightarrow>
       (\<forall>x \<in> {timeout_seconds c, flush_interval_seconds c, reconnect_min_seconds c, reconnect_max_seconds c,
         market_status_interval_seconds c, stale_after_seconds c}. Fin 0 < x)"
    by (auto intro: less_le_trans less_trans)
  ultimately show ?thesis by (simp add: ws_endpoint_def)
qed

definition key_only :: env where
  "key_only = [''FINNHUB_API_KEY'' \<mapsto> ''k'']"

lemma default_floats:
  "float_of_str ''10'' = Inr (Fin 10)" "float_of_str ''1'' = Inr (Fin 1)"
  "float_of_str ''60'' = Inr (Fin 60)" "float_of_str ''90'' = Inr (Fin 90)"
  "int_setting ''500'' = Inr 500"
  using float_of_digits [of "''10''"] float_of_digits [of "''1''"] float_of_digits [of "''60''"]
    float_of_digits [of "''90''"] int_setting_digits [of "''500''"]
  by (simp_all add: MAX_STR_DIGITS_def text_eval rnd_double is_double_numeral)

lemma default_symbols:
  "parse_symbols ''AMZN,NVDA,GOOGL,TSLA,NFLX'' = Inr [''AMZN'', ''NVDA'', ''GOOGL'', ''TSLA'', ''NFLX'']"
  by code_simp

lemma stream_key_eval: "read_required key_only ''FINNHUB_API_KEY'' hint = Inr ''k''"
  by (simp add: read_required_def env_get_def key_only_def strip_def lstrip_def rstrip_def
      is_space_def char_code_def Let_def)

lemma env_or_cons: "env_or defaults (e(n \<mapsto> v)) name =
    (if name = n \<and> v \<noteq> [] then Inr v else if name = n then env_or defaults (e(n := None)) n
     else env_or defaults e name)"
  by (simp add: env_or_def env_get_def)

lemma stream_defaults_eval:
  "map_of STREAM_DEFAULTS ''FINNHUB_TIMEOUT_SECONDS'' = Some ''10''"
  "map_of STREAM_DEFAULTS ''FLUSH_INTERVAL_SECONDS'' = Some ''1''"
  "map_of STREAM_DEFAULTS ''FLUSH_MAX_ROWS'' = Some ''500''"
  "map_of STREAM_DEFAULTS ''RECONNECT_MIN_SECONDS'' = Some ''1''"
  "map_of STREAM_DEFAULTS ''RECONNECT_MAX_SECONDS'' = Some ''60''"
  "map_of STREAM_DEFAULTS ''MARKET_STATUS_INTERVAL_SECONDS'' = Some ''60''"
  "map_of STREAM_DEFAULTS ''STALE_AFTER_SECONDS'' = Some ''90''"
  "map_of STREAM_DEFAULTS ''STOCK_SYMBOLS'' = Some ''AMZN,NVDA,GOOGL,TSLA,NFLX''"
  "map_of STREAM_DEFAULTS ''FINNHUB_WS_URL'' = Some ''wss://ws.finnhub.io''"
  "map_of STREAM_DEFAULTS ''FINNHUB_BASE_URL'' = Some ''https://finnhub.io/api/v1''"
  "map_of STREAM_DEFAULTS ''REDIS_URL'' = Some ''redis://redis:6379/0''"
  by (simp_all add: STREAM_DEFAULTS_def)

lemma env_key_only: "name \<noteq> ''FINNHUB_API_KEY'' \<Longrightarrow> map_of d name = Some v \<Longrightarrow> env_or d key_only name = Inr v"
  by (simp add: env_or_def env_get_def key_only_def)

theorem load_stream_config_valid_witness:
  "\<exists>c. load_stream_config key_only = Inr c \<and> symbols_ok (symbols c) \<and>
     backoff_ok \<lparr> min_seconds = Fin 1, max_seconds = Fin 60, attempts = 0 \<rparr>"
proof -
  obtain c where c: "load_stream_config key_only = Inr c" "reconnect_min_seconds c = Fin 1"
    "reconnect_max_seconds c = Fin 60"
    by (simp add: load_stream_config_def read_number_def env_key_only stream_defaults_eval
        default_floats default_symbols stream_key_eval)
  with load_stream_config_valid [OF c(1)] show ?thesis by auto
qed

text \<open>
  The checks let a setting of \<open>nan\<close> through: with \<open>FLUSH_INTERVAL_SECONDS=nan\<close> the
  configuration loads, the interval every flush sleeps for is not a number, and a staleness of zero
  is not refused.
\<close>

theorem nan_interval_loads:
  "\<exists>c. load_stream_config (key_only(''FLUSH_INTERVAL_SECONDS'' \<mapsto> ''nan'', ''STALE_AFTER_SECONDS'' \<mapsto> ''0'')) = Inr c \<and>
     flush_interval_seconds c = NaN \<and> stale_after_seconds c = Fin 0"
proof -
  have r: "read_required (key_only(''FLUSH_INTERVAL_SECONDS'' \<mapsto> ''nan'', ''STALE_AFTER_SECONDS'' \<mapsto> ''0'')) ''FINNHUB_API_KEY'' hint = Inr ''k''" for hint
    using stream_key_eval by (simp add: read_required_def env_get_def)
  have z: "float_of_str ''0'' = Inr (Fin 0)"
    using float_of_digits [of "''0''"] by (simp add: text_eval)
  show ?thesis
    by (simp add: load_stream_config_def read_number_def env_or_cons env_key_only stream_defaults_eval
        default_floats default_symbols r z float_words)
qed

end
