(* ===== verification/MarketStatus.thy ===== *)
theory MarketStatus
  imports SocketClient
begin

text \<open>
  The market status request (stream/market_status.py). The HTTP library is an argument: \<open>get\<close>
  takes the session's headers, the URL, the query and the timeout, and returns the decoded JSON
  of a successful response or raises (a network failure, an HTTP error, invalid JSON).
\<close>

definition MARKET_STATUS_PATH :: string where
  "MARKET_STATUS_PATH = ''/stock/market-status''"

definition DEFAULT_EXCHANGE :: string where
  "DEFAULT_EXCHANGE = ''US''"

record market_status =
  is_open :: bool
  session :: json

type_synonym http_get = "(string \<times> string) list \<Rightarrow> string \<Rightarrow> (string \<times> string) list \<Rightarrow> pyfloat \<Rightarrow> json result"

definition build_session :: "string \<Rightarrow> (string \<times> string) list" where
  "build_session key = [(''X-Finnhub-Token'', key)]"

text \<open>\<open>payload.get\<close> exists on a JSON object only.\<close>

definition fetch_market_status ::
  "http_get \<Rightarrow> (string \<times> string) list \<Rightarrow> string \<Rightarrow> pyfloat \<Rightarrow> string \<Rightarrow> market_status result" where
  "fetch_market_status get headers base timeout exchange =
     rbind (get headers (base @ MARKET_STATUS_PATH) [(''exchange'', exchange)] timeout) (\<lambda>payload.
       case payload of
         JObj kvs \<Rightarrow> Inr \<lparr> is_open = truthy (json_get kvs ''isOpen''), session = json_get kvs ''session'' \<rparr>
       | _ \<Rightarrow> Inl AttributeError)"

text \<open>\<open>safe_market_status\<close> (stream/main.py) turns every failure into \<open>None\<close>.\<close>

definition safe_market_status ::
  "http_get \<Rightarrow> (string \<times> string) list \<Rightarrow> string \<Rightarrow> pyfloat \<Rightarrow> market_status option" where
  "safe_market_status get headers base timeout =
     (case fetch_market_status get headers base timeout DEFAULT_EXCHANGE of
        Inr status \<Rightarrow> Some status | Inl e \<Rightarrow> None)"

end
