(* ===== verification/Buffer.thy ===== *)
theory Buffer
  imports Prelude
begin

text \<open>
  The hand-over between the two threads of the stream: \<open>queue.Queue\<close>, of which the socket
  thread uses \<open>put\<close> and the flush loop \<open>get_nowait\<close>, and \<open>drain\<close> (stream/buffer.py), which
  takes a bounded batch without blocking. The interface \<open>fifo\<close> states the laws \<open>drain\<close>
  relies on; the list queue the stream model uses is its interpretation.
\<close>

section \<open>The queue\<close>

type_synonym 'a fifo_queue = "'a list"

definition queue_put :: "'a \<Rightarrow> 'a fifo_queue \<Rightarrow> 'a fifo_queue" where
  "queue_put x q = q @ [x]"

fun queue_get_nowait :: "'a fifo_queue \<Rightarrow> 'a result \<times> 'a fifo_queue" where
  "queue_get_nowait [] = (Inl QueueEmpty, [])"
| "queue_get_nowait (x # q) = (Inr x, q)"

section \<open>drain\<close>

text \<open>The loop of \<open>drain\<close>: it ends when the batch is full or when \<open>get_nowait\<close> raises
  \<open>queue.Empty\<close>.\<close>

function drain_loop :: "('q \<Rightarrow> 'a result \<times> 'q) \<Rightarrow> int \<Rightarrow> 'q \<Rightarrow> 'a list \<Rightarrow> 'a list \<times> 'q" where
  "drain_loop get max_rows q items =
     (if int (length items) < max_rows then
        (case get q of
           (Inr x, q') \<Rightarrow> drain_loop get max_rows q' (items @ [x])
         | (Inl e, q') \<Rightarrow> (items, q'))
      else (items, q))"
  by pat_completeness auto
termination
  by (relation "measure (\<lambda>(get, max_rows, q, items). nat (max_rows - int (length items)))") auto

declare drain_loop.simps [simp del]

definition drain :: "'a fifo_queue \<Rightarrow> int \<Rightarrow> 'a list \<times> 'a fifo_queue" where
  "drain source_queue max_rows = drain_loop queue_get_nowait max_rows source_queue []"

section \<open>The interface drain relies on\<close>

locale fifo =
  fixes put :: "'a \<Rightarrow> 'q \<Rightarrow> 'q"
    and get_nowait :: "'q \<Rightarrow> 'a result \<times> 'q"
    and contents :: "'q \<Rightarrow> 'a list"
  assumes contents_put: "contents (put x q) = contents q @ [x]"
    and get_empty: "contents q = [] \<Longrightarrow> get_nowait q = (Inl QueueEmpty, q)"
    and get_front: "contents q = x # xs \<Longrightarrow> \<exists>q'. get_nowait q = (Inr x, q') \<and> contents q' = xs"
begin

lemma drain_loop_contents:
  "drain_loop get_nowait n q items = (batch, q') \<Longrightarrow>
     batch = items @ take (nat (n - int (length items))) (contents q) \<and>
     contents q' = drop (nat (n - int (length items))) (contents q)"
proof (induction "contents q" arbitrary: q items)
  case Nil
  then have "get_nowait q = (Inl QueueEmpty, q)" by (simp add: get_empty)
  with Nil show ?case
    by (auto simp: drain_loop.simps [of get_nowait n q items] split: if_splits)
next
  case (Cons x xs)
  show ?case
  proof (cases "int (length items) < n")
    case True
    obtain q1 where q1: "get_nowait q = (Inr x, q1)" "contents q1 = xs"
      using get_front Cons.hyps(2) by metis
    let ?k = "nat (n - int (length (items @ [x])))"
    have rec: "drain_loop get_nowait n q1 (items @ [x]) = (batch, q')"
      using Cons.prems True q1 by (simp add: drain_loop.simps [of get_nowait n q items])
    have "batch = (items @ [x]) @ take ?k xs \<and> contents q' = drop ?k xs"
      using Cons.hyps(1) [of q1 "items @ [x]"] rec q1(2) by simp
    moreover have "nat (n - int (length items)) = Suc ?k" using True by simp
    moreover have "contents q = x # xs" using Cons.hyps(2) by simp
    ultimately show ?thesis by simp
  next
    case False
    with Cons.prems show ?thesis by (simp add: drain_loop.simps [of get_nowait n q items])
  qed
qed

lemma drain_loop_take:
  "\<exists>q'. drain_loop get_nowait n q [] = (take (nat n) (contents q), q') \<and>
        contents q' = drop (nat n) (contents q)"
  using drain_loop_contents [of n q "[]"] by (cases "drain_loop get_nowait n q []") auto

end

interpretation lq: fifo queue_put queue_get_nowait "\<lambda>q. q"
proof unfold_locales
  fix q :: "'a list" and x xs
  show "queue_put x q = q @ [x]" by (simp add: queue_put_def)
  show "q = [] \<Longrightarrow> queue_get_nowait q = (Inl QueueEmpty, q)" by simp
  show "q = x # xs \<Longrightarrow> \<exists>q'. queue_get_nowait q = (Inr x, q') \<and> q' = xs" by simp
qed

lemma drain_eq: "drain q n = (take (nat n) q, drop (nat n) q)"
  using lq.drain_loop_take [of n q] by (auto simp: drain_def)

text \<open>Repeated draining, as the flush loop does it once per interval.\<close>

fun drain_rounds :: "nat \<Rightarrow> int \<Rightarrow> 'a fifo_queue \<Rightarrow> 'a list \<times> 'a fifo_queue" where
  "drain_rounds 0 n q = ([], q)"
| "drain_rounds (Suc k) n q =
     (let (batch, q') = drain q n; (rest, q'') = drain_rounds k n q' in (batch @ rest, q''))"

lemma drain_rounds_eq:
  "drain_rounds k n q = (take (k * nat n) q, drop (k * nat n) q)"
  by (induction k arbitrary: q) (simp_all add: drain_eq take_add add.commute)

text \<open>
  C32: \<open>drain\<close> always returns, never raises, and takes exactly the oldest \<open>max_rows\<close> trades in
  arrival order (all of them when there are fewer, none when the limit is not positive); what
  it leaves behind keeps its order and is what the next drain returns first. After enough
  rounds for the backlog every trade has been handed over exactly once, in order.
\<close>

theorem drain_fifo:
  "drain q n = (take (nat n) q, drop (nat n) q) \<and>
   (let (batch, rest) = drain q n in batch @ rest = q \<and> length batch \<le> nat n) \<and>
   (length q \<le> k * nat n \<longrightarrow> drain_rounds k n q = (q, []))"
  by (simp add: drain_eq drain_rounds_eq)

theorem drain_fifo_witness:
  "drain_rounds 2 2 [10, 20, 30 :: int] = ([10, 20, 30], []) \<and>
   drain [10, 20, 30 :: int] 2 = ([10, 20], [30])"
  using drain_fifo [of "[10, 20, 30 :: int]" 2 2] by simp

end
