(* ===== verification/StreamMain.thy ===== *)
theory StreamMain
  imports StreamFlush StreamConfig MarketStatus Buffer "HOL-Library.Sublist"
begin

text \<open>
  The stream service as two threads over shared state (stream/main.py): the socket thread puts
  the trades of each message on the queue and then records the event; the main thread runs
  \<open>flush_loop\<close>, one stage per step, so that every access to shared state (the queue, the event
  record, the two stores) is one step and any interleaving of the threads is a run. Other
  services may change their own tables between any two steps. The outcome of every call into
  the network, the databases and the clock is an input of the step. The one exception that leaves
  \<open>run_once\<close> in the model is that of the statement closing the session's row.
\<close>

section \<open>SocketEvents\<close>

record events =
  last_message_at :: "int option"
  last_trade_at :: "int option"
  trades_seen :: int
  event_error :: detail
  closed :: bool

definition no_events :: events where
  "no_events = \<lparr> last_message_at = None, last_trade_at = None, trades_seen = 0,
     event_error = DNone, closed = False \<rparr>"

definition detail_true :: "detail \<Rightarrow> bool" where
  "detail_true d = (case d of DNone \<Rightarrow> False | DInt n \<Rightarrow> n \<noteq> 0 | DStr s \<Rightarrow> s \<noteq> [])"

definition record_event :: "int \<Rightarrow> json \<Rightarrow> detail \<Rightarrow> events \<Rightarrow> events result" where
  "record_event now event_type d e =
     (let e = e\<lparr> last_message_at := Some now \<rparr> in
      if event_type = JStr TRADE \<and> detail_true d then
        (case d of DInt n \<Rightarrow> Inr (e\<lparr> last_trade_at := last_message_at e, trades_seen := trades_seen e + n \<rparr>)
         | _ \<Rightarrow> Inl TypeError)
      else if event_type = JStr ''failed'' then Inr (e\<lparr> event_error := d \<rparr>)
      else if event_type = JStr ''closed'' then Inr (e\<lparr> closed := True \<rparr>)
      else Inr e)"

section \<open>State\<close>

type_synonym live_dict = "(string \<times> vals) list"

datatype stage =
    Draining
  | Loading "trade list"
  | Polling "trade list" "live_dict option"
  | Reading "trade list" "live_dict option"
  | Writing "trade list" "live_dict option" int
  | Saving "trade list" "live_dict option"
  | Alerting "trade list"
  | Checking
  | Leaving
  | Finished
  | Raised exn

text \<open>\<open>run_once\<close> closes the session's row in its \<open>finally\<close> block (\<open>Leaving\<close>). It then returns
  (\<open>Finished\<close>), or lets the exception of that statement out (\<open>Raised\<close>): nothing catches it, so the row
  stays as it was and the process ends.\<close>

definition main_ended :: "stage \<Rightarrow> bool" where
  "main_ended st = (case st of Finished \<Rightarrow> True | Raised e \<Rightarrow> True | _ \<Rightarrow> False)"

text \<open>The last three fields are the history the theorems speak of; the code keeps none of it.\<close>

record sys =
  pg :: Tables.pg
  redis :: LivePrices.redis
  queue :: "trade list"
  evs :: events
  pending :: "(trade list \<times> nat) option"
  stage :: stage
  reported :: int
  status :: "market_status option"
  next_status_at :: pyfloat
  needs_reseed :: bool
  received :: "trade list"
  written :: "trade list"
  lost :: "trade list"

record inputs =
  in_now :: int
  in_mono :: pyfloat
  in_mono_after :: pyfloat
  in_get :: http_get
  in_pg :: "exn option"
  in_redis :: "exn option"
  in_saved :: redis_outcome

section \<open>The main thread\<close>

definition beat_of :: "sys \<Rightarrow> int \<Rightarrow> int \<Rightarrow> beat" where
  "beat_of s rows seen = \<lparr> hb_trades = seen - reported s, hb_rows = rows,
     hb_last_message_at = last_message_at (evs s), hb_last_trade_at = last_trade_at (evs s),
     hb_market_open = map_option is_open (status s),
     hb_market_session = (case status s of None \<Rightarrow> JNull | Some st \<Rightarrow> session st) \<rparr>"

definition write_batch :: "nat \<Rightarrow> inputs \<Rightarrow> sys \<Rightarrow> trade list \<Rightarrow> int \<Rightarrow> unit result \<times> Tables.pg" where
  "write_batch session_id i s trades seen =
     transaction (in_pg i) (\<lambda>d.
       rbind (insert_trades (in_now i) trades d) (\<lambda>(rows, d1).
       rbind (heartbeat session_id (beat_of s rows seen) d1) (\<lambda>(u, d2). Inr ((), d2)))) (pg s)"

definition detail_text :: "detail \<Rightarrow> string option" where
  "detail_text d = (case d of DNone \<Rightarrow> None | DInt n \<Rightarrow> Some (str_of_int n) | DStr s \<Rightarrow> Some s)"

definition finish :: "nat \<Rightarrow> inputs \<Rightarrow> sys \<Rightarrow> unit result \<times> Tables.pg" where
  "finish session_id i s = transaction (in_pg i)
     (finish_session (in_now i) session_id
        (if detail_true (event_error (evs s)) then ''failed'' else ''closed'')
        (detail_text (event_error (evs s)))) (pg s)"

definition poll_status :: "stream_config \<Rightarrow> inputs \<Rightarrow> sys \<Rightarrow> sys" where
  "poll_status cfg i s =
     (if py_le (next_status_at s) (in_mono i) then
        s\<lparr> status := (case safe_market_status (in_get i) (build_session (api_key cfg)) (base_url cfg)
                        (timeout_seconds cfg) of Some st \<Rightarrow> Some st | None \<Rightarrow> status s),
           next_status_at := fadd (in_mono_after i) (market_status_interval_seconds cfg) \<rparr>
      else s)"

definition main_step :: "stream_config \<Rightarrow> nat \<Rightarrow> inputs \<Rightarrow> sys \<Rightarrow> sys" where
  "main_step cfg session_id i s = (case stage s of
     Draining \<Rightarrow> (let (trades, q) = drain (queue s) (flush_max_rows cfg)
                  in s\<lparr> queue := q, stage := Loading trades \<rparr>)
   | Loading trades \<Rightarrow> s\<lparr> stage := Polling trades
       (load_live_prices (in_redis i) (in_pg i) (redis s) (pg s) trades (needs_reseed s)) \<rparr>
   | Polling trades stored \<Rightarrow> (poll_status cfg i s)\<lparr> stage := Reading trades stored \<rparr>
   | Reading trades stored \<Rightarrow> s\<lparr> stage := Writing trades stored (trades_seen (evs s)) \<rparr>
   | Writing trades stored seen \<Rightarrow> (case write_batch session_id i s trades seen of
         (Inr u, db) \<Rightarrow> s\<lparr> pg := db, reported := seen, written := written s @ trades,
             stage := (if trades = [] then Alerting trades else Saving trades stored) \<rparr>
       | (Inl e, db) \<Rightarrow> s\<lparr> pg := db, lost := lost s @ trades, stage := Alerting trades \<rparr>)
   | Saving trades stored \<Rightarrow> (case stored of
         None \<Rightarrow> s\<lparr> needs_reseed := True, stage := Alerting trades \<rparr>
       | Some d \<Rightarrow> (let (ok, r) = save_live_prices (in_saved i) (redis s) d trades
           in s\<lparr> redis := r, needs_reseed := \<not> ok, stage := Alerting trades \<rparr>))
   | Alerting trades \<Rightarrow> s\<lparr> pg := snd (check_alerts (in_pg i) trades (pg s)), stage := Checking \<rparr>
   | Checking \<Rightarrow> s\<lparr> stage := (if closed (evs s) then Leaving else Draining) \<rparr>
   | Leaving \<Rightarrow> (case finish session_id i s of
         (Inr u, db) \<Rightarrow> s\<lparr> pg := db, stage := Finished \<rparr>
       | (Inl e, db) \<Rightarrow> s\<lparr> pg := db, stage := Raised e \<rparr>)
   | Finished \<Rightarrow> s
   | Raised e \<Rightarrow> s)"

section \<open>Runs\<close>

text \<open>A message of trades is delivered as the list \<open>parse_message\<close> returned; the callback puts
  them one by one and records the event when the last is on the queue.\<close>

inductive thread_step :: "stream_config \<Rightarrow> nat \<Rightarrow> sys \<Rightarrow> sys \<Rightarrow> bool"
  for cfg :: stream_config and session_id :: nat where
  main: "thread_step cfg session_id s (main_step cfg session_id i s)"
| message: "pending s = None \<Longrightarrow> thread_step cfg session_id s (s\<lparr> pending := Some (ts, length ts) \<rparr>)"
| put: "pending s = Some (t # ts, n) \<Longrightarrow>
    thread_step cfg session_id s
      (s\<lparr> queue := queue_put t (queue s), pending := Some (ts, n), received := received s @ [t] \<rparr>)"
| counted: "pending s = Some ([], n) \<Longrightarrow> record_event now (JStr TRADE) (DInt (int n)) (evs s) = Inr e \<Longrightarrow>
    thread_step cfg session_id s (s\<lparr> evs := e, pending := None \<rparr>)"
| event: "pending s = None \<Longrightarrow> ty \<noteq> JStr TRADE \<Longrightarrow> record_event now ty d (evs s) = Inr e \<Longrightarrow>
    thread_step cfg session_id s (s\<lparr> evs := e \<rparr>)"

text \<open>A step of the service's threads, or of the rest of the system: what the stream assumes of
  the other services is that they keep the keys and leave its two tables alone.\<close>

definition other_service :: "Tables.pg \<Rightarrow> Tables.pg \<Rightarrow> bool" where
  "other_service db db' \<longleftrightarrow> (pg_keys_ok db \<longrightarrow> pg_keys_ok db') \<and> raw_trades db' = raw_trades db \<and>
     next_trade_id db' = next_trade_id db \<and> stream_sessions db' = stream_sessions db \<and>
     next_session_id db' = next_session_id db"

inductive stream_step :: "stream_config \<Rightarrow> nat \<Rightarrow> sys \<Rightarrow> sys \<Rightarrow> bool"
  for cfg :: stream_config and session_id :: nat where
  own: "thread_step cfg session_id s s' \<Longrightarrow> stream_step cfg session_id s s'"
| others: "other_service (pg s) db \<Longrightarrow> stream_step cfg session_id s (s\<lparr> pg := db \<rparr>)"

text \<open>\<open>run_once\<close> inserts the session row before it connects.\<close>

definition initial :: "Tables.pg \<Rightarrow> LivePrices.redis \<Rightarrow> sys" where
  "initial db r = \<lparr> pg = db, redis = r, queue = [], evs = no_events, pending = None,
     stage = Draining, reported = 0, status = None, next_status_at = Fin 0,
     needs_reseed = True, received = [], written = [], lost = [] \<rparr>"

definition run_start :: "exn option \<Rightarrow> int \<Rightarrow> stream_config \<Rightarrow> nat \<Rightarrow> Tables.pg \<Rightarrow> LivePrices.redis \<Rightarrow> (nat \<times> sys) result" where
  "run_start failure now cfg reconnects db r =
     (case transaction failure (start_session now (symbols cfg) reconnects) db of
        (Inl e, db') \<Rightarrow> Inl e
      | (Inr session_id, db') \<Rightarrow> Inr (session_id, initial db' r))"

inductive reached :: "stream_config \<Rightarrow> nat \<Rightarrow> sys \<Rightarrow> sys \<Rightarrow> bool"
  for cfg :: stream_config and session_id :: nat and s0 :: sys where
  start: "reached cfg session_id s0 s0"
| step: "reached cfg session_id s0 s \<Longrightarrow> stream_step cfg session_id s s' \<Longrightarrow> reached cfg session_id s0 s'"

section \<open>main\<close>

text \<open>The end of one pass of the reconnect loop; \<open>u\<close> is the value of \<open>random()\<close>.\<close>

definition after_run :: "rat \<Rightarrow> events \<Rightarrow> backoff \<Rightarrow> pyfloat \<times> backoff" where
  "after_run u e b = next_delay u (if last_message_at e \<noteq> None then reset b else b)"

fun reconnect_delays :: "backoff \<Rightarrow> (rat \<times> events) list \<Rightarrow> pyfloat list" where
  "reconnect_delays b [] = []"
| "reconnect_delays b ((u, e) # runs) =
     (let (delay, b') = after_run u e b in delay # reconnect_delays b' runs)"

section \<open>The database steps\<close>

lemma insert_trades_Inr:
  assumes "insert_trades now ts db = Inr (n, db')"
  obtains rows where "n = int (length ts)" "raw_trades db' = raw_trades db @ rows" "list_all2 stored_as rows ts"
    "stream_sessions db' = stream_sessions db" "pg_keys_ok db \<Longrightarrow> pg_keys_ok db'"
proof -
  have r: "insert_rows now ts db = Inr db'" and n: "n = int (length ts)"
    using assms by (auto simp: insert_trades_def rbind_eq_Inr split: if_splits)
  obtain rows where rows: "raw_trades db' = raw_trades db @ rows" "list_all2 stored_as rows ts"
    "map rt_id rows = [next_trade_id db..<next_trade_id db + length ts]"
    "db' = db\<lparr> raw_trades := raw_trades db @ rows, next_trade_id := next_trade_id db + length ts \<rparr>"
    using insert_rows_stored [OF r] by metis
  have "pg_keys_ok db'" if "pg_keys_ok db"
  proof -
    have "serial_ok rt_id (raw_trades db @ rows) (next_trade_id db + length ts)"
      using that rows(3) by (intro serial_ok_append) (auto simp: pg_keys_ok_def)
    with that show ?thesis unfolding rows(4) by (simp add: pg_keys_ok_def)
  qed
  with that n rows(1,2,4) show ?thesis by simp
qed

lemma write_batch_Inl: "write_batch sid i s trades seen = (Inl e, db) \<Longrightarrow> db = pg s"
  unfolding write_batch_def by (rule transaction_Inl)

lemma write_batch_Inr:
  assumes "write_batch sid i s trades seen = (Inr u, db)"
  obtains rows sess where "raw_trades db = raw_trades (pg s) @ rows" "list_all2 stored_as rows trades"
    "pg_keys_ok (pg s) \<Longrightarrow> pg_keys_ok db"
    "stream_sessions db = update_where (\<lambda>r. ss_id r = sid)
       (beat_row (beat_of s (int (length trades)) seen, sess)) (stream_sessions (pg s))"
proof -
  obtain n d1 where ins: "insert_trades (in_now i) trades (pg s) = Inr (n, d1)"
    and hb: "heartbeat sid (beat_of s n seen) d1 = Inr ((), db)"
    using assms by (auto simp: write_batch_def transaction_Inr rbind_eq_Inr)
  obtain rows where rows: "n = int (length trades)" "raw_trades d1 = raw_trades (pg s) @ rows"
    "list_all2 stored_as rows trades" "stream_sessions d1 = stream_sessions (pg s)"
    "pg_keys_ok (pg s) \<Longrightarrow> pg_keys_ok d1"
    using insert_trades_Inr [OF ins] by metis
  obtain sess where db: "db = d1\<lparr> stream_sessions := update_where (\<lambda>r. ss_id r = sid)
      (beat_row (beat_of s n seen, sess)) (stream_sessions d1) \<rparr>"
    using hb by (auto simp: heartbeat_def rbind_eq_Inr)
  have "pg_keys_ok db" if "pg_keys_ok (pg s)"
    using rows(5) [OF that] by (simp add: db pg_keys_ok_def beats.serial)
  then show ?thesis by (intro that [of rows sess]) (use rows db in simp_all)
qed

lemma finish_effect:
  assumes "finish sid i s = (r, db)"
  shows "raw_trades db = raw_trades (pg s)" "pg_keys_ok (pg s) \<Longrightarrow> pg_keys_ok db"
    "stream_sessions db = stream_sessions (pg s) \<or>
     (\<exists>p. stream_sessions db = update_where (\<lambda>r. ss_id r = sid) (finish_row p) (stream_sessions (pg s)))"
proof -
  let ?p = "(in_now i, if detail_true (event_error (evs s)) then ''failed'' else ''closed'',
    detail_text (event_error (evs s)))"
  have "db = pg s \<or> db = (pg s)\<lparr> stream_sessions :=
      update_where (\<lambda>r. ss_id r = sid) (finish_row ?p) (stream_sessions (pg s)) \<rparr>"
  proof (cases r)
    case (Inl e)
    with assms show ?thesis by (auto simp: finish_def dest: transaction_Inl)
  next
    case (Inr u)
    with assms show ?thesis
      by (auto simp: finish_def transaction_Inr finish_session_def split: option.splits)
  qed
  then show "raw_trades db = raw_trades (pg s)" "pg_keys_ok (pg s) \<Longrightarrow> pg_keys_ok db"
    "stream_sessions db = stream_sessions (pg s) \<or>
     (\<exists>p. stream_sessions db = update_where (\<lambda>r. ss_id r = sid) (finish_row p) (stream_sessions (pg s)))"
    by (auto simp: pg_keys_ok_def finishes.serial simp del: split_paired_Ex)
qed

lemma check_alerts_marks:
  "\<exists>fs. snd (check_alerts f trades db) = db\<lparr> price_alerts := map (marked fs) (price_alerts db) \<rparr>"
proof -
  have "db = db\<lparr> price_alerts := map (marked []) (price_alerts db) \<rparr>" by simp
  then have same: "\<exists>fs. db = db\<lparr> price_alerts := map (marked fs) (price_alerts db) \<rparr>" by (rule exI)
  show ?thesis
    by (auto simp: check_alerts_def transaction_def rbind_eq_Inr mark_triggered_def mark_rows_Inr same
        split: option.splits sum.splits if_splits)
qed

lemma check_alerts_effect:
  assumes "check_alerts f trades db = (n, db')"
  shows "raw_trades db' = raw_trades db" "stream_sessions db' = stream_sessions db"
    "pg_keys_ok db \<Longrightarrow> pg_keys_ok db'"
proof -
  obtain fs where "db' = db\<lparr> price_alerts := map (marked fs) (price_alerts db) \<rparr>"
    using check_alerts_marks [of f trades db] assms by auto
  moreover have "pg_keys_ok (db\<lparr> price_alerts := map (marked fs) (price_alerts db) \<rparr>)" if "pg_keys_ok db" for fs
    using that by (intro pg_keys_ok_alerts) (simp_all add: comp_def)
  ultimately show "raw_trades db' = raw_trades db" "stream_sessions db' = stream_sessions db"
    "pg_keys_ok db \<Longrightarrow> pg_keys_ok db'" by auto
qed

section \<open>Invariants\<close>

definition in_flight :: "stage \<Rightarrow> trade list" where
  "in_flight st = (case st of Loading b \<Rightarrow> b | Polling b d \<Rightarrow> b | Reading b d \<Rightarrow> b | Writing b d n \<Rightarrow> b | _ \<Rightarrow> [])"

text \<open>Every trade put on the queue is in exactly one place, and the order is kept.\<close>

definition flow_ok :: "sys \<Rightarrow> bool" where
  "flow_ok s \<longleftrightarrow>
     mset (received s) = mset (written s) + mset (lost s) + mset (in_flight (stage s)) + mset (queue s) \<and>
     subseq (written s @ in_flight (stage s) @ queue s) (received s)"

text \<open>The counters lag behind, never ahead.\<close>

definition put_ahead :: "(trade list \<times> nat) option \<Rightarrow> int" where
  "put_ahead p = (case p of None \<Rightarrow> 0 | Some (ts, n) \<Rightarrow> int n - int (length ts))"

definition counts_ok :: "sys \<Rightarrow> bool" where
  "counts_ok s \<longleftrightarrow>
     trades_seen (evs s) + put_ahead (pending s) = int (length (received s)) \<and> 0 \<le> put_ahead (pending s) \<and>
     reported s \<le> trades_seen (evs s) \<and>
     (\<forall>b d seen. stage s = Writing b d seen \<longrightarrow> reported s \<le> seen \<and> seen \<le> trades_seen (evs s))"

definition rows_ok :: "nat \<Rightarrow> Tables.pg \<Rightarrow> sys \<Rightarrow> bool" where
  "rows_ok sid db0 s \<longleftrightarrow> pg_keys_ok (pg s) \<and>
     (\<exists>rows. raw_trades (pg s) = raw_trades db0 @ rows \<and> list_all2 stored_as rows (written s)) \<and>
     (\<exists>r \<in> set (stream_sessions (pg s)). ss_id r = sid \<and> ss_trades_received r = reported s \<and>
        ss_rows_written r = int (length (written s))) \<and>
     (\<forall>r \<in> set (stream_sessions db0). ss_id r \<noteq> sid \<longrightarrow> r \<in> set (stream_sessions (pg s)))"

definition closed_ok :: "sys \<Rightarrow> bool" where
  "closed_ok s \<longleftrightarrow> (closed (evs s) \<longrightarrow> last_message_at (evs s) \<noteq> None) \<and>
     (stage s = Leaving \<or> main_ended (stage s) \<longrightarrow> closed (evs s))"

lemma in_flight_simps [simp]:
  "in_flight Draining = []" "in_flight (Loading b) = b" "in_flight (Polling b d) = b"
  "in_flight (Reading b d) = b" "in_flight (Writing b d n) = b" "in_flight (Saving b d) = []"
  "in_flight (Alerting b) = []" "in_flight Checking = []" "in_flight Leaving = []" "in_flight Finished = []"
  "in_flight (Raised e) = []"
  by (simp_all add: in_flight_def)

lemma main_ended_simps [simp]:
  "\<not> main_ended Draining" "\<not> main_ended (Loading b)" "\<not> main_ended (Polling b d)"
  "\<not> main_ended (Reading b d)" "\<not> main_ended (Writing b d n)" "\<not> main_ended (Saving b d)"
  "\<not> main_ended (Alerting b)" "\<not> main_ended Checking" "\<not> main_ended Leaving"
  "main_ended Finished" "main_ended (Raised e)"
  by (simp_all add: main_ended_def)

lemma poll_status_simps [simp]:
  "pg (poll_status c i s) = pg s" "queue (poll_status c i s) = queue s" "evs (poll_status c i s) = evs s"
  "pending (poll_status c i s) = pending s" "reported (poll_status c i s) = reported s"
  "received (poll_status c i s) = received s" "written (poll_status c i s) = written s"
  "lost (poll_status c i s) = lost s"
  by (simp_all add: poll_status_def)

lemma subseq_drop_middle: "subseq (a @ b @ c) xs \<Longrightarrow> subseq (a @ c) xs"
  by (meson list_emb_append2 list_emb_append_mono subseq_order.order_refl subseq_order.order_trans)

lemma flow_ok_main:
  assumes "flow_ok s"
  shows "flow_ok (main_step cfg sid i s)"
proof (cases "stage s")
  case Draining
  let ?n = "nat (flush_max_rows cfg)"
  have "take ?n (queue s) @ drop ?n (queue s) = queue s" by simp
  then have "mset (queue s) = mset (take ?n (queue s)) + mset (drop ?n (queue s))" by (metis mset_append)
  with assms Draining show ?thesis by (simp add: flow_ok_def main_step_def drain_eq)
next
  case (Writing b d seen)
  obtain r db where w: "write_batch sid i s b seen = (r, db)" by fastforce
  show ?thesis
  proof (cases r)
    case (Inl e)
    with assms Writing w show ?thesis
      using subseq_drop_middle [of "written s" b "queue s" "received s"]
      by (simp add: flow_ok_def main_step_def)
  next
    case (Inr u)
    with assms Writing w show ?thesis by (auto simp: flow_ok_def main_step_def)
  qed
qed (use assms in \<open>simp_all add: flow_ok_def main_step_def case_prod_beta split: option.splits sum.splits\<close>)

lemma shared_main [simp]:
  "evs (main_step cfg sid i s) = evs s" "pending (main_step cfg sid i s) = pending s"
  "received (main_step cfg sid i s) = received s"
  by (auto simp: main_step_def case_prod_beta split: stage.splits sum.splits option.splits prod.splits)

lemma stage_main:
  "stage (main_step cfg sid i s) = Writing b d seen \<Longrightarrow> stage s = Reading b d \<and> seen = trades_seen (evs s)"
  by (auto simp: main_step_def case_prod_beta split: stage.splits sum.splits option.splits prod.splits if_splits)

lemma pg_main:
  "pg (main_step cfg sid i s) = (case stage s of
     Writing b d seen \<Rightarrow> snd (write_batch sid i s b seen)
   | Alerting b \<Rightarrow> snd (check_alerts (in_pg i) b (pg s))
   | Leaving \<Rightarrow> snd (finish sid i s)
   | _ \<Rightarrow> pg s)"
  by (auto simp: main_step_def case_prod_beta split: stage.splits sum.splits option.splits prod.splits)

lemma reported_written_main:
  "reported (main_step cfg sid i s) = (case stage s of
     Writing b d seen \<Rightarrow> (if is_ok (fst (write_batch sid i s b seen)) then seen else reported s) | _ \<Rightarrow> reported s)"
  "written (main_step cfg sid i s) = (case stage s of
     Writing b d seen \<Rightarrow> (if is_ok (fst (write_batch sid i s b seen)) then written s @ b else written s)
   | _ \<Rightarrow> written s)"
  by (auto simp: main_step_def case_prod_beta split: stage.splits sum.splits option.splits prod.splits)

lemma counts_ok_main:
  assumes "counts_ok s"
  shows "counts_ok (main_step cfg sid i s)"
proof -
  have r: "reported (main_step cfg sid i s) = reported s \<or>
      (\<exists>b d. stage s = Writing b d (reported (main_step cfg sid i s)))"
    by (auto simp: reported_written_main split: stage.splits)
  moreover have "reported (main_step cfg sid i s) = reported s" if "stage s = Reading b d" for b d
    using that by (simp add: reported_written_main)
  ultimately show ?thesis using assms stage_main [of cfg sid i s] unfolding counts_ok_def shared_main
    by (metis order_refl)
qed

lemma closed_ok_main: "closed_ok s \<Longrightarrow> closed_ok (main_step cfg sid i s)"
  by (auto simp: closed_ok_def main_step_def case_prod_beta split: stage.splits sum.splits option.splits)

text \<open>A step that leaves both tables' relevant parts alone.\<close>

lemma rows_ok_cong:
  "rows_ok sid db0 s \<Longrightarrow> raw_trades (pg s') = raw_trades (pg s) \<Longrightarrow>
   stream_sessions (pg s') = stream_sessions (pg s) \<Longrightarrow> (pg_keys_ok (pg s) \<Longrightarrow> pg_keys_ok (pg s')) \<Longrightarrow>
   reported s' = reported s \<Longrightarrow> written s' = written s \<Longrightarrow> rows_ok sid db0 s'"
  by (simp add: rows_ok_def)

lemma rows_ok_writing:
  assumes "rows_ok sid db0 s" "write_batch sid i s b seen = (Inr u, db)"
    "pg s' = db" "reported s' = seen" "written s' = written s @ b"
  shows "rows_ok sid db0 s'"
proof -
  obtain rows sess where w: "raw_trades db = raw_trades (pg s) @ rows" "list_all2 stored_as rows b"
    "pg_keys_ok (pg s) \<Longrightarrow> pg_keys_ok db"
    "stream_sessions db = update_where (\<lambda>r. ss_id r = sid)
       (beat_row (beat_of s (int (length b)) seen, sess)) (stream_sessions (pg s))"
    using write_batch_Inr [OF assms(2)] by metis
  obtain rows0 where rows0: "raw_trades (pg s) = raw_trades db0 @ rows0" "list_all2 stored_as rows0 (written s)"
    using assms(1) by (auto simp: rows_ok_def)
  obtain r where r: "r \<in> set (stream_sessions (pg s))" "ss_id r = sid" "ss_trades_received r = reported s"
    "ss_rows_written r = int (length (written s))" using assms(1) by (auto simp: rows_ok_def)
  let ?r = "beat_row (beat_of s (int (length b)) seen, sess) r"
  have "?r \<in> set (stream_sessions db)" unfolding w(4) by (rule beats.updated) (use r in simp_all)
  moreover have "ss_id ?r = sid" "ss_trades_received ?r = seen" "ss_rows_written ?r = int (length (written s @ b))"
    using r by (simp_all add: beat_row_def beat_of_def)
  moreover have "q \<in> set (stream_sessions db)" if "q \<in> set (stream_sessions db0)" "ss_id q \<noteq> sid" for q
    using that assms(1) w(4) beats.other [of q _ "\<lambda>r. ss_id r = sid"] by (auto simp: rows_ok_def)
  moreover have "raw_trades db = raw_trades db0 @ rows0 @ rows" "list_all2 stored_as (rows0 @ rows) (written s @ b)"
    using w(1,2) rows0 by (simp_all add: list_all2_appendI)
  moreover have "pg_keys_ok db" using w(3) assms(1) by (simp add: rows_ok_def)
  ultimately show ?thesis unfolding rows_ok_def assms(3-5)
    by (intro conjI exI [of _ "rows0 @ rows"] bexI [of _ ?r] ballI impI)
qed

lemma rows_ok_finish:
  assumes "rows_ok sid db0 s" "finish sid i s = (r, db)" "pg s' = db" "reported s' = reported s" "written s' = written s"
  shows "rows_ok sid db0 s'"
proof -
  note f = finish_effect [OF assms(2)]
  obtain rows0 where rows0: "raw_trades (pg s) = raw_trades db0 @ rows0" "list_all2 stored_as rows0 (written s)"
    using assms(1) by (auto simp: rows_ok_def)
  consider (same) "stream_sessions db = stream_sessions (pg s)" | (ended) p where "stream_sessions db =
      update_where (\<lambda>r. ss_id r = sid) (finish_row p) (stream_sessions (pg s))" using f(3) by blast
  then show ?thesis
  proof cases
    case same
    with f assms show ?thesis by (intro rows_ok_cong [OF assms(1)]) simp_all
  next
    case ended
    obtain r where r: "r \<in> set (stream_sessions (pg s))" "ss_id r = sid" "ss_trades_received r = reported s"
      "ss_rows_written r = int (length (written s))" using assms(1) by (auto simp: rows_ok_def)
    have "finish_row p r \<in> set (stream_sessions db)" unfolding ended by (rule finishes.updated) (use r in simp_all)
    moreover have "ss_id (finish_row p r) = sid" "ss_trades_received (finish_row p r) = reported s"
      "ss_rows_written (finish_row p r) = int (length (written s))"
      using r by (simp_all add: finish_row_def case_prod_beta)
    moreover have "q \<in> set (stream_sessions db)" if "q \<in> set (stream_sessions db0)" "ss_id q \<noteq> sid" for q
      using that assms(1) ended finishes.other [of q _ "\<lambda>r. ss_id r = sid"] by (auto simp: rows_ok_def)
    moreover have "raw_trades db = raw_trades db0 @ rows0" "list_all2 stored_as rows0 (written s)" "pg_keys_ok db"
      using rows0 f(1,2) assms(1) by (simp_all add: rows_ok_def)
    ultimately show ?thesis unfolding rows_ok_def assms(3-5)
      by (intro conjI exI [of _ rows0] bexI [of _ "finish_row p r"] ballI impI)
  qed
qed

lemma rows_ok_main:
  assumes "rows_ok sid db0 s"
  shows "rows_ok sid db0 (main_step cfg sid i s)"
proof (cases "stage s")
  case (Writing b d seen)
  obtain r db where w: "write_batch sid i s b seen = (r, db)" by fastforce
  show ?thesis
  proof (cases r)
    case (Inl e)
    with w have "db = pg s" using write_batch_Inl by blast
    with Writing w Inl show ?thesis
      by (intro rows_ok_cong [OF assms]) (simp_all add: pg_main reported_written_main)
  next
    case (Inr u)
    with Writing w show ?thesis
      by (intro rows_ok_writing [OF assms, of i b seen u db]) (simp_all add: pg_main reported_written_main)
  qed
next
  case (Alerting b)
  obtain n db where c: "check_alerts (in_pg i) b (pg s) = (n, db)" by fastforce
  note e = check_alerts_effect [OF c]
  show ?thesis using Alerting c e
    by (intro rows_ok_cong [OF assms]) (simp_all add: pg_main reported_written_main)
next
  case Leaving
  obtain r db where "finish sid i s = (r, db)" by fastforce
  with Leaving show ?thesis
    by (intro rows_ok_finish [OF assms, of i r db]) (simp_all add: pg_main reported_written_main)
qed (intro rows_ok_cong [OF assms]; simp add: pg_main reported_written_main)+

section \<open>Reachable states\<close>

lemma record_event_Inr:
  assumes "record_event now ty d e = Inr e'"
  shows "last_message_at e' = Some now" "closed e \<Longrightarrow> closed e'"
    "ty \<noteq> JStr TRADE \<Longrightarrow> trades_seen e' = trades_seen e"
    "ty = JStr TRADE \<Longrightarrow> d = DInt n \<Longrightarrow> trades_seen e' = trades_seen e + n"
  using assms by (auto simp: record_event_def Let_def detail_true_def TRADE_def split: if_splits detail.splits)

definition stream_inv :: "nat \<Rightarrow> Tables.pg \<Rightarrow> sys \<Rightarrow> bool" where
  "stream_inv sid db0 s \<longleftrightarrow> flow_ok s \<and> counts_ok s \<and> closed_ok s \<and> rows_ok sid db0 s"

lemma stream_inv_main: "stream_inv sid db0 s \<Longrightarrow> stream_inv sid db0 (main_step cfg sid i s)"
  by (simp add: stream_inv_def flow_ok_main counts_ok_main closed_ok_main rows_ok_main)

lemma stream_inv_put:
  assumes "stream_inv sid db0 s" "pending s = Some (t # ts, n)"
  shows "stream_inv sid db0 (s\<lparr> queue := queue_put t (queue s), pending := Some (ts, n), received := received s @ [t] \<rparr>)"
proof -
  have "subseq (written s @ in_flight (stage s) @ queue s @ [t]) (received s @ [t])"
    using assms(1) list_emb_append_mono [of "(=)" "written s @ in_flight (stage s) @ queue s" "received s" "[t]" "[t]"]
    by (simp add: stream_inv_def flow_ok_def)
  with assms show ?thesis
    by (simp add: stream_inv_def flow_ok_def counts_ok_def closed_ok_def rows_ok_def queue_put_def put_ahead_def)
qed

lemma stream_inv_event:
  assumes "stream_inv sid db0 s" "record_event now ty d (evs s) = Inr e" "0 \<le> put_ahead p"
    "trades_seen e + put_ahead p = trades_seen (evs s) + put_ahead (pending s)" "trades_seen (evs s) \<le> trades_seen e"
  shows "stream_inv sid db0 (s\<lparr> evs := e, pending := p \<rparr>)"
  using assms record_event_Inr(1,2) [OF assms(2)]
  by (fastforce simp: stream_inv_def flow_ok_def counts_ok_def closed_ok_def rows_ok_def)

lemma stream_inv_thread:
  assumes "thread_step cfg sid s s'" "stream_inv sid db0 s"
  shows "stream_inv sid db0 s'"
  using assms
proof cases
  case (main i)
  with assms(2) show ?thesis by (simp add: stream_inv_main)
next
  case (message ts)
  with assms(2) show ?thesis
    by (auto simp: stream_inv_def flow_ok_def counts_ok_def closed_ok_def rows_ok_def put_ahead_def)
next
  case (put t ts n)
  with assms(2) show ?thesis by (simp add: stream_inv_put)
next
  case (counted n now e)
  have "trades_seen e = trades_seen (evs s) + int n" using record_event_Inr(4) [OF counted(3)] by simp
  with counted assms(2) show ?thesis
    using stream_inv_event [OF assms(2) counted(3), of None] by (simp add: put_ahead_def)
next
  case (event ty now d e)
  have "trades_seen e = trades_seen (evs s)" using record_event_Inr(3) [OF event(4,3)] .
  then have "stream_inv sid db0 (s\<lparr> evs := e, pending := None \<rparr>)"
    by (intro stream_inv_event [OF assms(2) event(4)]) (simp_all add: put_ahead_def event(2))
  moreover have "s\<lparr> evs := e, pending := None \<rparr> = s\<lparr> evs := e \<rparr>" using event(2) by (cases s) simp
  ultimately show ?thesis using event(1) by simp
qed

lemma stream_inv_step:
  assumes "stream_step cfg sid s s'" "stream_inv sid db0 s"
  shows "stream_inv sid db0 s'"
  using assms
proof cases
  case own
  then show ?thesis using assms(2) by (rule stream_inv_thread)
next
  case (others db)
  have inv: "flow_ok s" "counts_ok s" "closed_ok s" "rows_ok sid db0 s"
    using assms(2) by (simp_all add: stream_inv_def)
  have "rows_ok sid db0 (s\<lparr> pg := db \<rparr>)"
    using others(2)
    by (intro rows_ok_cong [OF inv(4)]) (simp_all add: other_service_def)
  moreover have "flow_ok (s\<lparr> pg := db \<rparr>)" "counts_ok (s\<lparr> pg := db \<rparr>)" "closed_ok (s\<lparr> pg := db \<rparr>)"
    using inv(1-3) by (simp_all add: flow_ok_def counts_ok_def closed_ok_def)
  ultimately show ?thesis unfolding others(1) stream_inv_def by blast
qed

lemma stream_inv_start:
  assumes "pg_keys_ok db" "run_start f now cfg n db r = Inr (sid, s0)"
  shows "stream_inv sid (pg s0) s0" "raw_trades (pg s0) = raw_trades db" "pending s0 = None"
    "set (stream_sessions db) \<subseteq> set (stream_sessions (pg s0))" "\<forall>r \<in> set (stream_sessions db). ss_id r \<noteq> sid"
proof -
  obtain db' where t: "transaction f (start_session now (symbols cfg) n) db = (Inr sid, db')" "s0 = initial db' r"
    using assms(2) by (auto simp: run_start_def split: prod.splits sum.splits)
  then have db': "sid = next_session_id db" "db' = db\<lparr> stream_sessions := stream_sessions db @
      [session_row_new now (next_session_id db) (symbols cfg) n], next_session_id := Suc (next_session_id db) \<rparr>"
    by (auto simp: transaction_Inr start_session_def split: option.splits)
  have keys: "pg_keys_ok db'"
    using assms(1) unfolding db' by (auto simp: pg_keys_ok_def session_row_new_def)
  have row: "session_row_new now sid (symbols cfg) n \<in> set (stream_sessions db')" by (simp add: db')
  have "\<exists>q \<in> set (stream_sessions db'). ss_id q = sid \<and> ss_trades_received q = 0 \<and> ss_rows_written q = 0"
    using row by (rule bexI [rotated]) (simp add: session_row_new_def)
  then have "rows_ok sid db' s0" using keys by (simp add: rows_ok_def t(2) initial_def)
  then show "stream_inv sid (pg s0) s0"
    by (simp add: t(2) stream_inv_def flow_ok_def counts_ok_def closed_ok_def initial_def no_events_def put_ahead_def)
  show "raw_trades (pg s0) = raw_trades db" "pending s0 = None"
    "set (stream_sessions db) \<subseteq> set (stream_sessions (pg s0))"
    by (auto simp: t(2) db' initial_def)
  show "\<forall>r \<in> set (stream_sessions db). ss_id r \<noteq> sid"
    using assms(1) by (auto simp: db'(1) pg_keys_ok_def serial_ok_def)
qed

lemma reached_inv: "reached cfg sid s0 s \<Longrightarrow> stream_inv sid db0 s0 \<Longrightarrow> stream_inv sid db0 s"
  by (induction rule: reached.induct) (auto intro: stream_inv_step)

text \<open>Main steps in a row, with the inputs of each.\<close>

fun main_steps :: "stream_config \<Rightarrow> nat \<Rightarrow> inputs list \<Rightarrow> sys \<Rightarrow> sys" where
  "main_steps cfg sid [] s = s"
| "main_steps cfg sid (i # is) s = main_steps cfg sid is (main_step cfg sid i s)"

lemma reached_main_steps: "reached cfg sid s0 s \<Longrightarrow> reached cfg sid s0 (main_steps cfg sid is s)"
  by (induction "is" arbitrary: s) (auto intro: reached.step [OF _ stream_step.own [OF thread_step.main]])

text \<open>How many steps the main thread is from its end once the socket is closed.\<close>

definition distance :: "stage \<Rightarrow> nat" where
  "distance st = (case st of Draining \<Rightarrow> 9 | Loading _ \<Rightarrow> 8 | Polling _ _ \<Rightarrow> 7 | Reading _ _ \<Rightarrow> 6
     | Writing _ _ _ \<Rightarrow> 5 | Saving _ _ \<Rightarrow> 4 | Alerting _ \<Rightarrow> 3 | Checking \<Rightarrow> 2 | Leaving \<Rightarrow> 1 | Finished \<Rightarrow> 0 | Raised _ \<Rightarrow> 0)"

lemma distance_main: "closed (evs s) \<Longrightarrow> distance (stage (main_step cfg sid i s)) \<le> distance (stage s) - 1"
  by (auto simp: main_step_def distance_def case_prod_beta split: stage.splits sum.splits option.splits prod.splits)

lemma distance_main_steps:
  "closed (evs s) \<Longrightarrow> distance (stage (main_steps cfg sid is s)) \<le> distance (stage s) - length is"
proof (induction "is" arbitrary: s)
  case (Cons i "is")
  then have "distance (stage (main_steps cfg sid is (main_step cfg sid i s)))
      \<le> distance (stage (main_step cfg sid i s)) - length is" by simp
  with distance_main [OF Cons.prems, of cfg sid i] show ?case by simp
qed simp

lemma distance_0: "distance st = 0 \<longleftrightarrow> main_ended st"
  by (cases st) (simp_all add: distance_def)

lemma distance_le: "distance st \<le> 9"
  by (simp add: distance_def split: stage.splits)

lemma closed_ends: "closed (evs s) \<Longrightarrow> 9 \<le> length is \<Longrightarrow> main_ended (stage (main_steps cfg sid is s))"
  using distance_main_steps [of s cfg sid "is"] distance_le [of "stage s"] by (simp add: distance_0 [symmetric])

lemma evs_main_steps [simp]: "evs (main_steps cfg sid is s) = evs s"
  by (induction "is" arbitrary: s) simp_all

lemma main_steps_append: "main_steps cfg sid (is @ js) s = main_steps cfg sid js (main_steps cfg sid is s)"
  by (induction "is" arbitrary: s) simp_all

text \<open>A main thread that has ended stays where it is.\<close>

lemma main_step_ended: "main_ended (stage s) \<Longrightarrow> main_step cfg sid i s = s"
  by (auto simp: main_step_def main_ended_def split: stage.splits)

lemma main_steps_ended: "main_ended (stage s) \<Longrightarrow> main_steps cfg sid is s = s"
  by (induction "is") (simp_all add: main_step_ended)

lemma main_step_ends: "main_ended (stage (main_step cfg sid i s)) \<longleftrightarrow> main_ended (stage s) \<or> stage s = Leaving"
  by (auto simp: main_step_def case_prod_beta split: stage.splits sum.splits option.splits prod.splits)

section \<open>The end of a session\<close>

text \<open>A row that has ended, and one that has not.\<close>

definition ended_row :: "session_row \<Rightarrow> bool" where
  "ended_row r \<longleftrightarrow> ss_disconnected_at r \<noteq> None \<and>
     (if ss_status r = ''failed'' then ss_error_message r \<noteq> None else ss_status r = ''closed'')"

definition live_row :: "session_row \<Rightarrow> bool" where
  "live_row r \<longleftrightarrow> ss_disconnected_at r = None \<and> ss_status r = ''live''"

lemma finish_Inr:
  assumes "finish sid i s = (Inr u, db)"
  obtains p where "stream_sessions db = update_where (\<lambda>r. ss_id r = sid) (finish_row p) (stream_sessions (pg s))"
    "\<And>r. ended_row (finish_row p r)"
proof -
  let ?bad = "detail_true (event_error (evs s))"
  let ?p = "(in_now i, if ?bad then ''failed'' else ''closed'', detail_text (event_error (evs s)))"
  have "stream_sessions db = update_where (\<lambda>r. ss_id r = sid) (finish_row ?p) (stream_sessions (pg s))"
    using assms by (auto simp: finish_def transaction_Inr finish_session_def split: option.splits)
  moreover have "ended_row (finish_row ?p r)" for r
    by (cases "event_error (evs s)") (simp_all add: ended_row_def finish_row_def detail_true_def detail_text_def)
  ultimately show thesis by (rule that)
qed

lemma finish_Inl: "finish sid i s = (Inl e, db) \<Longrightarrow> db = pg s"
  unfolding finish_def by (rule transaction_Inl)

definition closes_with :: "stream_config \<Rightarrow> nat \<Rightarrow> inputs list \<Rightarrow> sys \<Rightarrow> nat \<Rightarrow> bool" where
  "closes_with cfg sid is s k \<longleftrightarrow> (let t = main_steps cfg sid (take k is) s; e = main_steps cfg sid is s in
     stage t = Leaving \<and> pg e = snd (finish sid (is ! k) t) \<and>
     (case fst (finish sid (is ! k) t) of
        Inr u \<Rightarrow> stage e = Finished \<and> (\<forall>r \<in> set (stream_sessions (pg e)). ss_id r = sid \<longrightarrow> ended_row r)
      | Inl x \<Rightarrow> stage e = Raised x \<and> pg e = pg t))"

lemma closes_now:
  assumes "stage s = Leaving"
  shows "closes_with cfg sid (i # is) s 0"
proof (cases "finish sid i s")
  case (Pair answer db)
  show ?thesis
  proof (cases answer)
    case (Inl x)
    with Pair assms have "main_step cfg sid i s = s\<lparr> pg := db, stage := Raised x \<rparr>" by (simp add: main_step_def)
    with Pair Inl assms finish_Inl [of sid i s x db] show ?thesis
      by (simp add: closes_with_def main_steps_ended)
  next
    case (Inr u)
    with Pair obtain p where "stream_sessions db = update_where (\<lambda>r. ss_id r = sid) (finish_row p) (stream_sessions (pg s))"
      "\<And>r. ended_row (finish_row p r)" using finish_Inr [of sid i s u db] by metis
    then have "\<forall>r \<in> set (stream_sessions db). ss_id r = sid \<longrightarrow> ended_row r"
      by (auto simp: update_where_def split: if_splits)
    moreover have "main_step cfg sid i s = s\<lparr> pg := db, stage := Finished \<rparr>"
      using Pair Inr assms by (simp add: main_step_def)
    ultimately show ?thesis using Pair Inr assms by (simp add: closes_with_def main_steps_ended)
  qed
qed

lemma closing_step:
  assumes "closed (evs s)" "\<not> main_ended (stage s)" "distance (stage s) \<le> length is"
  shows "\<exists>k < distance (stage s). closes_with cfg sid is s k"
  using assms
proof (induction "is" arbitrary: s)
  case Nil
  then show ?case by (simp add: distance_0)
next
  case (Cons i "is")
  show ?case
  proof (cases "stage s = Leaving")
    case True
    then show ?thesis using closes_now by (auto simp: distance_def)
  next
    case False
    let ?s = "main_step cfg sid i s"
    note d = distance_main [OF Cons.prems(1), of cfg sid i]
    have "\<not> main_ended (stage ?s)" using False Cons.prems(2) by (simp add: main_step_ends)
    with Cons.IH [of ?s] Cons.prems d obtain k where k: "k < distance (stage ?s)" "closes_with cfg sid is ?s k" by force
    then have "closes_with cfg sid (i # is) s (Suc k)" by (simp add: closes_with_def)
    with k(1) d show ?thesis by (intro exI [of _ "Suc k"]) simp
  qed
qed

text \<open>From the check that notices the close on, nothing is written.\<close>

definition winding_up :: "sys \<Rightarrow> sys \<Rightarrow> bool" where
  "winding_up s s' \<longleftrightarrow> closed (evs s') \<and> (stage s' \<in> {Checking, Leaving} \<or> main_ended (stage s')) \<and>
     written s' = written s \<and> raw_trades (pg s') = raw_trades (pg s) \<and> prefix (queue s) (queue s')"

lemma winding_up_main: "winding_up s s' \<Longrightarrow> winding_up s (main_step cfg sid i s')"
proof (cases "stage s' = Leaving")
  case True
  assume w: "winding_up s s'"
  obtain r db where f: "finish sid i s' = (r, db)" by fastforce
  with finish_effect(1) [OF f] True w show ?thesis
    by (cases r) (simp_all add: winding_up_def main_step_def)
next
  case False
  assume w: "winding_up s s'"
  then consider "stage s' = Checking" | "main_ended (stage s')" using False by (auto simp: winding_up_def)
  then show ?thesis
  proof cases
    case 1
    with w show ?thesis by (simp add: winding_up_def main_step_def)
  qed (use w in \<open>simp add: main_step_ended\<close>)
qed

lemma winding_up_step:
  assumes "stream_step cfg sid s1 s2" "winding_up s s1"
  shows "winding_up s s2"
  using assms(1)
proof cases
  case own
  then show ?thesis
  proof cases
    case (main i)
    with assms(2) show ?thesis by (simp add: winding_up_main)
  next
    case (counted n now e)
    with assms(2) record_event_Inr(2) [OF counted(3)] show ?thesis by (simp add: winding_up_def)
  next
    case (event ty now d e)
    with assms(2) record_event_Inr(2) [OF event(4)] show ?thesis by (simp add: winding_up_def)
  qed (use assms(2) in \<open>auto simp: winding_up_def queue_put_def\<close>)
next
  case (others db)
  with assms(2) show ?thesis by (simp add: winding_up_def other_service_def)
qed

lemma winding_up_reached: "reached cfg sid s1 s2 \<Longrightarrow> winding_up s s1 \<Longrightarrow> winding_up s s2"
  by (induction rule: reached.induct) (auto intro: winding_up_step)

section \<open>Properties\<close>

text \<open>
  C1: Whatever the interleaving of the two threads and the failures of the network and the
  databases, every trade the socket thread has put on the queue is in exactly one place: inserted,
  dropped with a batch whose write failed, in the batch the main thread holds, or still queued.
  The rows this run has added to PostgreSQL are exactly the inserted trades, in the order in
  which they arrived, and every key of the schema is kept.
\<close>

theorem stream_conserves_trades:
  assumes "pg_keys_ok db0" "run_start f now cfg n db0 r = Inr (sid, s0)" "reached cfg sid s0 s"
  shows "mset (received s) = mset (written s) + mset (lost s) + mset (in_flight (stage s)) + mset (queue s) \<and>
    subseq (written s @ in_flight (stage s) @ queue s) (received s) \<and>
    (\<exists>rows. raw_trades (pg s) = raw_trades db0 @ rows \<and> list_all2 stored_as rows (written s)) \<and>
    pg_keys_ok (pg s)"
proof -
  note start = stream_inv_start [OF assms(1,2)]
  have "stream_inv sid (pg s0) s" by (rule reached_inv [OF assms(3) start(1)])
  then show ?thesis using start(2) by (simp add: stream_inv_def flow_ok_def rows_ok_def)
qed

definition demo_cfg :: stream_config where
  "demo_cfg = \<lparr> api_key = ''k'', symbols = [''NVDA''], ws_url = [], base_url = [], timeout_seconds = Fin 10,
     flush_interval_seconds = Fin 1, flush_max_rows = 500, reconnect_min_seconds = Fin 1,
     reconnect_max_seconds = Fin 60, market_status_interval_seconds = Fin 60, stale_after_seconds = Fin 90,
     redis_url = [] \<rparr>"

lemma demo_start: "\<exists>s0. run_start None 0 demo_cfg 0 empty_pg (\<lambda>k. []) = Inr (1, s0) \<and> pending s0 = None \<and>
    evs s0 = no_events \<and> queue s0 = [] \<and> received s0 = []"
  by (simp add: run_start_def transaction_def start_session_def text_error_def demo_cfg_def empty_pg_def initial_def)

theorem stream_conserves_trades_witness:
  "\<exists>s0 s. run_start None 0 demo_cfg 0 empty_pg (\<lambda>k. []) = Inr (1, s0) \<and> reached demo_cfg 1 s0 s \<and>
     received s = [sample 1 (Fin 5)] \<and> pg_keys_ok (pg s)"
proof -
  obtain s0 where s0: "run_start None 0 demo_cfg 0 empty_pg (\<lambda>k. []) = Inr (1, s0)" "pending s0 = None" "received s0 = []"
    using demo_start by blast
  let ?s1 = "s0\<lparr> pending := Some ([sample 1 (Fin 5)], length [sample 1 (Fin 5)]) \<rparr>"
  let ?s2 = "?s1\<lparr> queue := queue_put (sample 1 (Fin 5)) (queue ?s1), pending := Some ([], length [sample 1 (Fin 5)]),
    received := received ?s1 @ [sample 1 (Fin 5)] \<rparr>"
  have "stream_step demo_cfg 1 s0 ?s1" using s0(2) by (intro stream_step.own thread_step.message)
  moreover have "stream_step demo_cfg 1 ?s1 ?s2" by (intro stream_step.own thread_step.put) simp
  ultimately have r: "reached demo_cfg 1 s0 ?s2" by (blast intro: reached.intros)
  have "pg_keys_ok (pg ?s2)"
    using stream_conserves_trades [OF pg_keys_ok_empty s0(1) r] by blast
  with s0 r show ?thesis by (intro exI [of _ s0] exI [of _ ?s2]) simp
qed

text \<open>
  C15: The session row tells the truth at every moment of a run: its \<open>rows_written\<close> is exactly the
  number of trades inserted, its \<open>trades_received\<close> never exceeds the number of trades received,
  and the rows of all earlier sessions are untouched.
\<close>

theorem session_row_counts:
  assumes "pg_keys_ok db0" "run_start f now cfg n db0 r = Inr (sid, s0)" "reached cfg sid s0 s"
  shows "(\<exists>q \<in> set (stream_sessions (pg s)). ss_id q = sid \<and>
      ss_rows_written q = int (length (written s)) \<and> ss_trades_received q \<le> trades_seen (evs s) \<and>
      trades_seen (evs s) \<le> int (length (received s))) \<and>
    set (stream_sessions db0) \<subseteq> set (stream_sessions (pg s))"
proof -
  note start = stream_inv_start [OF assms(1,2)]
  have inv: "stream_inv sid (pg s0) s" by (rule reached_inv [OF assms(3) start(1)])
  then obtain q where "q \<in> set (stream_sessions (pg s))" "ss_id q = sid" "ss_trades_received q = reported s"
    "ss_rows_written q = int (length (written s))" by (auto simp: stream_inv_def rows_ok_def)
  moreover have "reported s \<le> trades_seen (evs s)" "trades_seen (evs s) \<le> int (length (received s))"
    using inv by (auto simp: stream_inv_def counts_ok_def)
  moreover have "set (stream_sessions db0) \<subseteq> set (stream_sessions (pg s))"
    using inv start(4,5) by (auto simp: stream_inv_def rows_ok_def)
  ultimately show ?thesis by auto
qed

theorem session_row_counts_witness:
  "\<exists>s0. run_start None 0 demo_cfg 0 empty_pg (\<lambda>k. []) = Inr (1, s0) \<and>
     (\<exists>q \<in> set (stream_sessions (pg s0)). ss_id q = 1 \<and> ss_rows_written q = int (length (written s0)))"
proof -
  obtain s0 where s0: "run_start None 0 demo_cfg 0 empty_pg (\<lambda>k. []) = Inr (1, s0)" using demo_start by blast
  from session_row_counts [OF pg_keys_ok_empty s0 reached.start] s0 show ?thesis by blast
qed

text \<open>
  C17: Once the socket is closed the main thread always gets out of \<open>flush_loop\<close>: whatever fails
  meanwhile, among its next nine steps there is one that runs the closing statement of the session,
  and that statement alone decides how the session ends. When it succeeds the session's row is
  ended (a time of disconnection, and \<open>closed\<close> or \<open>failed\<close> with a message); when it raises, the exception
  leaves \<open>run_once\<close> and the tables stay as they were. And when the close is noticed right after a flush, the trades still
  on the queue are never inserted: however the run goes on from there, nothing more is written and
  they stay on the queue.
\<close>

theorem closed_stream_finishes:
  assumes "closed (evs s)"
  shows "(\<not> main_ended (stage s) \<and> 9 \<le> length is \<longrightarrow>
      (\<exists>k < 9. let t = main_steps cfg sid (take k is) s; e = main_steps cfg sid is s in
         stage t = Leaving \<and> pg e = snd (finish sid (is ! k) t) \<and>
         (case fst (finish sid (is ! k) t) of
            Inr u \<Rightarrow> stage e = Finished \<and> (\<forall>r \<in> set (stream_sessions (pg e)). ss_id r = sid \<longrightarrow> ended_row r)
          | Inl x \<Rightarrow> stage e = Raised x \<and> pg e = pg t))) \<and>
    (stage s = Checking \<and> reached cfg sid s s' \<longrightarrow>
       written s' = written s \<and> raw_trades (pg s') = raw_trades (pg s) \<and> prefix (queue s) (queue s'))"
proof (intro conjI impI)
  assume "\<not> main_ended (stage s) \<and> 9 \<le> length is"
  with closing_step [OF assms, of "is" cfg sid] distance_le [of "stage s"]
  have "\<exists>k < 9. closes_with cfg sid is s k" by (meson order_less_le_trans order_trans)
  then show "\<exists>k < 9. let t = main_steps cfg sid (take k is) s; e = main_steps cfg sid is s in
      stage t = Leaving \<and> pg e = snd (finish sid (is ! k) t) \<and>
      (case fst (finish sid (is ! k) t) of
         Inr u \<Rightarrow> stage e = Finished \<and> (\<forall>r \<in> set (stream_sessions (pg e)). ss_id r = sid \<longrightarrow> ended_row r)
       | Inl x \<Rightarrow> stage e = Raised x \<and> pg e = pg t)"
    unfolding closes_with_def .
next
  assume s: "stage s = Checking \<and> reached cfg sid s s'"
  then have "winding_up s s" using assms by (simp add: winding_up_def)
  with s have "winding_up s s'" by (auto intro: winding_up_reached)
  then show "written s' = written s" "raw_trades (pg s') = raw_trades (pg s)" "prefix (queue s) (queue s')"
    by (simp_all add: winding_up_def)
qed

definition quiet_inputs :: inputs where
  "quiet_inputs = \<lparr> in_now = 0, in_mono = Fin 0, in_mono_after = Fin 0, in_get = (\<lambda>_ _ _ _. Inl OSError),
     in_pg = None, in_redis = None, in_saved = Done \<rparr>"

definition closed_sys :: sys where
  "closed_sys = (initial empty_pg (\<lambda>k. []))\<lparr> evs := no_events\<lparr> closed := True, last_message_at := Some 0 \<rparr>,
     queue := [sample 1 (Fin 5)], stage := Checking \<rparr>"

lemma closed_sys_steps:
  "closed (evs closed_sys)" "stage closed_sys = Checking" "\<not> main_ended (stage closed_sys)"
  by (simp_all add: closed_sys_def)

lemma quiet_finish: "evs s = evs closed_sys \<Longrightarrow> fst (finish sid quiet_inputs s) = Inr ()"
  by (simp add: finish_def transaction_def quiet_inputs_def finish_session_def closed_sys_def
      no_events_def detail_true_def detail_text_def text_error_def)

theorem closed_stream_finishes_witness:
  "stage (main_steps demo_cfg 1 (replicate 9 quiet_inputs) closed_sys) = Finished \<and>
   (\<exists>s. reached demo_cfg 1 closed_sys s \<and> stage s = Finished \<and> prefix [sample 1 (Fin 5)] (queue s))"
proof -
  let ?is = "replicate 9 quiet_inputs"
  let ?e = "main_steps demo_cfg 1 ?is closed_sys"
  obtain k where k: "k < 9" "case fst (finish 1 (?is ! k) (main_steps demo_cfg 1 (take k ?is) closed_sys)) of
      Inr u \<Rightarrow> stage ?e = Finished \<and> (\<forall>r \<in> set (stream_sessions (pg ?e)). ss_id r = 1 \<longrightarrow> ended_row r)
    | Inl x \<Rightarrow> stage ?e = Raised x \<and> pg ?e = pg (main_steps demo_cfg 1 (take k ?is) closed_sys)"
    using closed_stream_finishes [OF closed_sys_steps(1), of ?is demo_cfg 1 closed_sys] closed_sys_steps(3)
    unfolding Let_def by auto
  have "?is ! k = quiet_inputs" using k(1) by (rule nth_replicate)
  with k(2) quiet_finish [of "main_steps demo_cfg 1 (take k ?is) closed_sys" 1] have fin: "stage ?e = Finished" by simp
  have r: "reached demo_cfg 1 closed_sys ?e" by (rule reached_main_steps [OF reached.start])
  have "queue closed_sys = [sample 1 (Fin 5)]" by (simp add: closed_sys_def)
  with closed_stream_finishes [OF closed_sys_steps(1), of "[]" demo_cfg 1 ?e] closed_sys_steps(2) r fin
  show ?thesis by auto
qed

lemma run_has_message:
  assumes "pg_keys_ok db0" "run_start f now cfg n db0 r = Inr (sid, s0)" "reached cfg sid s0 s" "main_ended (stage s)"
  shows "last_message_at (evs s) \<noteq> None"
  using reached_inv [OF assms(3) stream_inv_start(1) [OF assms(1,2)]] assms(4)
  by (simp add: stream_inv_def closed_ok_def)

lemma delays_after_reset:
  assumes "\<forall>(u, e) \<in> set runs. last_message_at e \<noteq> None"
  shows "reconnect_delays b runs = map (\<lambda>(u, e). fst (next_delay u (reset b))) runs"
  using assms
proof (induction runs arbitrary: b)
  case (Cons x runs)
  obtain u e where x: "x = (u, e)" by fastforce
  have "reset (snd (next_delay u (reset b))) = reset b" by (simp add: next_delay_def reset_def)
  with Cons x show ?case by (simp add: after_run_def case_prod_beta)
qed simp

definition ended_run :: "events \<Rightarrow> bool" where
  "ended_run e \<longleftrightarrow> (\<exists>db0 f now cfg n r sid s0 s. pg_keys_ok db0 \<and> run_start f now cfg n db0 r = Inr (sid, s0) \<and>
     reached cfg sid s0 s \<and> main_ended (stage s) \<and> e = evs s)"

text \<open>
  The reconnect delay never grows. A run that ends has always recorded at least its own close
  event, so the backoff is reset before every delay: however many connections fail in a row,
  each delay is at most \<open>min_seconds\<close>.
\<close>

theorem reconnect_delay_never_grows:
  assumes "backoff_ok b" "min_seconds b = Fin m" "max_seconds b = Fin M"
    "\<forall>(u, e) \<in> set runs. 0 \<le> u \<and> u \<le> 1 \<and> ended_run e"
  shows "length (reconnect_delays b runs) = length runs \<and>
    (\<forall>d \<in> set (reconnect_delays b runs). \<exists>q. d = Fin q \<and> q \<le> m)"
proof -
  have "\<forall>(u, e) \<in> set runs. last_message_at e \<noteq> None"
    using assms(4) run_has_message unfolding ended_run_def by fast
  note delays = delays_after_reset [OF this, of b]
  have ok: "backoff_ok (reset b)" "min_seconds (reset b) = Fin m" "max_seconds (reset b) = Fin M" "attempts (reset b) = 0"
    using assms(1-3) by (simp_all add: reset_def backoff_ok_def)
  have "\<exists>q. fst (next_delay u (reset b)) = Fin q \<and> q \<le> m" if "0 \<le> u" "u \<le> 1" for u
    using next_delay_within [OF ok(1-3) that] ok(4) by auto
  then show ?thesis using assms(4) unfolding delays by fastforce
qed

lemma demo_ended: "\<exists>e. ended_run e"
proof -
  obtain s0 where s0: "run_start None 0 demo_cfg 0 empty_pg (\<lambda>k. []) = Inr (1, s0)" "pending s0 = None" "evs s0 = no_events"
    using demo_start by blast
  let ?e = "no_events\<lparr> last_message_at := Some 0, closed := True \<rparr>"
  have rec: "record_event 0 (JStr ''closed'') DNone (evs s0) = Inr ?e"
    by (simp add: s0(3) record_event_def no_events_def TRADE_def)
  have "stream_step demo_cfg 1 s0 (s0\<lparr> evs := ?e \<rparr>)"
    by (rule stream_step.own [OF thread_step.event [OF s0(2) _ rec]]) (simp add: TRADE_def)
  then have "reached demo_cfg 1 s0 (s0\<lparr> evs := ?e \<rparr>)" by (blast intro: reached.intros)
  then have r: "reached demo_cfg 1 s0 (main_steps demo_cfg 1 (replicate 9 quiet_inputs) (s0\<lparr> evs := ?e \<rparr>))"
    by (rule reached_main_steps)
  have "main_ended (stage (main_steps demo_cfg 1 (replicate 9 quiet_inputs) (s0\<lparr> evs := ?e \<rparr>)))"
    by (rule closed_ends) simp_all
  with r s0(1) pg_keys_ok_empty show ?thesis unfolding ended_run_def by blast
qed

theorem reconnect_delay_never_grows_witness:
  "\<exists>e. length (reconnect_delays (default_backoff 9) [(1/2, e), (1/4, e)]) = 2 \<and>
     (\<forall>d \<in> set (reconnect_delays (default_backoff 9) [(1/2, e), (1/4, e)]). \<exists>q. d = Fin q \<and> q \<le> 1)"
proof -
  obtain e where e: "ended_run e" using demo_ended by blast
  have "min_seconds (default_backoff 9) = Fin 1" "max_seconds (default_backoff 9) = Fin 60"
    by (simp_all add: default_backoff_def)
  from reconnect_delay_never_grows [OF default_backoff_ok this, of "[(1/2, e), (1/4, e)]"] e
  show ?thesis by (intro exI [of _ e]) simp
qed

end
