(* ===== verification/Tokens.thy ===== *)
theory Tokens
  imports PyText
begin

text \<open>
  Access tokens (api/tokens.py). The JWT library is an argument: \<open>encode\<close> signs claims,
  \<open>decode\<close> checks a token against the secret, the accepted algorithms, the required claims and
  the current time in seconds, and returns its claims or raises.
\<close>

definition ALGORITHM :: string where
  "ALGORITHM = ''HS256''"

record claims =
  claim_sub :: string
  claim_role :: string
  claim_iat :: int
  claim_exp :: int

record jwt =
  encode :: "claims \<Rightarrow> string \<Rightarrow> string \<Rightarrow> string"
  decode :: "string \<Rightarrow> string \<Rightarrow> string list \<Rightarrow> string list \<Rightarrow> int \<Rightarrow> claims result"

definition REQUIRED_CLAIMS :: "string list" where
  "REQUIRED_CLAIMS = [''exp'', ''sub'', ''role'']"

text \<open>What the service relies on: a token it signed is one word, accepted with the same secret
  from the time it was issued until it expires; and no token is accepted once expired.\<close>

definition jwt_ok :: "jwt \<Rightarrow> bool" where
  "jwt_ok J \<longleftrightarrow>
     (\<forall>c secret. encode J c secret ALGORITHM \<noteq> [] \<and> (\<forall>x \<in> set (encode J c secret ALGORITHM). \<not> is_space x)) \<and>
     (\<forall>c secret now. claim_iat c \<le> now \<and> now < claim_exp c \<longrightarrow>
        decode J (encode J c secret ALGORITHM) secret [ALGORITHM] REQUIRED_CLAIMS now = Inr c) \<and>
     (\<forall>token secret now c. decode J token secret [ALGORITHM] REQUIRED_CLAIMS now = Inr c \<longrightarrow> now < claim_exp c)"

text \<open>\<open>int(now.timestamp())\<close> of a time in microseconds since the epoch.\<close>

definition create_token :: "jwt \<Rightarrow> string \<Rightarrow> string \<Rightarrow> string \<Rightarrow> int \<Rightarrow> int \<Rightarrow> string" where
  "create_token J secret email role now expires_in_seconds =
     (let iat = now div 1000000
      in encode J \<lparr> claim_sub = email, claim_role = role, claim_iat = iat,
           claim_exp = iat + expires_in_seconds \<rparr> secret ALGORITHM)"

text \<open>Every error of the library becomes a \<open>TokenError\<close>.\<close>

definition decode_token :: "jwt \<Rightarrow> string \<Rightarrow> string \<Rightarrow> int \<Rightarrow> claims result" where
  "decode_token J secret token now_seconds =
     (case decode J token secret [ALGORITHM] REQUIRED_CLAIMS now_seconds of
        Inr c \<Rightarrow> Inr c | Inl e \<Rightarrow> Inl TokenError)"

lemma decode_created:
  assumes "jwt_ok J" "now div 1000000 \<le> s" "s < now div 1000000 + life"
  shows "decode_token J secret (create_token J secret email role now life) s =
    Inr \<lparr> claim_sub = email, claim_role = role, claim_iat = now div 1000000, claim_exp = now div 1000000 + life \<rparr>"
  using assms by (simp add: decode_token_def create_token_def jwt_ok_def Let_def)

lemma decode_token_Inl: "decode_token J secret token s = Inl e \<Longrightarrow> e = TokenError"
  by (auto simp: decode_token_def split: sum.splits)

section \<open>A library that meets the law\<close>

text \<open>Fields behind their length in unary; the signature is the secret itself.\<close>

definition put_field :: "string \<Rightarrow> string" where
  "put_field s = replicate (length s) CHR ''a'' @ CHR ''b'' # s"

definition get_field :: "string \<Rightarrow> string \<times> string" where
  "get_field t = (let n = length (takeWhile (\<lambda>c. c = CHR ''a'') t); r = drop (Suc n) t in (take n r, drop n r))"

lemma get_put_field [simp]: "get_field (put_field s @ r) = (s, r)"
proof -
  have "takeWhile (\<lambda>c. c = CHR ''a'') (replicate n CHR ''a'' @ CHR ''b'' # t) = replicate n CHR ''a''" for n t
    by (induction n) auto
  then show ?thesis by (simp add: get_field_def put_field_def)
qed

lemma get_last_field [simp]: "get_field (put_field s) = (s, [])"
  using get_put_field [of s "[]"] by simp

text \<open>The token itself spells every character in unary, so that it is one word.\<close>

definition spell :: "string \<Rightarrow> string" where
  "spell s = concat (map (\<lambda>c. replicate (of_char c) CHR ''x'' @ ''y'') s)"

definition unspell :: "string \<Rightarrow> string" where
  "unspell t = map (\<lambda>p. char_of (length p)) (butlast (split_on CHR ''y'' t))"

lemma unspell_spell [simp]: "unspell (spell s) = s"
proof (induction s)
  case (Cons c s)
  have "split_on CHR ''y'' (spell (c # s)) = replicate (of_char c) CHR ''x'' # split_on CHR ''y'' (spell s)"
    using split_on_piece [of "CHR ''y''" "replicate (of_char c) CHR ''x''" "spell s"] by (simp add: spell_def)
  with Cons show ?case by (simp add: unspell_def)
qed (simp add: unspell_def spell_def)

lemma set_spell: "set (spell s) \<subseteq> {CHR ''x'', CHR ''y''}"
  by (auto simp: spell_def)

definition toy_jwt :: jwt where
  "toy_jwt = \<lparr>
     encode = (\<lambda>c secret alg. spell (put_field secret @ put_field (claim_sub c) @ put_field (claim_role c) @
       put_field (str_of_int (claim_iat c)) @ put_field (str_of_int (claim_exp c)))),
     decode = (\<lambda>token secret algs req now.
       let (key, t1) = get_field (unspell token); (sub, t2) = get_field t1; (role, t3) = get_field t2;
           (iat, t4) = get_field t3; (ex, t5) = get_field t4
       in rbind (int_of_str iat) (\<lambda>i. rbind (int_of_str ex) (\<lambda>e.
          if key = secret \<and> now < e
          then Inr \<lparr> claim_sub = sub, claim_role = role, claim_iat = i, claim_exp = e \<rparr>
          else Inl TokenError))) \<rparr>"

lemma toy_jwt_ok: "jwt_ok toy_jwt"
proof -
  have "\<not> is_space CHR ''x''" "\<not> is_space CHR ''y''" by code_simp+
  then have word: "\<forall>c \<in> set (spell s). \<not> is_space c" for s using set_spell [of s] by auto
  have "spell (put_field s @ r) \<noteq> []" for s r by (simp add: spell_def put_field_def)
  with word show ?thesis
    by (auto simp: jwt_ok_def toy_jwt_def int_of_str_of_int rbind_eq_Inr Let_def split: prod.splits if_splits)
qed

lemma created_token_word:
  "jwt_ok J \<Longrightarrow> create_token J secret email role now life \<noteq> [] \<and>
     (\<forall>c \<in> set (create_token J secret email role now life). \<not> is_space c)"
  by (simp add: jwt_ok_def create_token_def Let_def)

end
