(* ===== verification/Passwords.thy ===== *)
theory Passwords
  imports Prelude
begin

text \<open>
  Password hashing (api/passwords.py). The bcrypt library is an argument: \<open>hashpw\<close> on the
  password's bytes and a salt, and \<open>checkpw\<close>, which may raise \<open>ValueError\<close> on a malformed hash.
  A character below 128 is one UTF-8 byte, one of the upper half of \<open>char\<close> two.
\<close>

definition BCRYPT_ROUNDS :: nat where
  "BCRYPT_ROUNDS = 12"

definition MAX_PASSWORD_BYTES :: nat where
  "MAX_PASSWORD_BYTES = 72"

definition utf8_char :: "char \<Rightarrow> nat list" where
  "utf8_char c = (let n = of_char c in if n < 128 then [n] else [192 + n div 64, 128 + n mod 64])"

definition utf8 :: "string \<Rightarrow> nat list" where
  "utf8 s = concat (map utf8_char s)"

record bcrypt =
  gensalt :: "nat \<Rightarrow> nat \<Rightarrow> string"
  hashpw :: "nat list \<Rightarrow> string \<Rightarrow> string"
  checkpw :: "nat list \<Rightarrow> nat list \<Rightarrow> bool result"

text \<open>What the services rely on: a hash made from a password of at most 72 bytes checks against
  that password, and has no NUL character.\<close>

definition bcrypt_ok :: "bcrypt \<Rightarrow> bool" where
  "bcrypt_ok B \<longleftrightarrow> (\<forall>p rounds seed. length p \<le> 72 \<longrightarrow>
     checkpw B p (utf8 (hashpw B p (gensalt B rounds seed))) = Inr True \<and>
     CHR 0x00 \<notin> set (hashpw B p (gensalt B rounds seed)))"

text \<open>\<open>seed\<close> is the randomness of \<open>gensalt\<close>.\<close>

definition hash_password :: "bcrypt \<Rightarrow> nat \<Rightarrow> string \<Rightarrow> string result" where
  "hash_password B seed password =
     (if password = [] then Inl ValueError
      else let encoded = utf8 password in
        if MAX_PASSWORD_BYTES < length encoded then Inl ValueError
        else Inr (hashpw B encoded (gensalt B BCRYPT_ROUNDS seed)))"

definition verify_password :: "bcrypt \<Rightarrow> string \<Rightarrow> string \<Rightarrow> bool result" where
  "verify_password B password password_hash =
     (case checkpw B (utf8 password) (utf8 password_hash) of
        Inr ok \<Rightarrow> Inr ok
      | Inl e \<Rightarrow> if e = ValueError then Inr False else Inl e)"

lemma hash_password_Inr:
  "hash_password B seed p = Inr h \<longleftrightarrow> p \<noteq> [] \<and> length (utf8 p) \<le> 72 \<and>
     h = hashpw B (utf8 p) (gensalt B BCRYPT_ROUNDS seed)"
  by (auto simp: hash_password_def Let_def MAX_PASSWORD_BYTES_def)

lemma verify_hashed:
  "bcrypt_ok B \<Longrightarrow> hash_password B seed p = Inr h \<Longrightarrow> verify_password B p h = Inr True"
  by (auto simp: hash_password_Inr verify_password_def bcrypt_ok_def)

text \<open>A library that meets the law: the hash is the password's bytes behind a letter.\<close>

definition toy_bcrypt :: bcrypt where
  "toy_bcrypt = \<lparr> gensalt = (\<lambda>r s. []), hashpw = (\<lambda>p s. replicate (length p) CHR ''h''),
     checkpw = (\<lambda>p h. Inr (length h = length p)) \<rparr>"

lemma toy_bcrypt_ok: "bcrypt_ok toy_bcrypt"
proof -
  have "length (utf8 (replicate n CHR ''h'')) = n" for n
    by (induction n) (simp_all add: utf8_def utf8_char_def)
  then show ?thesis by (simp add: bcrypt_ok_def toy_bcrypt_def)
qed

lemma length_utf8: "length s \<le> length (utf8 s)"
  by (induction s) (auto simp: utf8_def utf8_char_def Let_def)

end
