(* ===== verification/Emails.thy ===== *)
theory Emails
  imports PyText
begin

text \<open>
  The address check (api/emails.py): the pattern as a list of atoms and a backtracking matcher
  for it. In Python's \<open>re\<close> the final \<open>$\<close> also matches before a trailing newline; the
  request validation uses an engine where it matches at the end only.
\<close>

datatype atom = Plus "char \<Rightarrow> bool" | Lit char

definition plain_char :: "char \<Rightarrow> bool" where
  "plain_char c \<longleftrightarrow> c \<noteq> CHR ''@'' \<and> \<not> is_space c"

definition EMAIL_PATTERN :: "atom list" where
  "EMAIL_PATTERN = [Plus plain_char, Lit CHR ''@'', Plus plain_char, Lit CHR ''.'', Plus plain_char]"

definition MAX_EMAIL_LENGTH :: nat where
  "MAX_EMAIL_LENGTH = 254"

text \<open>\<open>at_end\<close> says which rests the final \<open>$\<close> accepts.\<close>

fun matches :: "(string \<Rightarrow> bool) \<Rightarrow> atom list \<Rightarrow> string \<Rightarrow> bool" where
  "matches at_end [] s = at_end s"
| "matches at_end (Lit c # ps) [] = False"
| "matches at_end (Lit c # ps) (x # s) = (x = c \<and> matches at_end ps s)"
| "matches at_end (Plus P # ps) [] = False"
| "matches at_end (Plus P # ps) (x # s) = (P x \<and> (matches at_end ps s \<or> matches at_end (Plus P # ps) s))"

definition end_or_newline :: "string \<Rightarrow> bool" where
  "end_or_newline s \<longleftrightarrow> s = [] \<or> s = [CHR 0x0A]"

definition end_only :: "string \<Rightarrow> bool" where
  "end_only s \<longleftrightarrow> s = []"

definition is_email :: "string \<Rightarrow> bool" where
  "is_email v \<longleftrightarrow> length v \<le> MAX_EMAIL_LENGTH \<and> matches end_or_newline EMAIL_PATTERN v"

section \<open>What it accepts\<close>

text \<open>The shape of an address, as the pattern reads.\<close>

definition email_shape :: "string \<Rightarrow> bool" where
  "email_shape t \<longleftrightarrow> (\<exists>a b c. t = a @ ''@'' @ b @ ''.'' @ c \<and> a \<noteq> [] \<and> b \<noteq> [] \<and> c \<noteq> [] \<and>
     (\<forall>x \<in> set (a @ b @ c). plain_char x))"

lemma matches_Plus:
  "matches E (Plus P # ps) s \<longleftrightarrow> (\<exists>a r. s = a @ r \<and> a \<noteq> [] \<and> (\<forall>x \<in> set a. P x) \<and> matches E ps r)"
  (is "?l s \<longleftrightarrow> ?r s")
proof (induction s)
  case (Cons x s)
  have "?r (x # s) \<longleftrightarrow> P x \<and> (matches E ps s \<or> ?r s)"
  proof
    assume "?r (x # s)"
    then obtain a r where ar: "x # s = a @ r" "a \<noteq> []" "\<forall>x \<in> set a. P x" "matches E ps r" by blast
    then obtain a' where a': "a = x # a'" "s = a' @ r" by (cases a) auto
    with ar show "P x \<and> (matches E ps s \<or> ?r s)" by (cases "a' = []") auto
  next
    assume r: "P x \<and> (matches E ps s \<or> ?r s)"
    show "?r (x # s)"
    proof (cases "matches E ps s")
      case True
      with r show ?thesis by (intro exI [of _ "[x]"] exI [of _ s]) simp
    next
      case False
      with r obtain a q where "s = a @ q" "a \<noteq> []" "\<forall>x \<in> set a. P x" "matches E ps q" by blast
      with r show ?thesis by (intro exI [of _ "x # a"] exI [of _ q]) simp
    qed
  qed
  with Cons show ?case by simp
qed simp

lemma matches_Lit: "matches E (Lit c # ps) s \<longleftrightarrow> (\<exists>r. s = c # r \<and> matches E ps r)"
  by (cases s) auto

lemma matches_pattern:
  "matches E EMAIL_PATTERN v \<longleftrightarrow> (\<exists>t r. v = t @ r \<and> email_shape t \<and> E r)"
proof
  assume "matches E EMAIL_PATTERN v"
  then obtain a b c r where v: "v = a @ CHR ''@'' # b @ CHR ''.'' # c @ r" "a \<noteq> []" "b \<noteq> []" "c \<noteq> []"
    "\<forall>x \<in> set a. plain_char x" "\<forall>x \<in> set b. plain_char x" "\<forall>x \<in> set c. plain_char x" "E r"
    unfolding EMAIL_PATTERN_def matches_Plus matches_Lit by auto
  then have "email_shape (a @ ''@'' @ b @ ''.'' @ c)" unfolding email_shape_def
    by (intro exI [of _ a] exI [of _ b] exI [of _ c]) auto
  moreover have "v = (a @ ''@'' @ b @ ''.'' @ c) @ r" using v(1) by simp
  ultimately show "\<exists>t r. v = t @ r \<and> email_shape t \<and> E r" using v(8) by blast
next
  assume "\<exists>t r. v = t @ r \<and> email_shape t \<and> E r"
  then obtain a b c r where v: "v = a @ CHR ''@'' # b @ CHR ''.'' # c @ r" "a \<noteq> []" "b \<noteq> []" "c \<noteq> []"
    "\<forall>x \<in> set (a @ b @ c). plain_char x" "E r" by (auto simp: email_shape_def)
  have 1: "matches E [Plus plain_char] (c @ r)"
    unfolding matches_Plus using v by (intro exI [of _ c] exI [of _ r]) simp
  have 2: "matches E (Plus plain_char # [Lit CHR ''.'', Plus plain_char]) (b @ CHR ''.'' # c @ r)"
    unfolding matches_Plus [of _ _ "[Lit CHR ''.'', Plus plain_char]"]
    using v 1 by (intro exI [of _ b] exI [of _ "CHR ''.'' # c @ r"]) (simp del: matches.simps(5))
  show "matches E EMAIL_PATTERN v"
    unfolding EMAIL_PATTERN_def matches_Plus [of _ _ "Lit CHR ''@'' # _"]
    using v 2 by (intro exI [of _ a] exI [of _ "CHR ''@'' # b @ CHR ''.'' # c @ r"]) (simp del: matches.simps(5))
qed

section \<open>Properties\<close>

text \<open>
  C37: An address is accepted exactly when it has at most 254 characters and is, up to one
  trailing newline, two runs of characters other than white space and \<open>@\<close> around a single \<open>@\<close>,
  the second run with a dot inside. So the check lets an address with a newline at its end
  through.
\<close>

theorem is_email_iff:
  "is_email v \<longleftrightarrow> length v \<le> 254 \<and> (\<exists>t. (v = t \<or> v = t @ [CHR 0x0A]) \<and> email_shape t)"
  unfolding is_email_def MAX_EMAIL_LENGTH_def matches_pattern end_or_newline_def by auto

end
