(* ===== verification/ApiConfig.thy ===== *)
theory ApiConfig
  imports PyEnv Emails
begin

text \<open>The settings of the API service (api/config.py).\<close>

definition API_DEFAULTS :: "(string \<times> string) list" where
  "API_DEFAULTS = [(''JWT_EXPIRY_SECONDS'', ''3600'')]"

definition MIN_SECRET_LENGTH :: nat where
  "MIN_SECRET_LENGTH = 32"

definition MAX_EXPIRY_SECONDS :: int where
  "MAX_EXPIRY_SECONDS = 86400"

record api_config =
  jwt_secret :: string
  token_expiry_seconds :: int
  admin_email :: "string option"
  admin_password :: "string option"

definition read_secret :: "env \<Rightarrow> string result" where
  "read_secret e =
     (let raw = strip (env_get e ''JWT_SECRET'' [])
      in if raw = [] then Inl (ConfigError ''JWT_SECRET is not set. Generate one with `openssl rand -hex 32` and put it in .env.'')
         else if length raw < MIN_SECRET_LENGTH
           then Inl (ConfigError (''JWT_SECRET must be at least 32 characters, got '' @ str_of_int (int (length raw)) @ ''.''))
         else Inr raw)"

text \<open>\<open>value or None\<close>.\<close>

definition or_none :: "string \<Rightarrow> string option" where
  "or_none v = (if v = [] then None else Some v)"

definition read_admin :: "env \<Rightarrow> (string option \<times> string option) result" where
  "read_admin e =
     (let email = or_none (strip (env_get e ''API_ADMIN_EMAIL'' []));
          password = or_none (env_get e ''API_ADMIN_PASSWORD'' [])
      in rbind (reject (email \<noteq> None \<and> password = None) ''API_ADMIN_EMAIL is set but API_ADMIN_PASSWORD is not. Set both to seed an admin, or neither to seed none.'') (\<lambda>_.
         rbind (reject (password \<noteq> None \<and> email = None) ''API_ADMIN_PASSWORD is set but API_ADMIN_EMAIL is not. Set both to seed an admin, or neither to seed none.'') (\<lambda>_.
         rbind (reject (case email of None \<Rightarrow> False | Some a \<Rightarrow> \<not> is_email a) ''API_ADMIN_EMAIL must be an email address'') (\<lambda>_.
           Inr (email, password)))))"

definition load_api_config :: "env \<Rightarrow> api_config result" where
  "load_api_config e =
     rbind (read_secret e) (\<lambda>secret.
     rbind (read_number API_DEFAULTS e ''JWT_EXPIRY_SECONDS'' int_setting) (\<lambda>expiry.
     rbind (reject (expiry < 1) ''JWT_EXPIRY_SECONDS must be at least 1'') (\<lambda>_.
     rbind (reject (expiry > MAX_EXPIRY_SECONDS) ''JWT_EXPIRY_SECONDS must be at most 86400'') (\<lambda>_.
     rbind (read_admin e) (\<lambda>(email, password).
       Inr \<lparr> jwt_secret = secret, token_expiry_seconds = expiry, admin_email = email,
             admin_password = password \<rparr>)))))"

section \<open>Lemmas\<close>

lemma read_secret_Inr: "read_secret e = Inr s \<Longrightarrow> 32 \<le> length s \<and> strip s = s"
  by (auto simp: read_secret_def Let_def MIN_SECRET_LENGTH_def split: if_splits)

lemma or_none_Some [simp]: "or_none v = Some w \<longleftrightarrow> w = v \<and> v \<noteq> []"
  by (auto simp: or_none_def)

lemma or_none_None [simp]: "or_none v = None \<longleftrightarrow> v = []"
  by (simp add: or_none_def)

lemma read_admin_Inr:
  "read_admin e = Inr (em, pw) \<Longrightarrow>
     (em = None \<and> pw = None) \<or>
     (\<exists>a p. em = Some a \<and> pw = Some p \<and> p \<noteq> [] \<and> is_email a \<and> strip a = a)"
  by (cases em; cases pw) (auto simp: read_admin_def Let_def rbind_eq_Inr or_none_def split: if_splits)

text \<open>A stripped address has no newline at its end, so it has the plain shape.\<close>

lemma stripped_email:
  assumes "is_email a" "strip a = a"
  shows "email_shape a"
proof -
  from assms(1) obtain t where t: "a = t \<or> a = t @ [CHR 0x0A]" "email_shape t"
    unfolding is_email_def matches_pattern end_or_newline_def by auto
  have "a \<noteq> t @ [CHR 0x0A]"
  proof
    assume "a = t @ [CHR 0x0A]"
    with assms(2) last_strip [of a] have "\<not> is_space CHR 0x0A" by auto
    then show False by (simp add: is_space_def char_code_def)
  qed
  with t show ?thesis by blast
qed

section \<open>Properties\<close>

text \<open>
  C36: Settings that load are within their bounds: the signing secret has at least 32 characters
  and no white space at its ends, a token lives between a second and a day, and the admin's
  address and password are both absent or both present, the password not empty and the address
  well formed.
\<close>

theorem load_api_config_valid:
  assumes "load_api_config e = Inr c"
  shows "32 \<le> length (jwt_secret c) \<and> strip (jwt_secret c) = jwt_secret c \<and>
    1 \<le> token_expiry_seconds c \<and> token_expiry_seconds c \<le> 86400 \<and>
    ((admin_email c = None \<and> admin_password c = None) \<or>
     (\<exists>a p. admin_email c = Some a \<and> admin_password c = Some p \<and> p \<noteq> [] \<and> email_shape a))"
proof -
  from assms obtain s x em pw where c: "read_secret e = Inr s" "\<not> x < 1" "\<not> x > MAX_EXPIRY_SECONDS"
    "read_admin e = Inr (em, pw)"
    "c = \<lparr> jwt_secret = s, token_expiry_seconds = x, admin_email = em, admin_password = pw \<rparr>"
    by (auto simp: load_api_config_def rbind_eq_Inr)
  with read_secret_Inr [OF c(1)] read_admin_Inr [OF c(4)] stripped_email show ?thesis
    by (auto simp: MAX_EXPIRY_SECONDS_def)
qed

definition api_env :: env where
  "api_env = [''JWT_SECRET'' \<mapsto> ''0123456789abcdef0123456789abcdef '', ''API_ADMIN_EMAIL'' \<mapsto> '' root@x.io'',
     ''API_ADMIN_PASSWORD'' \<mapsto> ''open sesame'']"

lemma api_env_loads: "\<exists>c. load_api_config api_env = Inr c \<and>
    admin_email c = Some ''root@x.io'' \<and> admin_password c = Some ''open sesame'' \<and> token_expiry_seconds c = 3600"
proof -
  have 1: "read_secret api_env = Inr ''0123456789abcdef0123456789abcdef''"
    by (simp add: read_secret_def api_env_def env_get_def strip_def lstrip_def rstrip_def is_space_def
        char_code_def MIN_SECRET_LENGTH_def)
  have 2: "read_number API_DEFAULTS api_env ''JWT_EXPIRY_SECONDS'' int_setting = Inr 3600"
    by (rule read_number_value [OF env_or_unset int_setting_digits [THEN trans]])
      (auto simp: api_env_def API_DEFAULTS_def MAX_STR_DIGITS_def text_eval)
  have "is_email ''root@x.io''"
    by (simp add: is_email_def MAX_EMAIL_LENGTH_def EMAIL_PATTERN_def end_or_newline_def plain_char_def
        is_space_def char_code_def)
  then have 3: "read_admin api_env = Inr (Some ''root@x.io'', Some ''open sesame'')"
    by (simp add: read_admin_def api_env_def env_get_def strip_def lstrip_def rstrip_def is_space_def
        char_code_def or_none_def)
  show ?thesis by (simp add: load_api_config_def 1 2 3 MAX_EXPIRY_SECONDS_def)
qed

theorem load_api_config_valid_witness:
  "\<exists>c. load_api_config api_env = Inr c \<and> 32 \<le> length (jwt_secret c) \<and>
     (\<exists>a p. admin_email c = Some a \<and> admin_password c = Some p \<and> email_shape a)"
proof -
  obtain c where c: "load_api_config api_env = Inr c" "admin_email c = Some ''root@x.io''"
    using api_env_loads by blast
  with load_api_config_valid [OF c(1)] show ?thesis by auto
qed

end
