(* ===== verification/ApiAuth.thy ===== *)
theory ApiAuth
  imports Tokens Passwords ApiConfig
begin

text \<open>Who is calling: the bearer header, the token's claims and the admin check (api/auth.py).\<close>

definition BEARER_SCHEME :: string where
  "BEARER_SCHEME = ''bearer''"

definition ADMIN_ROLE :: string where
  "ADMIN_ROLE = ''admin''"

record authenticated_user =
  user_email :: string
  user_role :: string

definition parse_bearer :: "string option \<Rightarrow> string option" where
  "parse_bearer header = (case header of
       None \<Rightarrow> None
     | Some h \<Rightarrow> if h = [] then None
         else (case words h of
             [scheme, token] \<Rightarrow> if lower scheme \<noteq> BEARER_SCHEME then None else or_none token
           | _ \<Rightarrow> None))"

definition unauthenticated :: exn where
  "unauthenticated = HTTPException 401 ''not authenticated''"

text \<open>\<open>now\<close> is the time in microseconds; the token library reads seconds.\<close>

definition get_current_user :: "jwt \<Rightarrow> api_config \<Rightarrow> int \<Rightarrow> string option \<Rightarrow> authenticated_user result" where
  "get_current_user J config now authorization =
     (case parse_bearer authorization of
        None \<Rightarrow> Inl unauthenticated
      | Some token \<Rightarrow> (case decode_token J (jwt_secret config) token (now div 1000000) of
          Inl e \<Rightarrow> if e = TokenError then Inl unauthenticated else Inl e
        | Inr c \<Rightarrow> Inr \<lparr> user_email = claim_sub c, user_role = claim_role c \<rparr>))"

definition require_admin :: "authenticated_user \<Rightarrow> authenticated_user result" where
  "require_admin user = (if user_role user \<noteq> ADMIN_ROLE
     then Inl (HTTPException 403 ''this action needs an admin account'') else Inr user)"

section \<open>Lemmas\<close>

lemma get_current_user_Inl: "get_current_user J config now h = Inl e \<Longrightarrow> e = unauthenticated"
  by (auto simp: get_current_user_def dest: decode_token_Inl split: option.splits sum.splits if_splits)

lemma words_two:
  assumes "a \<noteq> []" "b \<noteq> []" "\<forall>c \<in> set (a @ b). \<not> is_space c" "sp \<noteq> []" "\<forall>c \<in> set (pre @ sp @ post). is_space c"
  shows "words (pre @ a @ sp @ b @ post) = [a, b]"
proof -
  have skip: "words (xs @ r) = words r" if "\<forall>c \<in> set xs. is_space c" for xs r
    using that by (induction xs) (auto simp: words_space)
  have last: "words (b @ post) = [b]"
    using words_word [of b post] skip [of post "[]"] assms by (cases post) auto
  have "words (a @ sp @ b @ post) = a # words (sp @ b @ post)"
    using words_word [of a "sp @ b @ post"] assms by (cases sp) auto
  with skip [of sp "b @ post"] skip [of pre] last assms show ?thesis by auto
qed

lemma words_shape:
  "words s = w # ws \<Longrightarrow> \<exists>pre r. s = pre @ w @ r \<and> (\<forall>c \<in> set pre. is_space c) \<and> w \<noteq> [] \<and>
     (\<forall>c \<in> set w. \<not> is_space c) \<and> (r = [] \<or> is_space (hd r)) \<and> words r = ws"
proof -
  assume w: "words s = w # ws"
  let ?t = "dropWhile is_space s"
  have t: "?t \<noteq> []"
  proof
    assume "?t = []"
    with w show False by (subst (asm) words.simps) (simp add: lstrip_def)
  qed
  let ?w = "takeWhile (\<lambda>c. \<not> is_space c) ?t" and ?r = "dropWhile (\<lambda>c. \<not> is_space c) ?t"
  have "w = ?w" "ws = words ?r"
    using w hd_dropWhile [OF t] t by (subst (asm) words.simps; auto simp: lstrip_def split: list.splits)+
  moreover have "?w \<noteq> []" using hd_dropWhile [OF t] t by (cases ?t) auto
  moreover have "?r = [] \<or> is_space (hd ?r)" using hd_dropWhile [of "\<lambda>c. \<not> is_space c" ?t] by blast
  ultimately show ?thesis
    by (intro exI [of _ "takeWhile is_space s"] exI [of _ ?r]) (auto dest: set_takeWhileD)
qed

lemma words_Nil_iff: "words s = [] \<Longrightarrow> \<forall>c \<in> set s. is_space c"
  by (subst (asm) words.simps) (auto simp: lstrip_def dropWhile_eq_Nil_conv split: list.splits)

section \<open>Properties\<close>

text \<open>
  A bearer header yields a token exactly when it is, up to white space around and between
  them, the word bearer in any case and one word without white space: that word is the token.
\<close>

theorem parse_bearer_iff:
  "parse_bearer (Some h) = Some token \<longleftrightarrow>
     (\<exists>pre scheme sp post. h = pre @ scheme @ sp @ token @ post \<and> lower scheme = ''bearer'' \<and>
        sp \<noteq> [] \<and> token \<noteq> [] \<and> list_all is_space (pre @ sp @ post) \<and>
        list_all (\<lambda>c. \<not> is_space c) (scheme @ token))" (is "?l \<longleftrightarrow> ?r")
proof
  assume ?l
  then obtain scheme where s: "words h = [scheme, token]" "lower scheme = ''bearer''"
    by (auto simp: parse_bearer_def BEARER_SCHEME_def or_none_def split: if_splits list.splits)
  from words_shape [OF s(1)] obtain pre r where 1: "h = pre @ scheme @ r" "\<forall>c \<in> set pre. is_space c"
    "\<forall>c \<in> set scheme. \<not> is_space c" "r = [] \<or> is_space (hd r)" "words r = [token]" by blast
  from words_shape [OF 1(5)] obtain sp post where 2: "r = sp @ token @ post" "\<forall>c \<in> set sp. is_space c"
    "token \<noteq> []" "\<forall>c \<in> set token. \<not> is_space c" "words post = []" by blast
  have "sp \<noteq> []" using 1(4) 2 by (cases token) auto
  with 1 2 s(2) words_Nil_iff [OF 2(5)] show ?r
    by (intro exI [of _ pre] exI [of _ scheme] exI [of _ sp] exI [of _ post]) (auto simp: list_all_iff)
next
  assume ?r
  then obtain pre scheme sp post where h: "h = pre @ scheme @ sp @ token @ post" "lower scheme = ''bearer''"
    "sp \<noteq> []" "token \<noteq> []" "\<forall>c \<in> set (pre @ sp @ post). is_space c"
    "\<forall>c \<in> set (scheme @ token). \<not> is_space c" unfolding list_all_iff by blast
  moreover from h(2) have "scheme \<noteq> []" by (auto simp: lower_def)
  ultimately have "words h = [scheme, token]" using words_two [of scheme token sp pre post] by simp
  with h show ?l by (simp add: parse_bearer_def BEARER_SCHEME_def or_none_def)
qed

lemma parse_bearer_plain:
  assumes "token \<noteq> []" "\<forall>c \<in> set token. \<not> is_space c"
  shows "parse_bearer (Some (''Bearer '' @ token)) = Some token"
proof -
  have "lower ''Bearer'' = BEARER_SCHEME" "\<forall>c \<in> set ''Bearer''. \<not> is_space c" "is_space CHR '' ''"
    unfolding BEARER_SCHEME_def by code_simp+
  with words_two [of "''Bearer''" token "'' ''" "[]" "[]"] assms show ?thesis
    by (simp add: parse_bearer_def)
qed

end
