(* ===== verification/ApiDb.thy ===== *)
theory ApiDb
  imports PyEnv Isotime
begin

text \<open>
  The API's statements (api/db.py, api/queries.py) and the rows it serialises
  (api/serialize.py). \<open>stamp\<close> is the transaction's \<open>now()\<close>. A float parameter is sent as its
  \<open>repr\<close>, so a \<open>NUMERIC\<close> column stores that decimal exactly.
\<close>

definition ALERT_LIST_LIMIT :: nat where
  "ALERT_LIST_LIMIT = 20"

section \<open>Accounts\<close>

definition select_user :: "string \<Rightarrow> pg \<Rightarrow> user_row option result" where
  "select_user email db = (case text_error email of
       Some e \<Rightarrow> Inl e
     | None \<Rightarrow> (case filter (\<lambda>u. us_email u = email) (users db) of
           [] \<Rightarrow> Inr None
         | [u] \<Rightarrow> Inr (Some u)
         | _ \<Rightarrow> Inl (DbError ''Multiple rows were found when one or none was required'')))"

definition ROLES :: "string list" where
  "ROLES = [''admin'', ''user'']"

text \<open>\<open>ON CONFLICT DO NOTHING\<close> still draws a value of the sequence.\<close>

definition insert_user :: "int \<Rightarrow> string \<Rightarrow> string \<Rightarrow> string \<Rightarrow> pg \<Rightarrow> (nat option \<times> pg) result" where
  "insert_user stamp email password_hash role db =
     (case first_error (map text_error [email, password_hash, role]) of
       Some e \<Rightarrow> Inl e
     | None \<Rightarrow>
         if role \<notin> set ROLES then Inl (DbError ''users_role_check'')
         else let n = next_user_id db; db1 = db\<lparr> next_user_id := Suc n \<rparr>
           in if email \<in> us_email ` set (users db) then Inr (None, db1)
              else Inr (Some n, db1\<lparr> users := users db @ [\<lparr> us_id = n, us_email = email,
                us_password_hash = password_hash, us_role = role, us_created_at = stamp \<rparr>] \<rparr>))"

section \<open>Alerts\<close>

text \<open>The decimal \<open>repr\<close> writes. A NaN threshold has no row in this model; a request's
  threshold is above 0.\<close>

definition exact_decimal :: "pyfloat \<Rightarrow> rat result" where
  "exact_decimal x = (case x of
       Fin q \<Rightarrow> Inr (if q = 0 then 0
         else let (d, k) = repr_decimal \<bar>q\<bar> in sgn q * (of_int d * 10 powi k))
     | NaN \<Rightarrow> Inl (DbError ''NaN'')
     | _ \<Rightarrow> Inl (DbError ''cannot convert infinity to numeric''))"

definition new_alert :: "nat \<Rightarrow> user_row \<Rightarrow> int \<Rightarrow> string \<Rightarrow> string \<Rightarrow> rat \<Rightarrow> alert_row" where
  "new_alert n u stamp sy direction threshold =
     \<lparr> al_id = n, al_user_id = us_id u, al_symbol = sy, al_direction = direction,
       al_threshold = threshold, al_created_at = stamp, al_triggered_at = None,
       al_triggered_price = None \<rparr>"

definition DIRECTIONS :: "string list" where
  "DIRECTIONS = [''above'', ''below'']"

text \<open>\<open>INSERT ... SELECT\<close> inserts one row per account with the email (there is at most one), and
  \<open>scalar()\<close> returns the first one's id. The columns are checked only when a row is inserted;
  an infinite float is rejected as soon as it is cast to the column's type.\<close>

definition insert_alert ::
  "int \<Rightarrow> string \<Rightarrow> string \<Rightarrow> string \<Rightarrow> pyfloat \<Rightarrow> pg \<Rightarrow> (nat option \<times> pg) result" where
  "insert_alert stamp email sy direction threshold db =
     (case first_error (map text_error [email, sy, direction]) of
       Some e \<Rightarrow> Inl e
     | None \<Rightarrow> rbind (exact_decimal threshold) (\<lambda>t.
         (case filter (\<lambda>u. us_email u = email) (users db) of
           [] \<Rightarrow> Inr (None, db)
         | u # us \<Rightarrow>
             if direction \<notin> set DIRECTIONS then Inl (DbError ''price_alerts_direction_check'')
             else let n = next_alert_id db in
               Inr (Some n, db\<lparr> next_alert_id := n + Suc (length us),
                 price_alerts := price_alerts db @
                   map2 (\<lambda>i v. new_alert i v stamp sy direction t) [n..<n + Suc (length us)] (u # us) \<rparr>))))"

record listed_alert =
  la_alert_id :: nat
  la_email :: string
  la_symbol :: string
  la_direction :: string
  la_threshold :: rat
  la_created_at :: int
  la_triggered_at :: "int option"
  la_triggered_price :: "pyfloat option"

definition listed :: "alert_row \<Rightarrow> user_row \<Rightarrow> listed_alert" where
  "listed a u = \<lparr> la_alert_id = al_id a, la_email = us_email u, la_symbol = al_symbol a,
     la_direction = al_direction a, la_threshold = al_threshold a, la_created_at = al_created_at a,
     la_triggered_at = al_triggered_at a, la_triggered_price = al_triggered_price a \<rparr>"

text \<open>\<open>price_alerts JOIN users\<close>.\<close>

definition alerts_with_owner :: "pg \<Rightarrow> listed_alert list" where
  "alerts_with_owner db =
     [listed a u. a \<leftarrow> price_alerts db, u \<leftarrow> users db, us_id u = al_user_id a]"

definition select_alerts :: "string option \<Rightarrow> pg \<Rightarrow> listed_alert list result" where
  "select_alerts email db =
     (case (case email of None \<Rightarrow> None | Some e \<Rightarrow> text_error e) of
       Some err \<Rightarrow> Inl err
     | None \<Rightarrow> Inr (take ALERT_LIST_LIMIT (sort_key (\<lambda>r. - int (la_alert_id r))
         (filter (\<lambda>r. case email of None \<Rightarrow> True | Some e \<Rightarrow> la_email r = e) (alerts_with_owner db)))))"

text \<open>The row count of the delete.\<close>

definition delete_alert_row :: "int \<Rightarrow> pg \<Rightarrow> nat \<times> pg" where
  "delete_alert_row alert_id db =
     (length (filter (\<lambda>a. int (al_id a) = alert_id) (price_alerts db)),
      db\<lparr> price_alerts := filter (\<lambda>a. int (al_id a) \<noteq> alert_id) (price_alerts db) \<rparr>)"

section \<open>Candles and the engine\<close>

definition select_candles :: "int \<Rightarrow> string \<Rightarrow> int \<Rightarrow> pg \<Rightarrow> candle_row list result" where
  "select_candles stamp sy hours db = (case text_error sy of
       Some e \<Rightarrow> Inl e
     | None \<Rightarrow> Inr (sort_key cd_minute (filter (\<lambda>c. cd_symbol c = sy \<and>
         stamp - hours * 3600000000 \<le> cd_minute c) (candles db))))"

definition api_get_engine :: "env \<Rightarrow> string result" where
  "api_get_engine e =
     (let host = env_get e ''DESTINATION_POSTGRES_HOST'' ''destination_postgres'';
          port = env_get e ''DESTINATION_POSTGRES_PORT'' ''5432'';
          db_name = env_get e ''DESTINATION_POSTGRES_DB'' ''destination_db'';
          user = env_get e ''DESTINATION_POSTGRES_USER'' ''postgres'';
          password = env_get e ''DESTINATION_POSTGRES_PASSWORD'' []
      in if password = [] then Inl (RuntimeError ''DESTINATION_POSTGRES_PASSWORD is not set. Check that docker-compose.yaml passes ./.env to the api service.'')
         else Inr (''postgresql+psycopg2://'' @ user @ '':'' @ password @ ''@'' @ host @ '':'' @ port @
                   ''/'' @ db_name))"

section \<open>Serialised rows\<close>

record candle_dict =
  cj_symbol :: string
  cj_minute :: string
  cj_open :: pyfloat
  cj_high :: pyfloat
  cj_low :: pyfloat
  cj_close :: pyfloat
  cj_volume :: pyfloat
  cj_trade_count :: nat

definition candle_to_dict :: "candle_row \<Rightarrow> candle_dict" where
  "candle_to_dict c = \<lparr> cj_symbol = cd_symbol c, cj_minute = iso_time (cd_minute c),
     cj_open = cd_open c, cj_high = cd_high c, cj_low = cd_low c, cj_close = cd_close c,
     cj_volume = cd_volume c, cj_trade_count = cd_trade_count c \<rparr>"

text \<open>\<open>_float_or_none\<close> keeps the value (the column holds a float already), \<open>_iso_or_none\<close>
  formats it; \<open>float(Decimal)\<close> rounds to the nearest double.\<close>

record alert_dict =
  aj_alert_id :: nat
  aj_email :: string
  aj_symbol :: string
  aj_direction :: string
  aj_threshold :: pyfloat
  aj_created_at :: string
  aj_triggered_at :: "string option"
  aj_triggered_price :: "pyfloat option"

definition iso_or_none :: "int option \<Rightarrow> string option" where
  "iso_or_none v = map_option iso_time v"

definition alert_to_dict :: "listed_alert \<Rightarrow> alert_dict" where
  "alert_to_dict r = \<lparr> aj_alert_id = la_alert_id r, aj_email = la_email r, aj_symbol = la_symbol r,
     aj_direction = la_direction r, aj_threshold = rnd (la_threshold r),
     aj_created_at = iso_time (la_created_at r), aj_triggered_at = iso_or_none (la_triggered_at r),
     aj_triggered_price = la_triggered_price r \<rparr>"

section \<open>Lemmas: thresholds\<close>

lemma exact_decimal_reads:
  assumes "float_ok x" "exact_decimal x = Inr t"
  shows "rnd t = x"
proof -
  obtain q where q: "x = Fin q" using assms(2) by (cases x) (auto simp: exact_decimal_def)
  with assms(1) have d: "is_double q" by simp
  obtain d k where r: "repr_decimal \<bar>q\<bar> = (d, k)" by fastforce
  consider "q = 0" | "q < 0" | "0 < q" by linarith
  then show ?thesis
  proof cases
    case 1
    with q assms(2) show ?thesis by (auto simp: exact_decimal_def)
  next
    case 2
    then have t: "t = - (of_int d * 10 powi k)" using q assms(2) r by (auto simp: exact_decimal_def)
    have "rnd (of_int d * 10 powi k) = Fin (- q)"
      using repr_decimal_reads(1) [of "- q" d k] d r 2 by simp
    then show ?thesis unfolding t q by (auto dest: rnd_minus_Fin)
  next
    case 3
    then have "t = of_int d * 10 powi k" using q assms(2) r by (auto simp: exact_decimal_def)
    with 3 repr_decimal_reads(1) [of q d k] d r q show ?thesis by simp
  qed
qed

lemma exact_decimal_pos:
  "float_ok (Fin q) \<Longrightarrow> 0 < q \<Longrightarrow> \<exists>t. exact_decimal (Fin q) = Inr t \<and> 0 < t"
  using repr_decimal_reads(2) [of q] by (auto simp: exact_decimal_def split: prod.splits)

section \<open>Lemmas: accounts\<close>

text \<open>What the service needs of its accounts: under an invariant, adding an account that does not
  exist makes it the one looked up, and adding never disturbs an account that exists.\<close>

locale accounts =
  fixes inv :: "'db \<Rightarrow> bool"
    and lookup :: "string \<Rightarrow> 'db \<Rightarrow> 'u option"
    and add :: "string \<Rightarrow> 'p \<Rightarrow> 'db \<Rightarrow> 'db"
    and good :: "string \<Rightarrow> 'p \<Rightarrow> bool"
    and fresh :: "'p \<Rightarrow> 'u \<Rightarrow> bool"
  assumes inv_add: "inv db \<Longrightarrow> inv (add e p db)"
    and add_new: "inv db \<Longrightarrow> lookup e db = None \<Longrightarrow> good e p \<Longrightarrow> \<exists>u. lookup e (add e p db) = Some u \<and> fresh p u"
    and add_keeps: "inv db \<Longrightarrow> lookup e' db = Some u \<Longrightarrow> lookup e' (add e p db) = Some u"
    and add_other: "inv db \<Longrightarrow> e' \<noteq> e \<Longrightarrow> lookup e' (add e p db) = lookup e' db"
begin

abbreviation add_all :: "(string \<times> 'p) list \<Rightarrow> 'db \<Rightarrow> 'db" where
  "add_all reqs db \<equiv> fold (\<lambda>(e, p). add e p) reqs db"

lemma keeps: "inv db \<Longrightarrow> lookup e db = Some u \<Longrightarrow> lookup e (add_all reqs db) = Some u"
  by (induction reqs arbitrary: db) (auto simp: inv_add add_keeps)

text \<open>Of any sequence of registrations, the first one for an address decides its account.\<close>

lemma first_wins:
  assumes "inv db" "lookup e db = None" "map_of reqs e = Some p" "good e p"
  shows "\<exists>u. lookup e (add_all reqs db) = Some u \<and> fresh p u"
  using assms
proof (induction reqs arbitrary: db)
  case (Cons r rest)
  obtain a q where r: "r = (a, q)" by (cases r)
  note 2 = Cons [unfolded r]
  show ?case
  proof (cases "a = e")
    case True
    with 2 add_new [of db e q] obtain u where "lookup e (add e q db) = Some u" "fresh q u" by auto
    with keeps [of "add e q db" e u rest] inv_add [of db e q] 2 True r show ?thesis by auto
  next
    case False
    with 2 r inv_add add_other [of db e a q] show ?thesis by auto
  qed
qed simp

lemma never_added:
  "inv db \<Longrightarrow> map_of reqs e = None \<Longrightarrow> lookup e (add_all reqs db) = lookup e db"
  by (induction reqs arbitrary: db) (auto simp: inv_add add_other split: if_splits)

end

definition find_user :: "string \<Rightarrow> pg \<Rightarrow> user_row option" where
  "find_user email db = List.find (\<lambda>u. us_email u = email) (users db)"

definition users_ok :: "pg \<Rightarrow> bool" where
  "users_ok db \<longleftrightarrow> serial_ok us_id (users db) (next_user_id db) \<and> distinct (map us_email (users db))"

lemma pg_users_ok: "pg_keys_ok db \<Longrightarrow> users_ok db"
  by (simp add: pg_keys_ok_def users_ok_def)

lemma find_append: "List.find P (xs @ ys) = (case List.find P xs of None \<Rightarrow> List.find P ys | Some x \<Rightarrow> Some x)"
  by (induction xs) auto

lemma filter_one_key:
  "distinct (map k xs) \<Longrightarrow> filter (\<lambda>x. k x = v) xs = (case List.find (\<lambda>x. k x = v) xs of None \<Rightarrow> [] | Some x \<Rightarrow> [x])"
proof (induction xs)
  case (Cons x xs)
  show ?case
  proof (cases "k x = v")
    case True
    with Cons.prems have "filter (\<lambda>y. k y = v) xs = []" by (auto simp: filter_empty_conv image_iff)
    with True show ?thesis by simp
  qed (use Cons in simp)
qed simp

lemma filter_user:
  "users_ok db \<Longrightarrow> filter (\<lambda>u. us_email u = email) (users db) =
     (case find_user email db of None \<Rightarrow> [] | Some u \<Rightarrow> [u])"
  unfolding find_user_def by (rule filter_one_key) (simp add: users_ok_def)

lemma select_user_find:
  "users_ok db \<Longrightarrow> text_error email = None \<Longrightarrow> select_user email db = Inr (find_user email db)"
  by (simp add: select_user_def filter_user split: option.splits)

lemma find_user_None: "find_user email db = None \<longleftrightarrow> email \<notin> us_email ` set (users db)"
  by (auto simp: find_user_def find_None_iff)

lemma find_user_Some: "find_user email db = Some u \<Longrightarrow> us_email u = email \<and> u \<in> set (users db)"
  by (auto simp: find_user_def find_Some_iff)

lemma insert_user_new:
  assumes "insert_user stamp email h role db = Inr (Some n, db')"
  shows "n = next_user_id db \<and> find_user email db = None \<and> role \<in> set ROLES \<and>
    db' = db\<lparr> next_user_id := Suc n, users := users db @ [\<lparr> us_id = n, us_email = email,
      us_password_hash = h, us_role = role, us_created_at = stamp \<rparr>] \<rparr>"
  using assms by (auto simp: insert_user_def Let_def find_user_None split: option.splits if_splits)

lemma insert_user_old:
  assumes "insert_user stamp email h role db = Inr (None, db')"
  shows "find_user email db \<noteq> None \<and> db' = db\<lparr> next_user_id := Suc (next_user_id db) \<rparr>"
  using assms by (auto simp: insert_user_def Let_def find_user_None split: option.splits if_splits)

lemma users_ok_insert: "users_ok db \<Longrightarrow> insert_user stamp email h role db = Inr (r, db') \<Longrightarrow> users_ok db'"
proof (cases r)
  case None
  assume "users_ok db" "insert_user stamp email h role db = Inr (r, db')"
  with None insert_user_old [of stamp email h role db db'] show ?thesis
    by (auto simp: users_ok_def serial_ok_def less_Suc_eq)
next
  case (Some n)
  assume "users_ok db" "insert_user stamp email h role db = Inr (r, db')"
  with Some insert_user_new [of stamp email h role db n db'] show ?thesis
    by (auto simp: users_ok_def serial_ok_def less_Suc_eq find_user_None)
qed

lemma insert_user_keeps:
  "insert_user stamp email h role db = Inr (r, db') \<Longrightarrow> find_user e db = Some u \<Longrightarrow> find_user e db' = Some u"
  by (cases r) (auto simp: find_user_def find_append dest!: insert_user_new insert_user_old)

lemma find_user_insert_other:
  "insert_user stamp email h role db = Inr (r, db') \<Longrightarrow> e \<noteq> email \<Longrightarrow> find_user e db' = find_user e db"
  by (cases r) (auto simp: find_user_def find_append dest!: insert_user_new insert_user_old split: option.splits)

lemma find_user_inserted:
  "insert_user stamp email h role db = Inr (Some n, db') \<Longrightarrow>
     find_user email db' = Some \<lparr> us_id = n, us_email = email, us_password_hash = h, us_role = role,
       us_created_at = stamp \<rparr>"
  by (auto simp: find_user_def find_append dest!: insert_user_new)

lemma insert_user_plain:
  assumes "\<forall>s \<in> {email, h}. text_error s = None" "role \<in> set ROLES"
  shows "\<exists>r db'. insert_user stamp email h role db = Inr (r, db') \<and> (r = None \<longleftrightarrow> find_user email db \<noteq> None)"
proof -
  have "text_error role = None" using assms(2) by (auto simp: ROLES_def text_error_def)
  with assms have "first_error (map text_error [email, h, role]) = None" by (simp add: first_error_None_iff)
  with assms(2) show ?thesis by (auto simp: insert_user_def Let_def find_user_None)
qed

text \<open>The table after the statement, whatever it returned; a row that the table accepts.\<close>

definition add_user :: "string \<Rightarrow> int \<times> string \<times> string \<Rightarrow> pg \<Rightarrow> pg" where
  "add_user email p db = (case p of (stamp, h, role) \<Rightarrow>
     (case insert_user stamp email h role db of Inl _ \<Rightarrow> db | Inr (_, db') \<Rightarrow> db'))"

definition good_user :: "string \<Rightarrow> int \<times> string \<times> string \<Rightarrow> bool" where
  "good_user email p \<longleftrightarrow> (case p of (stamp, h, role) \<Rightarrow>
     text_error email = None \<and> text_error h = None \<and> role \<in> set ROLES)"

lemma add_user_Inr [simp]:
  "insert_user stamp email h role db = Inr (r, db') \<Longrightarrow> add_user email (stamp, h, role) db = db'"
  by (simp add: add_user_def)

lemma add_user_induct:
  assumes "P db" "\<And>stamp h role r db'. p = (stamp, h, role) \<Longrightarrow> insert_user stamp email h role db = Inr (r, db') \<Longrightarrow> P db'"
  shows "P (add_user email p db)"
  using assms by (auto simp: add_user_def split: sum.split prod.split)

interpretation accts: accounts users_ok find_user add_user good_user
  "\<lambda>p u. us_password_hash u = fst (snd p) \<and> us_role u = snd (snd p)"
proof
  fix db e p assume "users_ok db"
  then show "users_ok (add_user e p db)"
    by (rule add_user_induct) (rule users_ok_insert [OF \<open>users_ok db\<close>])
next
  fix db e p assume "users_ok db" "find_user e db = None" "good_user e p"
  moreover obtain stamp h role where p: "p = (stamp, h, role)" by (cases p)
  ultimately obtain n db' where "insert_user stamp e h role db = Inr (Some n, db')"
    using insert_user_plain [of e h role stamp db] by (auto simp: good_user_def)
  with p show "\<exists>u. find_user e (add_user e p db) = Some u \<and> us_password_hash u = fst (snd p) \<and> us_role u = snd (snd p)"
    using find_user_inserted [of stamp e h role db n db'] by simp
next
  fix db e' u e p assume "find_user e' db = Some u"
  then show "find_user e' (add_user e p db) = Some u"
    by (rule add_user_induct) (rule insert_user_keeps [OF _ \<open>find_user e' db = Some u\<close>])
next
  fix db and e' e :: string and p assume "e' \<noteq> e"
  show "find_user e' (add_user e p db) = find_user e' db"
    by (rule add_user_induct) (simp_all add: find_user_insert_other [OF _ \<open>e' \<noteq> e\<close>])
qed

end
