(* ===== verification/ApiMain.thy ===== *)
theory ApiMain
  imports ApiAuth ApiDb
begin

text \<open>
  The API's endpoints (api/main.py). An endpoint returns its result, or the exception that ends
  the request, and the database after it; an exception other than \<open>HTTPException\<close> is answered
  with status 500. A dependency (the caller's identity) is resolved before the request's own
  fields are validated. \<open>failure\<close> is the exception the database raises, when it fails.

  The validation library is an argument: \<open>conform\<close> returns the string a constrained field holds,
  or nothing when the field is rejected.
\<close>

section \<open>Request fields\<close>

record constraints =
  strip_whitespace :: bool
  case_lower :: bool
  case_upper :: bool
  min_length :: "nat option"
  max_length :: "nat option"
  pattern :: "atom list option"

record pydantic =
  conform :: "constraints \<Rightarrow> string \<Rightarrow> string option"

definition ascii :: "string \<Rightarrow> bool" where
  "ascii s \<longleftrightarrow> (\<forall>c \<in> set s. char_code c < 128)"

definition length_ok :: "constraints \<Rightarrow> string \<Rightarrow> bool" where
  "length_ok c t \<longleftrightarrow> (case min_length c of None \<Rightarrow> True | Some n \<Rightarrow> n \<le> length t) \<and>
     (case max_length c of None \<Rightarrow> True | Some n \<Rightarrow> length t \<le> n)"

text \<open>White space, as the library strips it, and what it makes of a text: stripped first, then in the
  requested case.\<close>

definition is_white :: "char \<Rightarrow> bool" where
  "is_white c = (let n = char_code c in 9 \<le> n \<and> n \<le> 13 \<or> n = 32 \<or> n = 133 \<or> n = 160)"

definition trim :: "string \<Rightarrow> string" where
  "trim s = rstrip is_white (lstrip is_white s)"

definition trimmed :: "constraints \<Rightarrow> string \<Rightarrow> string" where
  "trimmed c s = (if strip_whitespace c then trim s else s)"

definition cased :: "constraints \<Rightarrow> string \<Rightarrow> string" where
  "cased c t = (if case_lower c then lower t else if case_upper c then upper t else t)"

text \<open>The bounds and the pattern are checked on the stripped text.\<close>

definition meets :: "constraints \<Rightarrow> string \<Rightarrow> bool" where
  "meets c t \<longleftrightarrow> length_ok c t \<and> (case pattern c of None \<Rightarrow> True | Some p \<Rightarrow> matches end_only p t)"

text \<open>What the service relies on: a value that passes is stripped and in the requested case; of an ASCII
  text it is that text stripped and in that case, within the length bounds; and an
  ASCII text that meets every constraint once stripped passes.\<close>

definition pydantic_ok :: "pydantic \<Rightarrow> bool" where
  "pydantic_ok P \<longleftrightarrow>
     (\<forall>c s t. conform P c s = Some t \<longrightarrow> (strip_whitespace c \<longrightarrow> trim t = t) \<and> (case_lower c \<longrightarrow> lower t = t) \<and>
        (case_upper c \<and> \<not> case_lower c \<longrightarrow> upper t = t) \<and>
        (ascii s \<longrightarrow> t = cased c (trimmed c s) \<and> length_ok c t)) \<and>
     (\<forall>c s. ascii s \<and> meets c (trimmed c s) \<longrightarrow> conform P c s = Some (cased c (trimmed c s)))"

lemma trim_id: "strip s = s \<Longrightarrow> trim s = s"
proof (cases "s = []")
  case False
  assume "strip s = s"
  with False hd_strip [of s] last_strip [of s] have "\<not> is_white (hd s)" "\<not> is_white (last s)"
    by (auto simp: is_white_def is_space_def Let_def)
  with False show ?thesis by (cases s) (auto simp: trim_def lstrip_def rstrip_id)
qed (simp add: trim_def lstrip_def rstrip_def)

lemma trim_trim [simp]: "trim (trim s) = trim s"
proof -
  let ?u = "lstrip is_white s"
  obtain v where "?u = trim s @ v" using rstrip_append [of ?u is_white] by (auto simp: trim_def)
  then have "lstrip is_white (trim s) = trim s"
    using hd_dropWhile [of is_white s] by (cases "trim s") (auto simp: lstrip_def)
  moreover have "rstrip is_white (trim s) = trim s" by (simp add: trim_def rstrip_def)
  ultimately show ?thesis by (simp add: trim_def)
qed

lemma is_white_cased [simp]: "is_white (to_lower c) = is_white c" "is_white (to_upper c) = is_white c"
  by (auto simp: is_white_def to_lower_def to_upper_def Let_def char_code_char_of)

lemma pydantic_value:
  assumes "pydantic_ok P" "conform P c s = Some t"
  shows "strip_whitespace c \<Longrightarrow> trim t = t" "case_lower c \<Longrightarrow> lower t = t"
    "case_upper c \<Longrightarrow> \<not> case_lower c \<Longrightarrow> upper t = t"
    "ascii s \<Longrightarrow> t = cased c (trimmed c s) \<and> length_ok c t"
  using assms unfolding pydantic_ok_def by blast+

lemma pydantic_accepts: "pydantic_ok P \<Longrightarrow> ascii s \<Longrightarrow> meets c (trimmed c s) \<Longrightarrow> conform P c s = Some (cased c (trimmed c s))"
  unfolding pydantic_ok_def by blast

lemma trim_map: "(\<And>c. is_white (f c) = is_white c) \<Longrightarrow> trim (map f s) = map f (trim s)"
  by (simp add: trim_def lstrip_def rstrip_def dropWhile_map comp_def rev_map)

lemma trim_cased [simp]: "trim (lower s) = lower (trim s)" "trim (upper s) = upper (trim s)"
  by (simp_all add: lower_def upper_def trim_map)

lemma length_cased [simp]: "length (cased c s) = length s"
  by (simp add: cased_def)

definition Email :: constraints where
  "Email = \<lparr> strip_whitespace = True, case_lower = True, case_upper = False, min_length = None,
     max_length = Some MAX_EMAIL_LENGTH, pattern = Some EMAIL_PATTERN \<rparr>"

definition AlertSymbol :: constraints where
  "AlertSymbol = \<lparr> strip_whitespace = True, case_lower = False, case_upper = True, min_length = Some 1,
     max_length = Some 10, pattern = None \<rparr>"

definition unprocessable :: exn where
  "unprocessable = HTTPException 422 ''Unprocessable Entity''"

text \<open>\<open>LoginRequest\<close> and \<open>RegisterRequest\<close>.\<close>

definition read_credentials :: "pydantic \<Rightarrow> string \<Rightarrow> string \<Rightarrow> (string \<times> string) result" where
  "read_credentials P email password = (case conform P Email email of
       None \<Rightarrow> Inl unprocessable
     | Some e \<Rightarrow> if 1 \<le> length password \<and> length password \<le> 72 then Inr (e, password)
         else Inl unprocessable)"

record alert_request =
  req_symbol :: string
  req_direction :: string
  req_threshold :: pyfloat

definition read_alert_request :: "pydantic \<Rightarrow> alert_request \<Rightarrow> alert_request result" where
  "read_alert_request P r = (case conform P AlertSymbol (req_symbol r) of
       None \<Rightarrow> Inl unprocessable
     | Some s \<Rightarrow> if req_direction r \<in> {''above'', ''below''} \<and> py_lt (Fin 0) (req_threshold r)
         then Inr (r\<lparr> req_symbol := s \<rparr>) else Inl unprocessable)"

section \<open>Startup\<close>

text \<open>The tables exist already (\<open>CREATE TABLE IF NOT EXISTS\<close> leaves their rows alone).\<close>

definition NEW_USER_ROLE :: string where
  "NEW_USER_ROLE = ''user''"

definition prepare_database :: "bcrypt \<Rightarrow> nat \<Rightarrow> int \<Rightarrow> api_config \<Rightarrow> pg \<Rightarrow> (unit \<times> pg) result" where
  "prepare_database B seed stamp config db =
     (case (admin_email config, admin_password config) of
        (Some email, Some password) \<Rightarrow>
          if email = [] \<or> password = [] then Inr ((), db)
          else rbind (hash_password B seed password) (\<lambda>h.
               rbind (insert_user stamp (lower (strip email)) h ADMIN_ROLE db) (\<lambda>(_, db').
                 Inr ((), db')))
      | _ \<Rightarrow> Inr ((), db))"

text \<open>\<open>except SQLAlchemyError\<close> prints and goes on; every other exception stops the service.\<close>

definition swallow_db_error :: "exn \<Rightarrow> unit result" where
  "swallow_db_error e = (case e of DbError _ \<Rightarrow> Inr () | _ \<Rightarrow> Inl e)"

text \<open>\<open>connect\<close> is the exception of opening the connection, which comes before the settings are
  read; \<open>failure\<close> one of the transaction's statements.\<close>

definition lifespan ::
  "bcrypt \<Rightarrow> nat \<Rightarrow> int \<Rightarrow> env \<Rightarrow> exn option \<Rightarrow> exn option \<Rightarrow> pg \<Rightarrow> unit result \<times> pg" where
  "lifespan B seed stamp e connect failure db =
     (case api_get_engine e of
        Inl err \<Rightarrow> (swallow_db_error err, db)
      | Inr url \<Rightarrow> (case connect of
          Some err \<Rightarrow> (swallow_db_error err, db)
        | None \<Rightarrow> (case load_api_config e of
            Inl err \<Rightarrow> (swallow_db_error err, db)
          | Inr config \<Rightarrow> (case transaction failure (prepare_database B seed stamp config) db of
              (Inl err, db') \<Rightarrow> (swallow_db_error err, db')
            | (Inr _, db') \<Rightarrow> (Inr (), db')))))"

section \<open>Accounts\<close>

definition read_user :: "exn option \<Rightarrow> string \<Rightarrow> pg \<Rightarrow> user_row option result" where
  "read_user failure email db = (case failure of Some e \<Rightarrow> Inl e | None \<Rightarrow> select_user email db)"

definition create_user :: "exn option \<Rightarrow> int \<Rightarrow> string \<Rightarrow> string \<Rightarrow> string \<Rightarrow> pg \<Rightarrow> nat option result \<times> pg" where
  "create_user failure stamp email hashed_password role =
     transaction failure (insert_user stamp email hashed_password role)"

record login_response =
  access_token :: string
  token_role :: string

definition wrong_credentials :: exn where
  "wrong_credentials = HTTPException 401 ''wrong email or password''"

definition login ::
  "pydantic \<Rightarrow> bcrypt \<Rightarrow> jwt \<Rightarrow> api_config \<Rightarrow> int \<Rightarrow> exn option \<Rightarrow> string \<Rightarrow> string \<Rightarrow> pg \<Rightarrow> login_response result" where
  "login P B J config now failure raw_email raw_password db =
     rbind (read_credentials P raw_email raw_password) (\<lambda>(email, password).
     rbind (read_user failure email db) (\<lambda>user.
       case user of
         None \<Rightarrow> Inl wrong_credentials
       | Some u \<Rightarrow> rbind (verify_password B password (us_password_hash u)) (\<lambda>ok.
           if \<not> ok then Inl wrong_credentials
           else Inr \<lparr> access_token = create_token J (jwt_secret config) email (us_role u) now
                        (token_expiry_seconds config), token_role = us_role u \<rparr>)))"

definition register ::
  "pydantic \<Rightarrow> bcrypt \<Rightarrow> nat \<Rightarrow> int \<Rightarrow> exn option \<Rightarrow> string \<Rightarrow> string \<Rightarrow> pg \<Rightarrow> (string \<times> string) result \<times> pg" where
  "register P B seed stamp failure raw_email raw_password db =
     (case read_credentials P raw_email raw_password of
        Inl e \<Rightarrow> (Inl e, db)
      | Inr (email, password) \<Rightarrow> (case hash_password B seed password of
          Inl e \<Rightarrow> (Inl e, db)
        | Inr h \<Rightarrow> (case create_user failure stamp email h NEW_USER_ROLE db of
            (Inl e, db') \<Rightarrow> (Inl e, db')
          | (Inr None, db') \<Rightarrow> (Inl (HTTPException 409 ''an account with that email already exists''), db')
          | (Inr (Some _), db') \<Rightarrow> (Inr (email, NEW_USER_ROLE), db'))))"

section \<open>Alerts\<close>

definition create_alert ::
  "exn option \<Rightarrow> int \<Rightarrow> string \<Rightarrow> string \<Rightarrow> string \<Rightarrow> pyfloat \<Rightarrow> pg \<Rightarrow> nat option result \<times> pg" where
  "create_alert failure stamp email sy direction threshold =
     transaction failure (insert_alert stamp email sy direction threshold)"

definition add_alert ::
  "pydantic \<Rightarrow> jwt \<Rightarrow> api_config \<Rightarrow> int \<Rightarrow> exn option \<Rightarrow> string option \<Rightarrow> alert_request \<Rightarrow> pg \<Rightarrow>
     (nat \<times> alert_request) result \<times> pg" where
  "add_alert P J config now failure header req db =
     (case rbind (get_current_user J config now header) (\<lambda>user.
           rbind (read_alert_request P req) (\<lambda>alert. Inr (user, alert))) of
        Inl e \<Rightarrow> (Inl e, db)
      | Inr (user, alert) \<Rightarrow>
          (case create_alert failure now (user_email user) (req_symbol alert) (req_direction alert)
                  (req_threshold alert) db of
             (Inl e, db') \<Rightarrow> (Inl e, db')
           | (Inr None, db') \<Rightarrow> (Inl (HTTPException 401 ''this account no longer exists''), db')
           | (Inr (Some n), db') \<Rightarrow> (Inr (n, alert), db')))"

definition read_alerts :: "exn option \<Rightarrow> string option \<Rightarrow> pg \<Rightarrow> listed_alert list result" where
  "read_alerts failure email db = (case failure of Some e \<Rightarrow> Inl e | None \<Rightarrow> select_alerts email db)"

definition list_alerts ::
  "jwt \<Rightarrow> api_config \<Rightarrow> int \<Rightarrow> exn option \<Rightarrow> string option \<Rightarrow> pg \<Rightarrow> alert_dict list result" where
  "list_alerts J config now failure header db =
     rbind (get_current_user J config now header) (\<lambda>user.
       let email = (if user_role user = ADMIN_ROLE then None else Some (user_email user))
       in rbind (read_alerts failure email db) (\<lambda>rows. Inr (map alert_to_dict rows)))"

definition delete_alert :: "exn option \<Rightarrow> int \<Rightarrow> pg \<Rightarrow> nat result \<times> pg" where
  "delete_alert failure alert_id = transaction failure (\<lambda>db. Inr (delete_alert_row alert_id db))"

definition remove_alert ::
  "jwt \<Rightarrow> api_config \<Rightarrow> int \<Rightarrow> exn option \<Rightarrow> string option \<Rightarrow> int \<Rightarrow> pg \<Rightarrow> unit result \<times> pg" where
  "remove_alert J config now failure header alert_id db =
     (case rbind (get_current_user J config now header) require_admin of
        Inl e \<Rightarrow> (Inl e, db)
      | Inr user \<Rightarrow> (case delete_alert failure alert_id db of
          (Inl e, db') \<Rightarrow> (Inl e, db')
        | (Inr n, db') \<Rightarrow> (if n = 0 then Inl (HTTPException 404 ''no such alert'') else Inr (), db')))"

section \<open>Candles and health\<close>

definition health :: "string result" where
  "health = Inr ''ok''"

definition read_candles :: "exn option \<Rightarrow> int \<Rightarrow> string \<Rightarrow> int \<Rightarrow> pg \<Rightarrow> candle_row list result" where
  "read_candles failure stamp sy hours db = (case failure of
       Some e \<Rightarrow> Inl e | None \<Rightarrow> select_candles stamp sy hours db)"

definition candles_route ::
  "jwt \<Rightarrow> api_config \<Rightarrow> int \<Rightarrow> exn option \<Rightarrow> string option \<Rightarrow> string \<Rightarrow> int \<Rightarrow> pg \<Rightarrow> candle_dict list result" where
  "candles_route J config now failure header sy hours db =
     rbind (get_current_user J config now header) (\<lambda>user.
       if 1 \<le> length sy \<and> length sy \<le> 10 \<and> 1 \<le> hours \<and> hours \<le> 24
       then rbind (read_candles failure now (upper sy) hours db) (\<lambda>rows. Inr (map candle_to_dict rows))
       else Inl unprocessable)"

text \<open>The status a request is answered with.\<close>

definition status_of :: "nat \<Rightarrow> 'a result \<Rightarrow> nat" where
  "status_of success r = (case r of
       Inr _ \<Rightarrow> success
     | Inl (HTTPException n _) \<Rightarrow> n
     | Inl _ \<Rightarrow> 500)"

lemma status_of_simps [simp]:
  "status_of n (Inr x) = n" "status_of n (Inl (HTTPException k m)) = k" "status_of n (Inl ValueError) = 500"
  "status_of n (Inl (DbError m)) = 500" "status_of n (Inl unauthenticated) = 401"
  "status_of n (Inl unprocessable) = 422" "status_of n (Inl wrong_credentials) = 401"
  by (simp_all add: status_of_def unauthenticated_def unprocessable_def wrong_credentials_def)

end
