(* ===== verification/ApiAccounts.thy ===== *)
theory ApiAccounts
  imports ApiMain
begin

text \<open>Registration, login and the seeded admin: what the account endpoints promise.\<close>

section \<open>One request\<close>

lemma transaction_None: "transaction None body db = (case body db of Inl e \<Rightarrow> (Inl e, db) | Inr (x, db') \<Rightarrow> (Inr x, db'))"
  by (simp add: transaction_def)

lemma register_Inr:
  assumes "register P B seed stamp failure em pw db = (Inr (email, role), db')"
  shows "\<exists>p h n. read_credentials P em pw = Inr (email, p) \<and> hash_password B seed p = Inr h \<and>
    role = NEW_USER_ROLE \<and> insert_user stamp email h NEW_USER_ROLE db = Inr (Some n, db')"
  using assms by (auto simp: register_def create_user_def transaction_Inr split: sum.splits prod.splits option.splits)

text \<open>A registration leaves the accounts alone or adds one.\<close>

lemma register_step:
  "snd (register P B seed stamp failure em pw db) = db \<or>
   (\<exists>email p. snd (register P B seed stamp failure em pw db) = add_user email p db)"
proof -
  consider e where "read_credentials P em pw = Inl e"
    | email p e where "read_credentials P em pw = Inr (email, p)" "hash_password B seed p = Inl e"
    | email p h where "read_credentials P em pw = Inr (email, p)" "hash_password B seed p = Inr h"
    by (metis obj_sumE surj_pair)
  then show ?thesis
  proof cases
    case (3 email p h)
    then show ?thesis
    proof (cases "create_user failure stamp email h NEW_USER_ROLE db")
      case (Pair r db')
      from Pair have "db' = db \<or> (\<exists>n. insert_user stamp email h NEW_USER_ROLE db = Inr (n, db'))"
        unfolding create_user_def by (cases r) (auto simp: transaction_Inr dest: transaction_Inl)
      moreover have "snd (register P B seed stamp failure em pw db) = db'"
        using 3 Pair by (auto simp: register_def split: sum.splits option.splits)
      ultimately show ?thesis by (metis add_user_Inr)
    qed
  qed (simp_all add: register_def)
qed

text \<open>A sequence of registrations is a sequence of additions.\<close>

record registration =
  rq_seed :: nat
  rq_stamp :: int
  rq_failure :: "exn option"
  rq_email :: string
  rq_password :: string

definition register_all :: "pydantic \<Rightarrow> bcrypt \<Rightarrow> registration list \<Rightarrow> pg \<Rightarrow> pg" where
  "register_all P B = fold (\<lambda>r db. snd (register P B (rq_seed r) (rq_stamp r) (rq_failure r)
     (rq_email r) (rq_password r) db))"

lemma register_all_adds: "\<exists>adds. register_all P B rs db = fold (\<lambda>(e, p). add_user e p) adds db"
proof (induction rs arbitrary: db)
  case Nil
  show ?case by (intro exI [of _ "[]"]) (simp add: register_all_def)
next
  case (Cons r rs)
  let ?db = "snd (register P B (rq_seed r) (rq_stamp r) (rq_failure r) (rq_email r) (rq_password r) db)"
  obtain adds where a: "register_all P B (r # rs) db = fold (\<lambda>(e, p). add_user e p) adds ?db"
    using Cons [of ?db] by (auto simp: register_all_def)
  from register_step consider "?db = db" | e p where "?db = add_user e p db" by blast
  then show ?case
  proof cases
    case (2 e p)
    with a show ?thesis by (intro exI [of _ "(e, p) # adds"]) simp
  qed (use a in auto)
qed

lemma register_all_keeps:
  "users_ok db \<Longrightarrow> find_user e db = Some u \<Longrightarrow> find_user e (register_all P B rs db) = Some u"
  using register_all_adds [of P B rs db] accts.keeps by fastforce

lemma register_all_ok: "users_ok db \<Longrightarrow> users_ok (register_all P B rs db)"
proof -
  have "users_ok db \<Longrightarrow> users_ok (fold (\<lambda>(e, p). add_user e p) adds db)" for adds
    by (induction adds arbitrary: db) (auto simp: accts.inv_add)
  then show "users_ok db \<Longrightarrow> users_ok (register_all P B rs db)" using register_all_adds [of P B rs db] by auto
qed

section \<open>Logging in\<close>

lemma login_accepts:
  assumes "users_ok db" "read_credentials P em pw = Inr (email, p)" "text_error email = None"
    "find_user email db = Some u" "verify_password B p (us_password_hash u) = Inr True"
  shows "login P B J config now None em pw db = Inr \<lparr> access_token =
    create_token J (jwt_secret config) email (us_role u) now (token_expiry_seconds config), token_role = us_role u \<rparr>"
  using assms by (simp add: login_def read_user_def select_user_find)

lemma token_identifies:
  assumes "jwt_ok J" "now \<le> s" "s div 1000000 < now div 1000000 + token_expiry_seconds config"
  shows "get_current_user J config s (Some (''Bearer '' @
      create_token J (jwt_secret config) email role now (token_expiry_seconds config))) =
    Inr \<lparr> user_email = email, user_role = role \<rparr>"
proof -
  have "now div 1000000 \<le> s div 1000000" using assms(2) by (rule zdiv_mono1) simp
  then show ?thesis using assms created_token_word [OF assms(1)]
    by (simp add: get_current_user_def parse_bearer_plain decode_created del: append.simps)
qed

lemma insert_user_text: "insert_user stamp email h role db = Inr r \<Longrightarrow> text_error email = None \<and> text_error h = None"
  by (auto simp: insert_user_def first_error_None_iff split: option.splits if_splits)

text \<open>
  C14: Whoever registers can sign in, whatever registrations follow: logging in with the same
  address and password yields a token, and until the token expires a request that bears it is
  made by that address as an ordinary user.
\<close>

theorem register_then_login:
  assumes "bcrypt_ok B" "jwt_ok J" "users_ok db"
    and reg: "register P B seed stamp failure em pw db = (Inr (email, role), db1)"
  shows "\<exists>r. login P B J config now None em pw (register_all P B later db1) = Inr r \<and> token_role r = ''user'' \<and>
    (\<forall>s \<ge> now. s div 1000000 < now div 1000000 + token_expiry_seconds config \<longrightarrow>
       get_current_user J config s (Some (''Bearer '' @ access_token r)) =
         Inr \<lparr> user_email = email, user_role = ''user'' \<rparr>)"
proof -
  from register_Inr [OF reg] obtain p h n where r: "read_credentials P em pw = Inr (email, p)"
    "hash_password B seed p = Inr h" "insert_user stamp email h NEW_USER_ROLE db = Inr (Some n, db1)" by blast
  let ?db = "register_all P B later db1"
  have ok: "users_ok db1" by (rule users_ok_insert [OF assms(3) r(3)])
  obtain u where u: "find_user email ?db = Some u" "us_password_hash u = h" "us_role u = ''user''"
    using register_all_keeps [OF ok find_user_inserted [OF r(3)], of P B later] by (simp add: NEW_USER_ROLE_def)
  have "verify_password B p (us_password_hash u) = Inr True"
    using verify_hashed [OF assms(1) r(2)] u(2) by simp
  from login_accepts [OF register_all_ok [OF ok] r(1) conjunct1 [OF insert_user_text [OF r(3)]] u(1) this]
  show ?thesis using token_identifies [OF assms(2)] u(3) by auto
qed

text \<open>A validation library that meets the law, and a registration.\<close>

definition toy_pydantic :: pydantic where
  "toy_pydantic = \<lparr> conform = (\<lambda>c s. if meets c (trimmed c s) then Some (cased c (trimmed c s)) else None) \<rparr>"

lemma toy_pydantic_ok: "pydantic_ok toy_pydantic"
proof -
  have "trim (cased c (trimmed c s)) = cased c (trimmed c s)" if "strip_whitespace c" for c s
    using that by (simp add: cased_def trimmed_def)
  then show ?thesis
    by (auto simp: pydantic_ok_def toy_pydantic_def meets_def length_ok_def cased_def split: option.splits)
qed

definition demo_config :: api_config where
  "demo_config = \<lparr> jwt_secret = ''0123456789abcdef0123456789abcdef'', token_expiry_seconds = 3600,
     admin_email = Some ''root@x.io'', admin_password = Some ''open sesame'' \<rparr>"

lemma ada_credentials: "read_credentials toy_pydantic '' Ada@X.io'' ''pw'' = Inr (''ada@x.io'', ''pw'')"
  by code_simp

lemma ada_registers:
  "\<exists>db1. register toy_pydantic toy_bcrypt 0 5 None '' Ada@X.io'' ''pw'' empty_pg = (Inr (''ada@x.io'', ''user''), db1)"
proof -
  have "hash_password toy_bcrypt 0 ''pw'' = Inr ''hh''" by code_simp
  moreover have "\<exists>db1. insert_user 5 ''ada@x.io'' ''hh'' NEW_USER_ROLE empty_pg = Inr (Some 1, db1)"
    by (auto simp: insert_user_def text_error_def ROLES_def NEW_USER_ROLE_def empty_pg_def Let_def)
  ultimately show ?thesis
    by (auto simp: register_def ada_credentials create_user_def transaction_None NEW_USER_ROLE_def)
qed

lemma users_ok_empty: "users_ok empty_pg"
  by (rule pg_users_ok) simp

theorem register_then_login_witness:
  "\<exists>db1 r. register toy_pydantic toy_bcrypt 0 5 None '' Ada@X.io'' ''pw'' empty_pg = (Inr (''ada@x.io'', ''user''), db1) \<and>
     login toy_pydantic toy_bcrypt toy_jwt demo_config 7000000 None '' Ada@X.io'' ''pw'' db1 = Inr r \<and>
     get_current_user toy_jwt demo_config 9000000 (Some (''Bearer '' @ access_token r)) =
       Inr \<lparr> user_email = ''ada@x.io'', user_role = ''user'' \<rparr>"
proof -
  obtain db1 where reg: "register toy_pydantic toy_bcrypt 0 5 None '' Ada@X.io'' ''pw'' empty_pg =
      (Inr (''ada@x.io'', ''user''), db1)" using ada_registers by blast
  from register_then_login [OF toy_bcrypt_ok toy_jwt_ok users_ok_empty reg, of demo_config 7000000 "[]"]
  obtain r where r: "login toy_pydantic toy_bcrypt toy_jwt demo_config 7000000 None '' Ada@X.io'' ''pw'' db1 = Inr r"
    "\<forall>s \<ge> 7000000. s div 1000000 < 3607 \<longrightarrow> get_current_user toy_jwt demo_config s (Some (''Bearer '' @ access_token r)) =
         Inr \<lparr> user_email = ''ada@x.io'', user_role = ''user'' \<rparr>"
    by (auto simp: register_all_def demo_config_def)
  from r(2) [THEN spec, of 9000000] reg r(1) show ?thesis by auto
qed

text \<open>
  C26: An address belongs to the first registration that succeeds for it. After any later
  registrations its account is the row that one inserted, and another registration of the
  address, with any password the service accepts, is answered with 409 and leaves every account
  as it was.
\<close>

theorem registration_is_final:
  assumes "users_ok db"
    and reg: "register P B seed stamp failure em pw db = (Inr (email, role), db1)"
    and again: "read_credentials P em2 pw2 = Inr (email, p2)" "length (utf8 p2) \<le> 72" "bcrypt_ok B"
  shows "\<exists>u. find_user email db1 = Some u \<and> u = last (users db1) \<and> us_role u = ''user'' \<and> us_created_at u = stamp \<and>
    find_user email (register_all P B later db1) = Some u \<and>
    (let (answer, db2) = register P B seed2 stamp2 None em2 pw2 (register_all P B later db1)
     in status_of 201 answer = 409 \<and> users db2 = users (register_all P B later db1))"
proof -
  from register_Inr [OF reg] obtain p h n where r: "insert_user stamp email h NEW_USER_ROLE db = Inr (Some n, db1)" by blast
  let ?db = "register_all P B later db1"
  have ok: "users_ok db1" by (rule users_ok_insert [OF assms(1) r])
  let ?u = "\<lparr> us_id = n, us_email = email, us_password_hash = h, us_role = NEW_USER_ROLE, us_created_at = stamp \<rparr>"
  have u: "find_user email db1 = Some ?u" using find_user_inserted [OF r] .
  then have u2: "find_user email ?db = Some ?u" using register_all_keeps [OF ok] by blast
  have "p2 \<noteq> []" using again(1) by (auto simp: read_credentials_def split: option.splits if_splits)
  then obtain h2 where h2: "hash_password B seed2 p2 = Inr h2" using again(2) by (auto simp: hash_password_Inr)
  have "text_error h2 = None" using again(3) h2 again(2) by (auto simp: hash_password_Inr bcrypt_ok_def text_error_def)
  moreover have "text_error email = None" using insert_user_text [OF r] by blast
  ultimately obtain db2 where db2: "insert_user stamp2 email h2 NEW_USER_ROLE ?db = Inr (None, db2)"
    using insert_user_plain [of email h2 NEW_USER_ROLE stamp2 ?db] u2 by (auto simp: NEW_USER_ROLE_def ROLES_def)
  then have "register P B seed2 stamp2 None em2 pw2 ?db =
      (Inl (HTTPException 409 ''an account with that email already exists''), db2)"
    by (simp add: register_def again(1) h2 create_user_def transaction_None)
  moreover have "users db2 = users ?db" using insert_user_old [OF db2] by simp
  moreover have "users db1 = users db @ [?u]" using insert_user_new [OF r] by simp
  ultimately show ?thesis using u u2 by (intro exI [of _ ?u]) (simp add: NEW_USER_ROLE_def)
qed

theorem registration_is_final_witness:
  "\<exists>db1. register toy_pydantic toy_bcrypt 0 5 None '' Ada@X.io'' ''pw'' empty_pg = (Inr (''ada@x.io'', ''user''), db1) \<and>
     status_of 201 (fst (register toy_pydantic toy_bcrypt 0 9 None '' Ada@X.io'' ''pw'' db1)) = 409"
proof -
  obtain db1 where reg: "register toy_pydantic toy_bcrypt 0 5 None '' Ada@X.io'' ''pw'' empty_pg =
      (Inr (''ada@x.io'', ''user''), db1)" using ada_registers by blast
  have "length (utf8 ''pw'') \<le> 72" by code_simp
  from registration_is_final [OF users_ok_empty reg ada_credentials this toy_bcrypt_ok, of "[]" 0 9] reg
  show ?thesis by (auto simp: register_all_def split: prod.splits)
qed

section \<open>Passwords of more than 72 bytes\<close>

lemma hash_password_long: "72 < length (utf8 p) \<Longrightarrow> hash_password B seed p = Inl ValueError"
  by (simp add: hash_password_def Let_def MAX_PASSWORD_BYTES_def)

text \<open>
  The request fields bound a password by 72 characters, the hash by 72 bytes. A password
  between the two is accepted as a field and then answered with 500, whatever the database
  holds; an admin password over 72 bytes, which the settings accept, stops the service at
  startup with an exception that is neither a \<open>ConfigError\<close> nor a database error.
\<close>

theorem long_password_fails:
  assumes "72 < length (utf8 pw)"
  shows "(read_credentials P em pw = Inr (email, pw) \<longrightarrow>
      status_of 201 (fst (register P B seed stamp failure em pw db)) = 500 \<and>
      snd (register P B seed stamp failure em pw db) = db) \<and>
    (load_api_config e = Inr c \<and> admin_password c = Some pw \<and> api_get_engine e = Inr url \<longrightarrow>
      lifespan B seed stamp e None None db = (Inl ValueError, db))"
proof (intro conjI impI)
  assume "read_credentials P em pw = Inr (email, pw)"
  then have r: "register P B seed stamp failure em pw db = (Inl ValueError, db)"
    by (simp add: register_def hash_password_long [OF assms])
  show "status_of 201 (fst (register P B seed stamp failure em pw db)) = 500"
    "snd (register P B seed stamp failure em pw db) = db" by (simp_all add: r)
next
  assume c: "load_api_config e = Inr c \<and> admin_password c = Some pw \<and> api_get_engine e = Inr url"
  then obtain a where a: "admin_email c = Some a" "a \<noteq> []" "pw \<noteq> []"
    by (auto simp: load_api_config_def rbind_eq_Inr email_shape_def dest!: read_admin_Inr stripped_email)
  with c show "lifespan B seed stamp e None None db = (Inl ValueError, db)"
    by (simp add: lifespan_def transaction_def prepare_database_def hash_password_long [OF assms] swallow_db_error_def)
qed

definition accented :: string where
  "accented = replicate 40 (CHR 0xE9)"

theorem long_password_fails_witness:
  "read_credentials toy_pydantic ''ada@x.io'' accented = Inr (''ada@x.io'', accented) \<and>
     status_of 201 (fst (register toy_pydantic toy_bcrypt 0 5 None ''ada@x.io'' accented empty_pg)) = 500"
proof -
  have l: "72 < length (utf8 accented)" by code_simp
  have r: "read_credentials toy_pydantic ''ada@x.io'' accented = Inr (''ada@x.io'', accented)" by code_simp
  from long_password_fails [OF l, of toy_pydantic "''ada@x.io''" "''ada@x.io''" toy_bcrypt 0 5 None empty_pg] r
  show ?thesis by blast
qed

section \<open>Startup\<close>

text \<open>
  When the database cannot be reached at startup, the service starts without having read its
  settings at all: a missing signing secret, which stops it otherwise, goes unnoticed until a
  request needs it.
\<close>

theorem unreachable_database_hides_bad_settings:
  assumes "api_get_engine e = Inr url" "load_api_config e = Inl (ConfigError message)"
  shows "lifespan B seed stamp e None failure db = (Inl (ConfigError message), db) \<and>
    lifespan B seed stamp e (Some (DbError reason)) failure db = (Inr (), db)"
  using assms by (simp add: lifespan_def swallow_db_error_def)

theorem unreachable_database_hides_bad_settings_witness:
  "\<exists>e m. load_api_config e = Inl (ConfigError m) \<and>
     lifespan toy_bcrypt 0 5 e (Some (DbError ''timeout'')) None empty_pg = (Inr (), empty_pg)"
proof -
  define e :: env where "e = [''DESTINATION_POSTGRES_PASSWORD'' \<mapsto> ''pw'']"
  have 1: "\<exists>u. api_get_engine e = Inr u" by (simp add: api_get_engine_def e_def env_get_def)
  have "\<exists>m. load_api_config e = Inl (ConfigError m)"
    by (simp add: load_api_config_def read_secret_def e_def env_get_def strip_def lstrip_def rstrip_def)
  with 1 unreachable_database_hides_bad_settings show ?thesis by blast
qed

lemma Email_accepts:
  assumes "pydantic_ok P" "is_email a" "strip a = a" "ascii a"
  shows "conform P Email a = Some (lower a)"
proof -
  have "matches end_only EMAIL_PATTERN a"
    unfolding matches_pattern end_only_def using stripped_email [OF assms(2,3)] by auto
  moreover have "length a \<le> MAX_EMAIL_LENGTH" using assms(2) by (simp add: is_email_def)
  ultimately have "meets Email a" by (simp add: meets_def Email_def length_ok_def)
  moreover have "trimmed Email a = a" "cased Email a = lower a"
    using trim_id [OF assms(3)] by (simp_all add: trimmed_def cased_def Email_def)
  ultimately show ?thesis using pydantic_accepts [OF assms(1,4), of Email] by simp
qed

lemma utf8_length: "length p \<le> length (utf8 p)"
  by (induction p) (simp_all add: utf8_def utf8_char_def Let_def)

lemma lifespan_Inr:
  assumes "lifespan B seed stamp e None None db = (Inr (), db')" "load_api_config e = Inr c"
    "admin_email c = Some a" "admin_password c = Some p" "api_get_engine e = Inr url" "a \<noteq> []" "p \<noteq> []"
  shows "\<exists>h n. hash_password B seed p = Inr h \<and> insert_user stamp (lower (strip a)) h ADMIN_ROLE db = Inr (n, db')"
proof -
  have noDb: "insert_user stamp x h ADMIN_ROLE db \<noteq> Inl (DbError m)" for x h m
    by (auto simp: insert_user_def ADMIN_ROLE_def ROLES_def text_error_def Let_def split: if_splits)
  have "hash_password B seed p \<noteq> Inl (DbError m)" for m
    by (auto simp: hash_password_def Let_def split: if_splits)
  with noDb assms show ?thesis
    by (auto simp: lifespan_def transaction_None prepare_database_def swallow_db_error_def
        rbind_def split: sum.splits exn.splits prod.splits)
qed

lemma lifespan_again:
  assumes c: "load_api_config e = Inr c" "admin_email c = Some a" "admin_password c = Some p"
      "api_get_engine e = Inr url" "a \<noteq> []" "p \<noteq> []"
    and found: "find_user (lower (strip a)) db1 \<noteq> None"
  shows "users (snd (lifespan B seed2 stamp2 e None None db1)) = users db1"
proof (cases "fst (lifespan B seed2 stamp2 e None None db1)")
  case (Inr v)
  then have "lifespan B seed2 stamp2 e None None db1 = (Inr (), snd (lifespan B seed2 stamp2 e None None db1))"
    by (simp add: prod_eq_iff)
  from lifespan_Inr [OF this c] obtain h2 n2 where
    i2: "insert_user stamp2 (lower (strip a)) h2 ADMIN_ROLE db1 = Inr (n2, snd (lifespan B seed2 stamp2 e None None db1))"
    by auto
  then show ?thesis using found insert_user_new insert_user_old by (cases n2) fastforce+
next
  case (Inl err)
  then show ?thesis
    by (auto simp: lifespan_def c transaction_None swallow_db_error_def split: sum.splits exn.splits prod.splits)
qed

text \<open>
  C27: Starting the service with a seeded admin never touches an account that exists, starting it
  again changes no account, and if the admin's address (in lower case, as it is stored) had no account, the admin can sign in
  with the address and password exactly as they are configured, whatever the case of the
  address, and acts as an admin. The configured address is ASCII text; the start has succeeded,
  so its password is one the hash accepts.
\<close>

theorem startup_seeds_admin:
  assumes "bcrypt_ok B" "jwt_ok J" "pydantic_ok P" "users_ok db"
    and c: "load_api_config e = Inr c" "admin_email c = Some a" "admin_password c = Some p" "ascii a"
      "api_get_engine e = Inr url"
    and up: "lifespan B seed stamp e None None db = (Inr (), db1)"
  shows "(\<forall>x u. find_user x db = Some u \<longrightarrow> find_user x db1 = Some u) \<and>
    users (snd (lifespan B seed2 stamp2 e None None db1)) = users db1 \<and>
    (find_user (lower a) db = None \<longrightarrow>
      (\<exists>r. login P B J c now None a p db1 = Inr r \<and>
         get_current_user J c now (Some (''Bearer '' @ access_token r)) =
           Inr \<lparr> user_email = lower a, user_role = ADMIN_ROLE \<rparr>))"
proof (intro conjI allI impI)
  obtain em pw where ra: "read_admin e = Inr (em, pw)" "em = Some a" "pw = Some p"
    "token_expiry_seconds c > 0"
    using c by (auto simp: load_api_config_def rbind_eq_Inr)
  with read_admin_Inr [OF ra(1)] have a: "p \<noteq> []" "is_email a" "strip a = a" by auto
  then have "a \<noteq> []" using stripped_email by (auto simp: email_shape_def)
  from lifespan_Inr [OF up c(1-3) c(5) this a(1)] a(3) obtain h n where
    h: "hash_password B seed p = Inr h" and ins: "insert_user stamp (lower a) h ADMIN_ROLE db = Inr (n, db1)" by auto
  show "find_user x db1 = Some u" if "find_user x db = Some u" for x u
    using insert_user_keeps [OF ins that] .
  have ok: "users_ok db1" by (rule users_ok_insert [OF assms(4) ins])
  have found: "find_user (lower a) db1 \<noteq> None"
    using ins find_user_inserted [of stamp "lower a" h ADMIN_ROLE db] insert_user_keeps [OF ins] insert_user_old
    by (cases n) fastforce+
  show "users (snd (lifespan B seed2 stamp2 e None None db1)) = users db1"
    by (rule lifespan_again [OF c(1-3,5) \<open>a \<noteq> []\<close> a(1)]) (use found a(3) in simp)
  assume new: "find_user (lower a) db = None"
  then obtain m where "n = Some m" using insert_user_old [of stamp "lower a" h ADMIN_ROLE db db1] ins by (cases n) auto
  with find_user_inserted ins obtain u where u: "find_user (lower a) db1 = Some u" "us_password_hash u = h" "us_role u = ADMIN_ROLE"
    by fastforce
  have "length p \<le> 72" using h utf8_length [of p] by (simp add: hash_password_Inr)
  then have "read_credentials P a p = Inr (lower a, p)"
    using Email_accepts [OF assms(3) a(2,3) c(4)] a(1) by (simp add: read_credentials_def Suc_le_eq)
  from login_accepts [OF ok this conjunct1 [OF insert_user_text [OF ins]] u(1)] verify_hashed [OF assms(1) h]
  have "login P B J c now None a p db1 = Inr \<lparr> access_token =
    create_token J (jwt_secret c) (lower a) ADMIN_ROLE now (token_expiry_seconds c), token_role = ADMIN_ROLE \<rparr>"
    using u(2,3) by simp
  with token_identifies [OF assms(2), of now now c] ra(4) show "\<exists>r. login P B J c now None a p db1 = Inr r \<and>
         get_current_user J c now (Some (''Bearer '' @ access_token r)) =
           Inr \<lparr> user_email = lower a, user_role = ADMIN_ROLE \<rparr>" by simp
qed

definition boot_env :: env where
  "boot_env = api_env(''DESTINATION_POSTGRES_PASSWORD'' \<mapsto> ''pg'')"

lemma boot_env_loads:
  obtains c url where "load_api_config boot_env = Inr c" "admin_email c = Some ''root@x.io''"
    "admin_password c = Some ''open sesame''" "api_get_engine boot_env = Inr url"
proof -
  have "env_get boot_env k d = env_get api_env k d" if "k \<noteq> ''DESTINATION_POSTGRES_PASSWORD''" for k d
    using that by (simp add: env_get_def boot_env_def)
  then have "load_api_config boot_env = load_api_config api_env"
    by (simp add: load_api_config_def read_secret_def read_admin_def read_number_def env_or_def)
  moreover have "api_get_engine boot_env = Inr url" if "url = projr (api_get_engine boot_env)" for url
    unfolding that by (simp add: api_get_engine_def boot_env_def env_get_def Let_def)
  ultimately show ?thesis using api_env_loads that by metis
qed

theorem startup_seeds_admin_witness:
  "\<exists>c db1 r. load_api_config boot_env = Inr c \<and>
     lifespan toy_bcrypt 0 5 boot_env None None empty_pg = (Inr (), db1) \<and>
     login toy_pydantic toy_bcrypt toy_jwt c 7 None ''root@x.io'' ''open sesame'' db1 = Inr r"
proof -
  obtain c url where c: "load_api_config boot_env = Inr c" "admin_email c = Some ''root@x.io''"
    "admin_password c = Some ''open sesame''" "api_get_engine boot_env = Inr url" by (rule boot_env_loads)
  have l: "lower (strip ''root@x.io'') = ''root@x.io''" "lower ''root@x.io'' = ''root@x.io''" by code_simp+
  have h: "hash_password toy_bcrypt 0 ''open sesame'' = Inr (replicate 11 CHR ''h'')" by code_simp
  obtain n db1 where i: "insert_user 5 ''root@x.io'' (replicate 11 CHR ''h'') ADMIN_ROLE empty_pg = Inr (n, db1)"
    using insert_user_plain [of "''root@x.io''" "replicate 11 CHR ''h''" ADMIN_ROLE 5 empty_pg]
    by (auto simp: text_error_def ADMIN_ROLE_def ROLES_def)
  have up: "lifespan toy_bcrypt 0 5 boot_env None None empty_pg = (Inr (), db1)"
    using c by (simp add: lifespan_def transaction_None prepare_database_def l(1) h i)
  have "ascii ''root@x.io''" by code_simp
  from startup_seeds_admin [OF toy_bcrypt_ok toy_jwt_ok toy_pydantic_ok users_ok_empty c(1-3) this c(4) up, of 0 0 7]
  have "\<exists>r. login toy_pydantic toy_bcrypt toy_jwt c 7 None ''root@x.io'' ''open sesame'' db1 = Inr r"
    by (auto simp: find_user_def empty_pg_def)
  with c(1) up show ?thesis by blast
qed

end
