(* ===== verification/ApiAlerts.thy ===== *)
theory ApiAlerts
  imports ApiAccounts
begin

text \<open>The alert endpoints: who sees, adds and deletes what.\<close>

section \<open>Deleting\<close>

lemma remove_alert_value:
  "remove_alert J config now None header alert_id db = (case get_current_user J config now header of
       Inl e \<Rightarrow> (Inl unauthenticated, db)
     | Inr u \<Rightarrow> if user_role u \<noteq> ''admin'' then (Inl (HTTPException 403 ''this action needs an admin account''), db)
       else if \<exists>a \<in> set (price_alerts db). int (al_id a) = alert_id
       then (Inr (), db\<lparr> price_alerts := filter (\<lambda>a. int (al_id a) \<noteq> alert_id) (price_alerts db) \<rparr>)
       else (Inl (HTTPException 404 ''no such alert''), db))"
proof -
  have same: "filter (\<lambda>a. int (al_id a) \<noteq> alert_id) (price_alerts db) = price_alerts db"
    if "\<forall>a \<in> set (price_alerts db). int (al_id a) \<noteq> alert_id" using that by (simp add: filter_id_conv)
  have none: "length (filter (\<lambda>a. int (al_id a) = alert_id) (price_alerts db)) = 0 \<longleftrightarrow>
      (\<forall>a \<in> set (price_alerts db). int (al_id a) \<noteq> alert_id)" by (simp add: filter_empty_conv)
  show ?thesis
  proof (cases "get_current_user J config now header")
    case (Inl e)
    with get_current_user_Inl [OF Inl] show ?thesis by (simp add: remove_alert_def)
  next
    case (Inr u)
    then show ?thesis
      by (cases "user_role u = ''admin''"; cases "\<exists>a \<in> set (price_alerts db). int (al_id a) = alert_id")
        (use none same in \<open>auto simp: remove_alert_def require_admin_def ADMIN_ROLE_def delete_alert_def
           transaction_None delete_alert_row_def\<close>)
  qed
qed

text \<open>
  C20: Deleting an alert is answered with 401 without a valid token, with 403 for a user who is
  not an admin, with 404 when no alert has that id and with 204 otherwise; only in the last case
  does the database change, and then it loses exactly that alert.
\<close>

theorem remove_alert_exact:
  "(let (answer, db') = remove_alert J config now None header alert_id db;
        present = (\<exists>a \<in> set (price_alerts db). int (al_id a) = alert_id)
    in status_of 204 answer =
         (case get_current_user J config now header of
            Inl e \<Rightarrow> 401
          | Inr u \<Rightarrow> if user_role u \<noteq> ''admin'' then 403 else if present then 204 else 404) \<and>
       db' = (if status_of 204 answer = 204
         then db\<lparr> price_alerts := filter (\<lambda>a. int (al_id a) \<noteq> alert_id) (price_alerts db) \<rparr>
         else db))"
  by (auto simp: remove_alert_value unauthenticated_def Let_def split: sum.splits)

section \<open>Listing\<close>

definition owner_email :: "pg \<Rightarrow> alert_row \<Rightarrow> string option" where
  "owner_email db a = map_option us_email (List.find (\<lambda>u. us_id u = al_user_id a) (users db))"

definition visible :: "authenticated_user \<Rightarrow> pg \<Rightarrow> alert_row \<Rightarrow> bool" where
  "visible user db a \<longleftrightarrow> user_role user = ''admin'' \<or> owner_email db a = Some (user_email user)"

lemma join_owner:
  assumes "pg_keys_ok db" "a \<in> set (price_alerts db)"
  shows "\<exists>u. List.find (\<lambda>u. us_id u = al_user_id a) (users db) = Some u \<and>
    filter (\<lambda>u. us_id u = al_user_id a) (users db) = [u]"
proof -
  have "distinct (map us_id (users db))" "al_user_id a \<in> us_id ` set (users db)"
    using assms by (auto simp: pg_keys_ok_def serial_ok_def)
  moreover from this(2) have "List.find (\<lambda>u. us_id u = al_user_id a) (users db) \<noteq> None"
    by (auto simp: find_None_iff)
  ultimately show ?thesis using filter_one_key [of us_id "users db" "al_user_id a"] by auto
qed

definition listing :: "pg \<Rightarrow> alert_row \<Rightarrow> listed_alert" where
  "listing db a = listed a (the (List.find (\<lambda>u. us_id u = al_user_id a) (users db)))"

lemma concat_map_if: "concat (map (\<lambda>u. if P u then [f u] else []) us) = map f (filter P us)"
  by (induction us) auto

lemma alerts_with_owner_map:
  assumes "pg_keys_ok db"
  shows "alerts_with_owner db = map (listing db) (price_alerts db)"
proof -
  have "alerts_with_owner db = concat (map (\<lambda>a. map (listed a) (filter (\<lambda>u. us_id u = al_user_id a) (users db)))
      (price_alerts db))"
    by (simp add: alerts_with_owner_def concat_map_if)
  also have "\<dots> = concat (map (\<lambda>a. [listing db a]) (price_alerts db))"
  proof (intro arg_cong [of _ _ concat] map_cong refl)
    fix a assume "a \<in> set (price_alerts db)"
    with join_owner [OF assms] obtain u where "List.find (\<lambda>u. us_id u = al_user_id a) (users db) = Some u"
      "filter (\<lambda>u. us_id u = al_user_id a) (users db) = [u]" by blast
    then show "map (listed a) (filter (\<lambda>u. us_id u = al_user_id a) (users db)) = [listing db a]"
      by (simp add: listing_def)
  qed
  finally show ?thesis by simp
qed

lemma listing_email: "pg_keys_ok db \<Longrightarrow> a \<in> set (price_alerts db) \<Longrightarrow> owner_email db a = Some (la_email (listing db a))"
  using join_owner [of db a] by (auto simp: owner_email_def listing_def listed_def)

lemma listing_id [simp]: "la_alert_id (listing db a) = al_id a"
  by (simp add: listing_def listed_def)

lemma sort_descending:
  assumes "distinct (map k xs)"
  shows "map k (sort_key (\<lambda>r. - int (k r)) xs) = rev (sorted_list_of_set (k ` set xs))"
proof -
  let ?l = "rev (map k (sort_key (\<lambda>r. - int (k r)) xs))"
  have "sorted (map (\<lambda>r. - int (k r)) (sort_key (\<lambda>r. - int (k r)) xs))" by simp
  then have "sorted_wrt (\<lambda>x y. k y \<le> k x) (sort_key (\<lambda>r. - int (k r)) xs)" by (simp add: sorted_map)
  then have "sorted ?l" by (simp add: sorted_wrt_rev sorted_wrt_map)
  moreover have "distinct ?l"
    using assms by (metis distinct_map distinct_rev distinct_sort set_sort)
  moreover have "set ?l = k ` set xs" by simp
  ultimately have "?l = sorted_list_of_set (k ` set xs)"
    by (intro sorted_distinct_set_unique) auto
  then show ?thesis by (metis rev_rev_ident)
qed

text \<open>
  C19: A listing holds the newest twenty of the alerts the caller may see, newest first: an
  admin sees every alert, anyone else the alerts of the account with the token's address. Every
  row is that alert with its owner's address.
\<close>

theorem list_alerts_exact:
  assumes "pg_keys_ok db" "get_current_user J config now header = Inr user" "text_error (user_email user) = None"
  shows "\<exists>rows. list_alerts J config now None header db = Inr rows \<and>
    map aj_alert_id rows =
      take 20 (rev (sorted_list_of_set (al_id ` {a \<in> set (price_alerts db). visible user db a}))) \<and>
    (\<forall>row \<in> set rows. \<exists>a \<in> set (price_alerts db). visible user db a \<and> row = alert_to_dict (listing db a))"
proof -
  let ?email = "if user_role user = ADMIN_ROLE then None else Some (user_email user)"
  let ?vis = "filter (visible user db) (price_alerts db)"
  have f: "filter (\<lambda>r. case ?email of None \<Rightarrow> True | Some e \<Rightarrow> la_email r = e) (alerts_with_owner db) =
      map (listing db) ?vis"
    unfolding alerts_with_owner_map [OF assms(1)] filter_map
    using listing_email [OF assms(1)]
    by (intro arg_cong [of _ _ "map (listing db)"] filter_cong) (auto simp: visible_def ADMIN_ROLE_def)
  let ?sorted = "sort_key (\<lambda>r. - int (la_alert_id r)) (map (listing db) ?vis)"
  have d: "distinct (map la_alert_id (map (listing db) ?vis))"
    using assms(1) by (simp add: comp_def pg_keys_ok_def serial_ok_def distinct_map_filter)
  have "list_alerts J config now None header db = Inr (map alert_to_dict (take 20 ?sorted))"
  proof -
    have "(case ?email of None \<Rightarrow> None | Some e \<Rightarrow> text_error e) = None" using assms(3) by simp
    then have "select_alerts ?email db = Inr (take 20 ?sorted)"
      unfolding select_alerts_def f ALERT_LIST_LIMIT_def by simp
    then show ?thesis unfolding list_alerts_def read_alerts_def Let_def assms(2) by simp
  qed
  moreover have "map aj_alert_id (map alert_to_dict (take 20 ?sorted)) = take 20 (map la_alert_id ?sorted)"
    by (simp add: comp_def alert_to_dict_def take_map)
  moreover have "map la_alert_id ?sorted =
      rev (sorted_list_of_set (al_id ` {a \<in> set (price_alerts db). visible user db a}))"
    unfolding sort_descending [OF d] by (simp add: image_image)
  moreover have "\<exists>a \<in> set (price_alerts db). visible user db a \<and> row = alert_to_dict (listing db a)"
    if "row \<in> set (map alert_to_dict (take 20 ?sorted))" for row
    using that by (auto dest!: in_set_takeD)
  ultimately show ?thesis by (intro exI [of _ "map alert_to_dict (take 20 ?sorted)"]) simp
qed

section \<open>Adding\<close>

lemma insert_alert_Inr:
  assumes "users_ok db" "insert_alert stamp email sy direction threshold db = Inr (Some n, db')"
  shows "\<exists>u t. find_user email db = Some u \<and> exact_decimal threshold = Inr t \<and> n = next_alert_id db \<and>
    direction \<in> {''above'', ''below''} \<and>
    db' = db\<lparr> next_alert_id := Suc n, price_alerts := price_alerts db @ [new_alert n u stamp sy direction t] \<rparr>"
  using assms(2) unfolding insert_alert_def filter_user [OF assms(1)]
  by (auto simp: rbind_eq_Inr DIRECTIONS_def Let_def split: option.splits if_splits)

lemma insert_alert_None: "insert_alert stamp email sy direction threshold db = Inr (None, db') \<Longrightarrow> db' = db"
  by (cases "filter (\<lambda>u. us_email u = email) (users db)")
    (auto simp: insert_alert_def rbind_eq_Inr Let_def split: option.splits if_splits)

lemma add_alert_Inr:
  assumes "users_ok db" "add_alert P J config now failure header req db = (Inr (n, alert), db')"
  shows "\<exists>user u t. get_current_user J config now header = Inr user \<and> read_alert_request P req = Inr alert \<and>
    find_user (user_email user) db = Some u \<and> exact_decimal (req_threshold alert) = Inr t \<and> n = next_alert_id db \<and>
    db' = db\<lparr> next_alert_id := Suc n,
      price_alerts := price_alerts db @ [new_alert n u now (req_symbol alert) (req_direction alert) t] \<rparr>"
proof -
  from assms(2) obtain user where u: "get_current_user J config now header = Inr user"
    "read_alert_request P req = Inr alert"
    "create_alert failure now (user_email user) (req_symbol alert) (req_direction alert)
       (req_threshold alert) db = (Inr (Some n), db')"
    by (auto simp: add_alert_def rbind_eq_Inr split: sum.splits prod.splits option.splits)
  from u(3) have "insert_alert now (user_email user) (req_symbol alert) (req_direction alert)
       (req_threshold alert) db = Inr (Some n, db')" by (simp add: create_alert_def transaction_Inr)
  from insert_alert_Inr [OF assms(1) this] u show ?thesis by auto
qed

lemma read_alert_request_Inr:
  assumes "read_alert_request P req = Inr alert"
  shows "conform P AlertSymbol (req_symbol req) = Some (req_symbol alert) \<and> req_direction alert = req_direction req \<and>
    req_threshold alert = req_threshold req \<and> py_lt (Fin 0) (req_threshold req) \<and> req_direction req \<in> {''above'', ''below''}"
  using assms by (auto simp: read_alert_request_def split: option.splits if_splits)

lemma new_alert_simps [simp]:
  "al_id (new_alert n u stamp sy dir t) = n" "al_user_id (new_alert n u stamp sy dir t) = us_id u"
  "al_symbol (new_alert n u stamp sy dir t) = sy" "al_direction (new_alert n u stamp sy dir t) = dir"
  "al_threshold (new_alert n u stamp sy dir t) = t" "al_triggered_at (new_alert n u stamp sy dir t) = None"
  by (simp_all add: new_alert_def)

lemma keys_add_alert:
  assumes "pg_keys_ok db" "u \<in> set (users db)"
  shows "pg_keys_ok (db\<lparr> next_alert_id := Suc (next_alert_id db),
    price_alerts := price_alerts db @ [new_alert (next_alert_id db) u stamp sy dir t] \<rparr>)"
  using assms by (auto simp: pg_keys_ok_def)

lemma keys_insert_user:
  "pg_keys_ok db \<Longrightarrow> insert_user stamp email h role db = Inr (r, db') \<Longrightarrow> pg_keys_ok db'"
  using users_ok_insert [of db stamp email h role r db'] pg_users_ok [of db]
  by (cases r) (auto simp: pg_keys_ok_def users_ok_def dest!: insert_user_new insert_user_old)

lemma keys_register: "pg_keys_ok db \<Longrightarrow> pg_keys_ok (snd (register P B seed stamp failure em pw db))"
proof -
  assume ok: "pg_keys_ok db"
  from register_step [of P B seed stamp failure em pw db] show ?thesis
  proof
    assume "\<exists>email p. snd (register P B seed stamp failure em pw db) = add_user email p db"
    then obtain email p where s: "snd (register P B seed stamp failure em pw db) = add_user email p db" by blast
    show ?thesis unfolding s by (rule add_user_induct) (use ok keys_insert_user [OF ok] in auto)
  qed (use ok in simp)
qed

lemma lifespan_step:
  "snd (lifespan B seed stamp e connect failure db) = db \<or>
   (\<exists>email h r. insert_user stamp email h ADMIN_ROLE db = Inr (r, snd (lifespan B seed stamp e connect failure db)))"
proof -
  have "db' = db \<or> (\<exists>email h r. insert_user stamp email h ADMIN_ROLE db = Inr (r, db'))"
    if "prepare_database B seed stamp c db = Inr (x, db')" for c x db'
    using that by (auto simp: prepare_database_def rbind_eq_Inr split: option.splits if_splits)
  then show ?thesis
    by (auto simp: lifespan_def transaction_def split: sum.splits option.splits prod.splits)
qed

lemma keys_lifespan: "pg_keys_ok db \<Longrightarrow> pg_keys_ok (snd (lifespan B seed stamp e connect failure db))"
  using lifespan_step [of B seed stamp e connect failure db] keys_insert_user by metis

text \<open>An added alert is one new row; anything else leaves the database as it was.\<close>

lemma add_alert_step:
  assumes "pg_keys_ok db"
  shows "snd (add_alert P J config now failure header req db) = db \<or>
    (\<exists>u sy dir t. u \<in> set (users db) \<and> snd (add_alert P J config now failure header req db) =
       db\<lparr> next_alert_id := Suc (next_alert_id db),
         price_alerts := price_alerts db @ [new_alert (next_alert_id db) u now sy dir t] \<rparr>)"
proof (cases "fst (add_alert P J config now failure header req db)")
  case (Inl err)
  then have "snd (add_alert P J config now failure header req db) = db"
    by (auto simp: add_alert_def create_alert_def transaction_def
        split: sum.splits prod.splits option.splits dest: insert_alert_None)
  then show ?thesis ..
next
  case (Inr r)
  then have "add_alert P J config now failure header req db =
      (Inr (fst r, snd r), snd (add_alert P J config now failure header req db))" by (simp add: prod_eq_iff)
  from add_alert_Inr [OF pg_users_ok [OF assms] this] obtain user :: authenticated_user and u t where
    u: "find_user (user_email user) db = Some u" "fst r = next_alert_id db"
    and s: "snd (add_alert P J config now failure header req db) =
      db\<lparr> next_alert_id := Suc (fst r), price_alerts := price_alerts db @
        [new_alert (fst r) u now (req_symbol (snd r)) (req_direction (snd r)) t] \<rparr>" by blast
  from find_user_Some [OF u(1)] show ?thesis unfolding s u(2) by blast
qed

lemma keys_add: "pg_keys_ok db \<Longrightarrow> pg_keys_ok (snd (add_alert P J config now failure header req db))"
  using add_alert_step [of db P J config now failure header req] keys_add_alert by metis

lemma remove_alert_step:
  "snd (remove_alert J config now failure header n db) = db \<or>
   snd (remove_alert J config now failure header n db) =
     db\<lparr> price_alerts := filter (\<lambda>a. int (al_id a) \<noteq> n) (price_alerts db) \<rparr>"
  by (auto simp: remove_alert_def delete_alert_def transaction_def delete_alert_row_def
      split: sum.splits option.splits)

lemma keys_remove: "pg_keys_ok db \<Longrightarrow> pg_keys_ok (snd (remove_alert J config now failure header n db))"
  using remove_alert_step [of J config now failure header n db]
  by (auto simp: pg_keys_ok_def serial_ok_filter)

text \<open>
  Every request keeps the keys of the tables: whatever the outcome of a registration, a
  startup, an added or a deleted alert, ids stay distinct and below their sequence, addresses
  unique, and every alert owned by an account.
\<close>

theorem api_keeps_keys:
  assumes "pg_keys_ok db"
  shows "pg_keys_ok (snd (register P B seed stamp failure em pw db)) \<and>
    pg_keys_ok (snd (lifespan B seed stamp e connect failure db)) \<and>
    pg_keys_ok (snd (add_alert P J config now failure header req db)) \<and>
    pg_keys_ok (snd (remove_alert J config now failure header alert_id db))"
  using assms by (simp add: keys_register keys_lifespan keys_add keys_remove)

text \<open>
  An infinite threshold passes the request's only bound, being above 0, and is then answered
  with 500 without adding an alert: the column has no infinity.
\<close>

theorem infinite_threshold_fails:
  assumes "get_current_user J config now header = Inr user" "conform P AlertSymbol (req_symbol req) = Some sy"
    and "req_direction req = ''above''" "req_threshold req = PosInf"
    and "text_error (user_email user) = None" "text_error sy = None"
  shows "read_alert_request P req = Inr (req\<lparr> req_symbol := sy \<rparr>) \<and>
    status_of 201 (fst (add_alert P J config now None header req db)) = 500 \<and>
    snd (add_alert P J config now None header req db) = db"
proof -
  have r: "read_alert_request P req = Inr (req\<lparr> req_symbol := sy \<rparr>)"
    using assms(2-4) by (simp add: read_alert_request_def py_lt_def less_pyfloat_def)
  have "insert_alert now (user_email user) sy ''above'' PosInf db = Inl (DbError ''cannot convert infinity to numeric'')"
    using assms(5,6) by (simp add: insert_alert_def text_error_def exact_decimal_def)
  with r assms show ?thesis by (simp add: add_alert_def create_alert_def transaction_None)
qed

text \<open>A caller with a token for every example.\<close>

definition ada_header :: "string option" where
  "ada_header = Some (''Bearer '' @ create_token toy_jwt (jwt_secret demo_config) ''ada@x.io'' ''user'' 7000000 3600)"

lemma ada_calls: "get_current_user toy_jwt demo_config 9000000 ada_header =
    Inr \<lparr> user_email = ''ada@x.io'', user_role = ''user'' \<rparr>"
  using token_identifies [OF toy_jwt_ok, of 7000000 9000000 demo_config "''ada@x.io''" "''user''"]
  by (simp add: ada_header_def demo_config_def del: append.simps)

theorem infinite_threshold_fails_witness:
  "status_of 201 (fst (add_alert toy_pydantic toy_jwt demo_config 9000000 None ada_header
     \<lparr> req_symbol = '' nvda'', req_direction = ''above'', req_threshold = PosInf \<rparr> empty_pg)) = 500"
proof -
  let ?req = "\<lparr> req_symbol = '' nvda'', req_direction = ''above'', req_threshold = PosInf \<rparr> :: alert_request"
  have "conform toy_pydantic AlertSymbol (req_symbol ?req) = Some ''NVDA''" by code_simp
  from infinite_threshold_fails [OF ada_calls this, of empty_pg] show ?thesis by (simp add: text_error_def)
qed

definition ada_db :: pg where
  "ada_db = empty_pg\<lparr> users := [\<lparr> us_id = 1, us_email = ''ada@x.io'', us_password_hash = ''h'',
       us_role = ''user'', us_created_at = 0 \<rparr>,
     \<lparr> us_id = 2, us_email = ''bob@x.io'', us_password_hash = ''h'', us_role = ''user'', us_created_at = 0 \<rparr>],
     next_user_id := 3, next_alert_id := 9, price_alerts :=
      map (\<lambda>(n, o'). \<lparr> al_id = n, al_user_id = o', al_symbol = ''NVDA'', al_direction = ''above'',
        al_threshold = 130, al_created_at = 0, al_triggered_at = None, al_triggered_price = None \<rparr>)
        [(4, 1), (7, 2), (8, 1)] \<rparr>"

lemma ada_db_ok: "pg_keys_ok ada_db"
  by (simp add: ada_db_def pg_keys_ok_def empty_pg_def serial_ok_def)

theorem list_alerts_exact_witness:
  "\<exists>rows. list_alerts toy_jwt demo_config 9000000 None ada_header ada_db = Inr rows \<and>
     map aj_alert_id rows = [8, 4]"
proof -
  have "text_error (user_email \<lparr> user_email = ''ada@x.io'', user_role = ''user'' \<rparr>) = None"
    by (simp add: text_error_def)
  from list_alerts_exact [OF ada_db_ok ada_calls this] obtain rows where
    r: "list_alerts toy_jwt demo_config 9000000 None ada_header ada_db = Inr rows"
    "map aj_alert_id rows = take 20 (rev (sorted_list_of_set (al_id ` {a \<in> set (price_alerts ada_db).
       visible \<lparr> user_email = ''ada@x.io'', user_role = ''user'' \<rparr> ada_db a})))" by blast
  have "al_id ` {a \<in> set (price_alerts ada_db). visible \<lparr> user_email = ''ada@x.io'', user_role = ''user'' \<rparr> ada_db a} =
      {4, 8}"
    unfolding set_filter [symmetric] by (simp add: ada_db_def visible_def owner_email_def)
  with r show ?thesis by simp
qed

theorem api_keeps_keys_witness:
  "pg_keys_ok (snd (remove_alert toy_jwt demo_config 9000000 None ada_header 4 ada_db))"
  using api_keeps_keys [OF ada_db_ok, of toy_pydantic toy_bcrypt 0 0 None "[]" "[]" Map.empty None toy_jwt
      demo_config 9000000 ada_header undefined 4] by blast

end
