(* ===== verification/Candles.thy ===== *)
theory Candles
  imports Tables
begin

text \<open>
  Candles from trades (rollup/candles.py). The dataframe library is an argument: ordering the
  rows of a frame by key columns, grouping them, and the aggregates of a group's column. A frame
  is the list of its rows; a key is the list of its cells.
\<close>

section \<open>Key cells\<close>

datatype cell = Num int | Text string

instantiation cell :: linorder
begin

fun less_eq_cell :: "cell \<Rightarrow> cell \<Rightarrow> bool" where
  "less_eq_cell (Num a) (Num b) = (a \<le> b)"
| "less_eq_cell (Num a) (Text t) = True"
| "less_eq_cell (Text s) (Num b) = False"
| "less_eq_cell (Text s) (Text t) = (s \<le> t)"

definition less_cell :: "cell \<Rightarrow> cell \<Rightarrow> bool" where
  "less_cell a b \<longleftrightarrow> \<not> b \<le> a"

instance
proof
  fix a b c :: cell
  show "(a < b) = (a \<le> b \<and> \<not> b \<le> a)" by (cases a; cases b) (auto simp: less_cell_def)
  show "a \<le> a" by (cases a) auto
  show "a \<le> b \<Longrightarrow> b \<le> c \<Longrightarrow> a \<le> c" by (cases a; cases b; cases c) auto
  show "a \<le> b \<Longrightarrow> b \<le> a \<Longrightarrow> a = b" by (cases a; cases b) auto
  show "a \<le> b \<or> b \<le> a" by (cases a; cases b) auto
qed

end

section \<open>The dataframe library\<close>

record pandas =
  argsort :: "cell list list \<Rightarrow> nat list"
  group_indices :: "cell list list \<Rightarrow> (cell list \<times> nat list) list"
  to_numeric :: "pyfloat option \<Rightarrow> pyfloat"
  floor_minute :: "int \<Rightarrow> int"
  agg_first :: "pyfloat list \<Rightarrow> pyfloat"
  agg_last :: "pyfloat list \<Rightarrow> pyfloat"
  agg_max :: "pyfloat list \<Rightarrow> pyfloat"
  agg_min :: "pyfloat list \<Rightarrow> pyfloat"
  agg_sum :: "pyfloat list \<Rightarrow> pyfloat"

definition numbers :: "pyfloat list \<Rightarrow> pyfloat list" where
  "numbers xs = filter (\<lambda>x. x \<noteq> NaN) xs"

text \<open>What the service relies on. Sorting permutes the rows into key order (ties in any order);
  groups have distinct keys and list their rows in frame order; a missing value reads as NaN and
  \<open>first\<close>, \<open>last\<close>, \<open>max\<close>, \<open>min\<close> skip NaN; a sum of whole numbers below \<open>2 ^ 53\<close> is exact.\<close>

definition pandas_ok :: "pandas \<Rightarrow> bool" where
  "pandas_ok D \<longleftrightarrow>
     (\<forall>ks. mset (argsort D ks) = mset [0..<length ks] \<and> sorted (map ((!) ks) (argsort D ks))) \<and>
     (\<forall>ks. distinct (map fst (group_indices D ks)) \<and> fst ` set (group_indices D ks) = set ks \<and>
        (\<forall>(k, is) \<in> set (group_indices D ks). is = filter (\<lambda>i. ks ! i = k) [0..<length ks])) \<and>
     (\<forall>x. to_numeric D (Some x) = x) \<and> to_numeric D None = NaN \<and>
     (\<forall>t. floor_minute D t = t - t mod microseconds_per_minute) \<and>
     (\<forall>xs. numbers xs = [] \<longrightarrow> agg_first D xs = NaN \<and> agg_last D xs = NaN \<and> agg_max D xs = NaN \<and> agg_min D xs = NaN) \<and>
     (\<forall>xs. numbers xs \<noteq> [] \<longrightarrow> agg_first D xs = hd (numbers xs) \<and> agg_last D xs = last (numbers xs) \<and>
        agg_max D xs = Max (set (numbers xs)) \<and> agg_min D xs = Min (set (numbers xs))) \<and>
     (\<forall>ns. sum_list ns \<le> 2 ^ 53 \<longrightarrow> agg_sum D (map (\<lambda>n. Fin (of_nat n)) ns) = Fin (of_nat (sum_list ns)))"

section \<open>build_candles\<close>

text \<open>A row of the trailing window, of the frame and of the result.\<close>

record recent_trade =
  rc_symbol :: string
  rc_trade_ts :: int
  rc_price :: pyfloat
  rc_volume :: "pyfloat option"

record frame_row =
  fr_symbol :: string
  fr_price :: pyfloat
  fr_volume :: pyfloat
  fr_trade_ts :: int
  fr_minute :: int

record candle =
  cn_symbol :: string
  cn_minute :: int
  cn_open :: pyfloat
  cn_high :: pyfloat
  cn_low :: pyfloat
  cn_close :: pyfloat
  cn_volume :: pyfloat
  cn_trade_count :: nat

definition sort_values :: "pandas \<Rightarrow> ('r \<Rightarrow> cell list) \<Rightarrow> 'r list \<Rightarrow> 'r list" where
  "sort_values D key rows = map ((!) rows) (argsort D (map key rows))"

definition fillna :: "pyfloat \<Rightarrow> pyfloat \<Rightarrow> pyfloat" where
  "fillna d x = (if x = NaN then d else x)"

definition frame_of :: "pandas \<Rightarrow> recent_trade \<Rightarrow> frame_row" where
  "frame_of D t = \<lparr> fr_symbol = rc_symbol t, fr_price = to_numeric D (Some (rc_price t)),
     fr_volume = fillna (Fin 0) (to_numeric D (rc_volume t)), fr_trade_ts = rc_trade_ts t,
     fr_minute = floor_minute D (rc_trade_ts t) \<rparr>"

definition candle_of :: "pandas \<Rightarrow> frame_row list \<Rightarrow> candle" where
  "candle_of D rows = (let prices = map fr_price rows in
     \<lparr> cn_symbol = fr_symbol (hd rows), cn_minute = fr_minute (hd rows), cn_open = agg_first D prices,
       cn_high = agg_max D prices, cn_low = agg_min D prices, cn_close = agg_last D prices,
       cn_volume = agg_sum D (map fr_volume rows), cn_trade_count = length rows \<rparr>)"

definition build_candles :: "pandas \<Rightarrow> recent_trade list \<Rightarrow> candle list" where
  "build_candles D trades =
     (if trades = [] then []
      else let frame = map (frame_of D) trades;
               frame = sort_values D (\<lambda>r. [Text (fr_symbol r), Num (fr_minute r), Num (fr_trade_ts r)]) frame;
               candles = map (\<lambda>(k, is). candle_of D (map ((!) frame) is))
                 (group_indices D (map (\<lambda>r. [Text (fr_symbol r), Num (fr_minute r)]) frame))
           in sort_values D (\<lambda>c. [Num (cn_minute c), Text (cn_symbol c)]) candles)"

section \<open>Frames\<close>

lemma argsort_perm: "pandas_ok D \<Longrightarrow> mset (argsort D ks) = mset [0..<length ks]"
  and argsort_sorted: "pandas_ok D \<Longrightarrow> sorted (map ((!) ks) (argsort D ks))"
  by (simp_all add: pandas_ok_def)

lemma agg_sum_exact:
  "pandas_ok D \<Longrightarrow> sum_list ns \<le> 2 ^ 53 \<Longrightarrow> agg_sum D (map (\<lambda>n. Fin (of_nat n)) ns) = Fin (of_nat (sum_list ns))"
  by (simp add: pandas_ok_def)

lemma argsort_bound: "pandas_ok D \<Longrightarrow> i \<in> set (argsort D ks) \<Longrightarrow> i < length ks"
  using mset_eq_setD [OF argsort_perm [of D ks]] by auto

lemma mset_map_nth: "mset js = mset [0..<length xs] \<Longrightarrow> mset (map ((!) xs) js) = mset xs"
  by (metis map_nth mset_map)

lemma sort_values_perm: "pandas_ok D \<Longrightarrow> mset (sort_values D key rows) = mset rows"
  unfolding sort_values_def by (rule mset_map_nth) (use argsort_perm [of D "map key rows"] in simp)

lemma sort_values_sorted:
  assumes "pandas_ok D" shows "sorted (map key (sort_values D key rows))"
proof -
  have "map key (sort_values D key rows) = map ((!) (map key rows)) (argsort D (map key rows))"
    using argsort_bound [OF assms, of _ "map key rows"] by (auto simp: sort_values_def)
  then show ?thesis using argsort_sorted [OF assms] by simp
qed

lemma sort_values_map:
  assumes "pandas_ok D"
  shows "sort_values D key (map f xs) = map f (sort_values D (\<lambda>x. key (f x)) xs)"
  using argsort_bound [OF assms, of _ "map (\<lambda>x. key (f x)) xs"] by (auto simp: sort_values_def comp_def)

lemma group_rows:
  assumes "pandas_ok D" "(k, is) \<in> set (group_indices D (map key rows))"
  shows "map ((!) rows) is = filter (\<lambda>r. key r = k) rows"
proof -
  have "is = filter (\<lambda>i. map key rows ! i = k) [0..<length rows]"
    using assms by (fastforce simp: pandas_ok_def)
  then have "is = filter (\<lambda>i. key (rows ! i) = k) [0..<length rows]" by (auto intro: filter_cong)
  then have "map ((!) rows) is = filter (\<lambda>r. key r = k) (map ((!) rows) [0..<length rows])"
    by (simp add: filter_map comp_def)
  then show ?thesis by (simp add: map_nth)
qed

lemma group_keys:
  "pandas_ok D \<Longrightarrow> distinct (map fst (group_indices D ks)) \<and> fst ` set (group_indices D ks) = set ks"
  by (simp add: pandas_ok_def)

section \<open>What a candle is\<close>

text \<open>The trades of a symbol in a minute, and the candle of a list of trades: for some order of
  the trades by time, the first and the last price that is a number, the largest and the
  smallest, the sum of the volumes that are present and the number of trades.\<close>

definition minute_of :: "int \<Rightarrow> int" where
  "minute_of t = t - t mod microseconds_per_minute"

definition trades_of :: "string \<Rightarrow> int \<Rightarrow> recent_trade list \<Rightarrow> recent_trade list" where
  "trades_of s m = filter (\<lambda>t. rc_symbol t = s \<and> minute_of (rc_trade_ts t) = m)"

definition volume_or_0 :: "recent_trade \<Rightarrow> pyfloat" where
  "volume_or_0 t = (case rc_volume t of None \<Rightarrow> Fin 0 | Some v \<Rightarrow> if v = NaN then Fin 0 else v)"

definition summarises :: "pandas \<Rightarrow> recent_trade list \<Rightarrow> candle \<Rightarrow> bool" where
  "summarises D g c \<longleftrightarrow> (\<exists>og. mset og = mset g \<and> sorted (map rc_trade_ts og) \<and>
     (let ps = numbers (map rc_price og) in
        cn_open c = (if ps = [] then NaN else hd ps) \<and> cn_close c = (if ps = [] then NaN else last ps) \<and>
        cn_high c = (if ps = [] then NaN else Max (set ps)) \<and> cn_low c = (if ps = [] then NaN else Min (set ps))) \<and>
     cn_volume c = agg_sum D (map volume_or_0 og) \<and> cn_trade_count c = length g)"

lemma candle_of_summarises:
  assumes "pandas_ok D" "mset og = mset g" "sorted (map rc_trade_ts og)"
  shows "summarises D g (candle_of D (map (frame_of D) og))"
proof -
  let ?ps = "map rc_price og"
  have p: "map fr_price (map (frame_of D) og) = ?ps"
    using assms(1) by (simp add: frame_of_def pandas_ok_def)
  have v: "map fr_volume (map (frame_of D) og) = map volume_or_0 og"
    using assms(1) by (simp add: frame_of_def pandas_ok_def fillna_def volume_or_0_def split: option.splits)
  have "if numbers ?ps = [] then agg_first D ?ps = NaN \<and> agg_last D ?ps = NaN \<and> agg_max D ?ps = NaN \<and> agg_min D ?ps = NaN
    else agg_first D ?ps = hd (numbers ?ps) \<and> agg_last D ?ps = last (numbers ?ps) \<and>
        agg_max D ?ps = Max (set (numbers ?ps)) \<and> agg_min D ?ps = Min (set (numbers ?ps))"
    using assms(1) unfolding pandas_ok_def by presburger
  then show ?thesis unfolding summarises_def candle_of_def p v Let_def
    using assms(2,3) mset_eq_length [OF assms(2)] by (intro exI [of _ og]) (simp split: if_splits)
qed

definition minute_key :: "recent_trade \<Rightarrow> cell list" where
  "minute_key t = [Text (rc_symbol t), Num (minute_of (rc_trade_ts t))]"

lemma frame_keys:
  assumes "pandas_ok D"
  shows "[Text (fr_symbol (frame_of D t)), Num (fr_minute (frame_of D t))] = minute_key t"
  and "fr_trade_ts (frame_of D t) = rc_trade_ts t"
  using assms by (simp_all add: frame_of_def pandas_ok_def minute_key_def minute_of_def)

text \<open>The frame in time order, as the trades it was made from, and the candle of each key.\<close>

definition ordered_trades :: "pandas \<Rightarrow> recent_trade list \<Rightarrow> recent_trade list" where
  "ordered_trades D = sort_values D (\<lambda>t. [Text (rc_symbol t), Num (minute_of (rc_trade_ts t)), Num (rc_trade_ts t)])"

lemma sorted_within_key:
  assumes "sorted (map (\<lambda>t. [Text (rc_symbol t), Num (minute_of (rc_trade_ts t)), Num (rc_trade_ts t)]) ts)"
  shows "sorted (map rc_trade_ts (trades_of s m ts))"
  using assms
proof (induction ts)
  case (Cons t ts)
  have "rc_trade_ts t \<le> rc_trade_ts u"
    if "u \<in> set (trades_of s m ts)" "rc_symbol t = s" "minute_of (rc_trade_ts t) = m" for u
  proof -
    have u: "u \<in> set ts" "rc_symbol u = rc_symbol t" "minute_of (rc_trade_ts u) = minute_of (rc_trade_ts t)"
      using that by (auto simp: trades_of_def)
    have "[Text (rc_symbol t), Num (minute_of (rc_trade_ts t)), Num (rc_trade_ts t)] \<le>
        [Text (rc_symbol u), Num (minute_of (rc_trade_ts u)), Num (rc_trade_ts u)]"
      using Cons.prems u(1) by simp
    then show ?thesis unfolding u by (auto simp: less_cell_def)
  qed
  with Cons show ?case by (auto simp: trades_of_def)
qed (simp add: trades_of_def)

lemma ordered_trades_props:
  assumes "pandas_ok D"
  shows "mset (trades_of s m (ordered_trades D ts)) = mset (trades_of s m ts)"
    and "sorted (map rc_trade_ts (trades_of s m (ordered_trades D ts)))"
proof -
  show "mset (trades_of s m (ordered_trades D ts)) = mset (trades_of s m ts)"
    by (simp add: trades_of_def ordered_trades_def sort_values_perm [OF assms])
  show "sorted (map rc_trade_ts (trades_of s m (ordered_trades D ts)))"
    unfolding ordered_trades_def by (rule sorted_within_key) (rule sort_values_sorted [OF assms])
qed

text \<open>The candle of a key, and the whole result.\<close>

definition candle_at :: "pandas \<Rightarrow> recent_trade list \<Rightarrow> cell list \<Rightarrow> candle" where
  "candle_at D ts k = candle_of D (map (frame_of D) (filter (\<lambda>t. minute_key t = k) (ordered_trades D ts)))"

lemma build_candles_keys:
  assumes "pandas_ok D" "ts \<noteq> []"
  shows "\<exists>ks. distinct ks \<and> set ks = minute_key ` set ts \<and>
    build_candles D ts = sort_values D (\<lambda>c. [Num (cn_minute c), Text (cn_symbol c)]) (map (candle_at D ts) ks)"
proof -
  let ?ot = "ordered_trades D ts" and ?key = "\<lambda>r. [Text (fr_symbol r), Num (fr_minute r)]"
  let ?frame = "map (frame_of D) ?ot"
  have frame: "sort_values D (\<lambda>r. [Text (fr_symbol r), Num (fr_minute r), Num (fr_trade_ts r)]) (map (frame_of D) ts) = ?frame"
    unfolding sort_values_map [OF assms(1)] ordered_trades_def using frame_keys [OF assms(1)]
    by (simp add: minute_key_def)
  let ?groups = "group_indices D (map ?key ?frame)"
  have each: "candle_of D (map ((!) ?frame) is) = candle_at D ts k" if "(k, is) \<in> set ?groups" for k "is"
    unfolding group_rows [OF assms(1) that] candle_at_def
    using frame_keys(1) [OF assms(1)] by (simp add: filter_map comp_def)
  have cs: "map (\<lambda>(k, is). candle_of D (map ((!) ?frame) is)) ?groups = map (candle_at D ts) (map fst ?groups)"
    using each by (simp add: case_prod_beta)
  have "build_candles D ts = sort_values D (\<lambda>c. [Num (cn_minute c), Text (cn_symbol c)])
      (map (candle_at D ts) (map fst ?groups))"
    using assms(2) unfolding build_candles_def Let_def frame cs by simp
  moreover have "set (map ?key ?frame) = minute_key ` set ts"
    by (simp add: image_image ordered_trades_def frame_keys(1) [OF assms(1)] mset_eq_setD [OF sort_values_perm [OF assms(1)]])
  ultimately show ?thesis using group_keys [OF assms(1), of "map ?key ?frame"]
    by (intro exI [of _ "map fst ?groups"]) simp
qed

lemma candle_at_summarises:
  assumes "pandas_ok D" "t \<in> set ts"
  shows "cn_symbol (candle_at D ts (minute_key t)) = rc_symbol t"
    and "cn_minute (candle_at D ts (minute_key t)) = minute_of (rc_trade_ts t)"
    and "summarises D (trades_of (rc_symbol t) (minute_of (rc_trade_ts t)) ts) (candle_at D ts (minute_key t))"
proof -
  let ?s = "rc_symbol t" and ?m = "minute_of (rc_trade_ts t)"
  let ?g = "trades_of ?s ?m (ordered_trades D ts)"
  have c: "candle_at D ts (minute_key t) = candle_of D (map (frame_of D) ?g)"
    by (simp add: candle_at_def trades_of_def minute_key_def)
  show "summarises D (trades_of ?s ?m ts) (candle_at D ts (minute_key t))"
    unfolding c by (rule candle_of_summarises [OF assms(1) ordered_trades_props [OF assms(1)]])
  have "t \<in> set (trades_of ?s ?m ts)" using assms(2) by (simp add: trades_of_def)
  then have "?g \<noteq> []" using ordered_trades_props(1) [OF assms(1), of ?s ?m ts]
    by (metis empty_iff mset.simps(1) set_mset_empty set_mset_mset)
  then have h: "hd ?g \<in> set ?g" by simp
  have "cn_symbol (candle_of D (map (frame_of D) ?g)) = rc_symbol (hd ?g)"
    "cn_minute (candle_of D (map (frame_of D) ?g)) = minute_of (rc_trade_ts (hd ?g))"
    using \<open>?g \<noteq> []\<close> frame_keys(1) [OF assms(1), of "hd ?g"]
    by (simp_all add: candle_of_def Let_def hd_map minute_key_def)
  with h show "cn_symbol (candle_at D ts (minute_key t)) = ?s" "cn_minute (candle_at D ts (minute_key t)) = ?m"
    unfolding c by (simp_all add: trades_of_def)
qed

text \<open>What the rest of the service uses of the result.\<close>

lemma build_candles_props:
  assumes "pandas_ok D"
  shows "c \<in> set (build_candles D ts) \<Longrightarrow> summarises D (trades_of (cn_symbol c) (cn_minute c) ts) c"
    and "(\<lambda>c. (cn_symbol c, cn_minute c)) ` set (build_candles D ts) = (\<lambda>t. (rc_symbol t, minute_of (rc_trade_ts t))) ` set ts"
    and "distinct (map (\<lambda>c. (cn_symbol c, cn_minute c)) (build_candles D ts))"
    and "sorted (map (\<lambda>c. [Num (cn_minute c), Text (cn_symbol c)]) (build_candles D ts))"
proof -
  show "sorted (map (\<lambda>c. [Num (cn_minute c), Text (cn_symbol c)]) (build_candles D ts))"
    by (simp add: build_candles_def Let_def sort_values_sorted [OF assms])
  have "(c \<in> set (build_candles D ts) \<longrightarrow> summarises D (trades_of (cn_symbol c) (cn_minute c) ts) c) \<and>
    (\<lambda>c. (cn_symbol c, cn_minute c)) ` set (build_candles D ts) = (\<lambda>t. (rc_symbol t, minute_of (rc_trade_ts t))) ` set ts \<and>
    distinct (map (\<lambda>c. (cn_symbol c, cn_minute c)) (build_candles D ts))"
  proof (cases "ts = []")
    case False
    then obtain ks where ks: "distinct ks" "set ks = minute_key ` set ts"
      "build_candles D ts = sort_values D (\<lambda>c. [Num (cn_minute c), Text (cn_symbol c)]) (map (candle_at D ts) ks)"
      using build_candles_keys [OF assms] by blast
    have m: "mset (build_candles D ts) = mset (map (candle_at D ts) ks)"
      unfolding ks(3) by (rule sort_values_perm [OF assms])
    then have s: "set (build_candles D ts) = candle_at D ts ` minute_key ` set ts"
      using ks(2) by (metis mset_eq_setD set_map)
    have "[Text (cn_symbol (candle_at D ts k)), Num (cn_minute (candle_at D ts k))] = k" if "k \<in> set ks" for k
      using that ks(2) candle_at_summarises(1,2) [OF assms, of _ ts] by (auto simp: minute_key_def)
    then have "inj_on (\<lambda>k. (cn_symbol (candle_at D ts k), cn_minute (candle_at D ts k))) (set ks)"
      by (intro inj_onI) (metis prod.inject)
    then have "distinct (map (\<lambda>c. (cn_symbol c, cn_minute c)) (map (candle_at D ts) ks))"
      using ks(1) by (simp add: distinct_map comp_def)
    then have "distinct (map (\<lambda>c. (cn_symbol c, cn_minute c)) (build_candles D ts))"
      by (metis m mset_eq_imp_distinct_iff mset_map)
    with s candle_at_summarises [OF assms, of _ ts] show ?thesis by (auto simp: image_image)
  qed (simp add: build_candles_def)
  then show "c \<in> set (build_candles D ts) \<Longrightarrow> summarises D (trades_of (cn_symbol c) (cn_minute c) ts) c"
    and "(\<lambda>c. (cn_symbol c, cn_minute c)) ` set (build_candles D ts) = (\<lambda>t. (rc_symbol t, minute_of (rc_trade_ts t))) ` set ts"
    and "distinct (map (\<lambda>c. (cn_symbol c, cn_minute c)) (build_candles D ts))" by blast+
qed

section \<open>A library that meets the law\<close>

definition toy_pandas :: pandas where
  "toy_pandas = \<lparr> argsort = (\<lambda>ks. sort_key ((!) ks) [0..<length ks]),
     group_indices = (\<lambda>ks. map (\<lambda>k. (k, filter (\<lambda>i. ks ! i = k) [0..<length ks])) (dedup ks)),
     to_numeric = (\<lambda>v. case v of None \<Rightarrow> NaN | Some x \<Rightarrow> x),
     floor_minute = (\<lambda>t. t - t mod microseconds_per_minute),
     agg_first = (\<lambda>xs. case numbers xs of [] \<Rightarrow> NaN | y # ys \<Rightarrow> y),
     agg_last = (\<lambda>xs. if numbers xs = [] then NaN else last (numbers xs)),
     agg_max = (\<lambda>xs. case numbers xs of [] \<Rightarrow> NaN | y # ys \<Rightarrow> Max (set (y # ys))),
     agg_min = (\<lambda>xs. case numbers xs of [] \<Rightarrow> NaN | y # ys \<Rightarrow> Min (set (y # ys))),
     agg_sum = foldl fadd (Fin 0) \<rparr>"

lemma exact_sum:
  "a + sum_list ns \<le> 2 ^ 53 \<Longrightarrow>
     foldl fadd (Fin (of_nat a)) (map (\<lambda>n. Fin (of_nat n)) ns) = Fin (of_nat (a + sum_list ns))"
proof (induction ns arbitrary: a)
  case (Cons n ns)
  have "int (a + n) \<le> 2 ^ 53" using Cons.prems by simp
  then have "is_double (of_int (int (a + n)))" by (intro is_double_int) simp
  then have "fadd (Fin (of_nat a)) (Fin (of_nat n)) = Fin (of_nat (a + n))"
    by (simp add: rnd_double)
  with Cons.IH [of "a + n"] Cons.prems show ?case by (simp add: add.assoc)
qed simp

lemma toy_pandas_ok: "pandas_ok toy_pandas"
proof -
  have s: "agg_sum toy_pandas (map (\<lambda>n. Fin (of_nat n)) ns) = Fin (of_nat (sum_list ns))" if "sum_list ns \<le> 2 ^ 53" for ns
    using exact_sum [of 0 ns] that by (simp add: toy_pandas_def)
  have a: "if numbers xs = [] then agg_first toy_pandas xs = NaN \<and> agg_last toy_pandas xs = NaN \<and>
      agg_max toy_pandas xs = NaN \<and> agg_min toy_pandas xs = NaN
    else agg_first toy_pandas xs = hd (numbers xs) \<and> agg_last toy_pandas xs = last (numbers xs) \<and>
      agg_max toy_pandas xs = Max (set (numbers xs)) \<and> agg_min toy_pandas xs = Min (set (numbers xs))" for xs
    by (cases "numbers xs") (simp_all add: toy_pandas_def)
  have k: "distinct (map fst (group_indices toy_pandas ks)) \<and> fst ` set (group_indices toy_pandas ks) = set ks \<and>
      (\<forall>(k, is) \<in> set (group_indices toy_pandas ks). is = filter (\<lambda>i. ks ! i = k) [0..<length ks])" for ks
    by (auto simp: toy_pandas_def comp_def image_image)
  have o: "mset (argsort toy_pandas ks) = mset [0..<length ks] \<and> sorted (map ((!) ks) (argsort toy_pandas ks))" for ks
    by (simp add: toy_pandas_def)
  have "to_numeric toy_pandas (Some x) = x" "to_numeric toy_pandas None = NaN"
    "floor_minute toy_pandas t = t - t mod microseconds_per_minute" for x t
    by (simp_all add: toy_pandas_def)
  with s a k o show ?thesis unfolding pandas_ok_def by presburger
qed

section \<open>Properties\<close>

text \<open>
  C23: The candles of a list of trades are one per symbol and minute in which it has a trade, in
  the order of minute and symbol; each is that of exactly the symbol's trades in the minute:
  opened and closed by the earliest and latest price that is a number, with the largest, the
  smallest, the volume and the number of trades. Whole volumes are added exactly.
\<close>

theorem build_candles_correct:
  assumes "pandas_ok D"
  shows "distinct (map (\<lambda>c. (cn_symbol c, cn_minute c)) (build_candles D ts)) \<and>
    sorted (map (\<lambda>c. [Num (cn_minute c), Text (cn_symbol c)]) (build_candles D ts)) \<and>
    (\<lambda>c. (cn_symbol c, cn_minute c)) ` set (build_candles D ts) =
      (\<lambda>t. (rc_symbol t, minute_of (rc_trade_ts t))) ` set ts \<and>
    (\<forall>c \<in> set (build_candles D ts).
       summarises D (trades_of (cn_symbol c) (cn_minute c) ts) c \<and>
       (\<forall>ns. mset (map volume_or_0 (trades_of (cn_symbol c) (cn_minute c) ts)) = mset (map (\<lambda>n. Fin (of_nat n)) ns) \<and>
          sum_list ns \<le> 2 ^ 53 \<longrightarrow> cn_volume c = Fin (of_nat (sum_list ns))))"
proof -
  have "cn_volume c = Fin (of_nat (sum_list ns))"
    if "summarises D g c" "mset (map volume_or_0 g) = mset (map (\<lambda>n. Fin (of_nat n)) ns)" "sum_list ns \<le> 2 ^ 53"
    for c g and ns :: "nat list"
  proof -
    from that(1) obtain og where og: "mset og = mset g" "cn_volume c = agg_sum D (map volume_or_0 og)"
      by (auto simp: summarises_def)
    have m: "mset (map volume_or_0 og) = mset (map (\<lambda>n. Fin (of_nat n)) ns)" using og(1) that(2) by simp
    then have "set (map volume_or_0 og) \<subseteq> range (\<lambda>n. Fin (of_nat n))"
      unfolding mset_eq_setD [OF m] by auto
    then obtain ks where ks: "map volume_or_0 og = map (\<lambda>n. Fin (of_nat n)) (ks :: nat list)"
      by (metis ex_map_conv image_iff subset_code(1))
    have "mset ks = mset ns"
    proof -
      have "inj (\<lambda>n :: nat. Fin (of_nat n))" by (rule injI) simp
      moreover have "image_mset (\<lambda>n. Fin (of_nat n)) (mset ks) = image_mset (\<lambda>n. Fin (of_nat n)) (mset ns)"
        using m ks by (metis mset_map)
      ultimately show ?thesis by (metis multiset.inj_map injD)
    qed
    then have "sum_list ks = sum_list ns" by (metis sum_mset_sum_list)
    then show ?thesis using og(2) ks that(3) assms by (simp add: pandas_ok_def)
  qed
  with build_candles_props(1) [OF assms, of _ ts] build_candles_props(2-4) [OF assms, of ts]
  show ?thesis by blast
qed

definition sample_window :: "recent_trade list" where
  "sample_window =
     [\<lparr> rc_symbol = ''NVDA'', rc_trade_ts = 60000001, rc_price = Fin 10, rc_volume = Some (Fin 2) \<rparr>,
      \<lparr> rc_symbol = ''NVDA'', rc_trade_ts = 90000000, rc_price = Fin 12, rc_volume = None \<rparr>,
      \<lparr> rc_symbol = ''AMZN'', rc_trade_ts = 130000000, rc_price = Fin 7, rc_volume = Some (Fin 3) \<rparr>]"

theorem build_candles_correct_witness:
  "\<exists>c \<in> set (build_candles toy_pandas sample_window). cn_symbol c = ''NVDA'' \<and> cn_minute c = 60000000 \<and>
     cn_trade_count c = 2 \<and> cn_volume c = Fin 2"
proof -
  have "(''NVDA'', 60000000) \<in> (\<lambda>t. (rc_symbol t, minute_of (rc_trade_ts t))) ` set sample_window"
    by (simp add: sample_window_def minute_of_def)
  moreover note correct = build_candles_correct [OF toy_pandas_ok, of sample_window]
  ultimately have "(''NVDA'', 60000000) \<in> (\<lambda>c. (cn_symbol c, cn_minute c)) ` set (build_candles toy_pandas sample_window)"
    by (simp only: correct [THEN conjunct2, THEN conjunct2, THEN conjunct1])
  then obtain c where
    c: "c \<in> set (build_candles toy_pandas sample_window)" "cn_symbol c = ''NVDA''" "cn_minute c = 60000000"
    by auto
  have g: "trades_of ''NVDA'' 60000000 sample_window = take 2 sample_window"
    by (simp add: trades_of_def sample_window_def minute_of_def)
  have v: "mset (map volume_or_0 (take 2 sample_window)) = mset (map (\<lambda>n. Fin (of_nat n)) [2, 0 :: nat])"
    by (simp add: sample_window_def volume_or_0_def)
  from bspec [OF correct [THEN conjunct2, THEN conjunct2, THEN conjunct2] c(1)] c(2,3) g have s: "summarises toy_pandas (take 2 sample_window) c"
    and e: "\<And>ns. mset (map volume_or_0 (take 2 sample_window)) = mset (map (\<lambda>n. Fin (of_nat n)) ns) \<Longrightarrow>
      sum_list ns \<le> 2 ^ 53 \<Longrightarrow> cn_volume c = Fin (of_nat (sum_list ns))"
    by simp_all
  from s have "cn_trade_count c = 2" by (auto simp: summarises_def sample_window_def)
  moreover have "cn_volume c = Fin 2" using e [OF v] by simp
  ultimately show ?thesis using c by blast
qed

end
