(* ===== verification/RollupWriter.thy ===== *)
theory RollupWriter
  imports Candles PyEnv
begin

text \<open>
  The rollup's statements (rollup/writer.py, rollup/db.py). \<open>stamp\<close> is the transaction's
  \<open>now()\<close>.
\<close>

section \<open>Upserts\<close>

text \<open>\<open>INSERT ... ON CONFLICT (key) DO UPDATE\<close>, and the table as a map from its key.\<close>

definition upsert :: "('r \<Rightarrow> 'k) \<Rightarrow> 'r \<Rightarrow> ('r \<Rightarrow> 'r) \<Rightarrow> 'r list \<Rightarrow> 'r list" where
  "upsert key new upd rows = (if key new \<in> key ` set rows
     then update_where (\<lambda>r. key r = key new) upd rows else rows @ [new])"

definition table_map :: "('r \<Rightarrow> 'k) \<Rightarrow> ('r \<Rightarrow> 'v) \<Rightarrow> 'r list \<Rightarrow> 'k \<Rightarrow> 'v option" where
  "table_map key val rows k = map_option val (List.find (\<lambda>r. key r = k) rows)"

text \<open>An upsert whose update keeps the key and writes every value the insert would.\<close>

locale upsert_table =
  fixes key :: "'r \<Rightarrow> 'k" and val :: "'r \<Rightarrow> 'v" and new :: "'a \<Rightarrow> 'r" and upd :: "'a \<Rightarrow> 'r \<Rightarrow> 'r"
  assumes key_upd: "key r = key (new a) \<Longrightarrow> key (upd a r) = key r"
    and val_upd: "key r = key (new a) \<Longrightarrow> val (upd a r) = val (new a)"
begin

abbreviation put :: "'a \<Rightarrow> 'r list \<Rightarrow> 'r list" where
  "put a \<equiv> upsert key (new a) (upd a)"

lemma keys_put: "map key (put a rows) = (if key (new a) \<in> key ` set rows then map key rows else map key rows @ [key (new a)])"
  using key_upd by (simp add: upsert_def update_where_def)

lemma distinct_put: "distinct (map key rows) \<Longrightarrow> distinct (map key (put a rows))"
  unfolding keys_put by auto

lemma find_update:
  "List.find (\<lambda>r. key r = k) (update_where (\<lambda>r. key r = key (new a)) (upd a) rows) =
     map_option (\<lambda>r. if k = key (new a) then upd a r else r) (List.find (\<lambda>r. key r = k) rows)"
  by (induction rows) (auto simp: update_where_def key_upd)

lemma find_snoc: "List.find P (xs @ [x]) = (case List.find P xs of None \<Rightarrow> if P x then Some x else None | Some y \<Rightarrow> Some y)"
  by (induction xs) auto

text \<open>An upsert of the table is an update of the map.\<close>

lemma put_refines: "table_map key val (put a rows) = (table_map key val rows)(key (new a) \<mapsto> val (new a))"
proof
  fix k
  let ?found = "List.find (\<lambda>r. key r = k) rows"
  show "table_map key val (put a rows) k = ((table_map key val rows)(key (new a) \<mapsto> val (new a))) k"
  proof (cases "key (new a) \<in> key ` set rows")
    case True
    then have "k = key (new a) \<Longrightarrow> \<exists>r. ?found = Some r \<and> key r = key (new a)"
      by (cases ?found) (auto simp: find_None_iff find_Some_iff)
    with True show ?thesis
      by (cases ?found) (auto simp: table_map_def upsert_def find_update val_upd)
  next
    case False
    then have "k = key (new a) \<Longrightarrow> ?found = None" by (auto simp: find_None_iff image_iff)
    with False show ?thesis by (auto simp: table_map_def upsert_def find_snoc split: option.splits)
  qed
qed

lemma fold_refines:
  "table_map key val (fold put as rows) = fold (\<lambda>a m. m(key (new a) \<mapsto> val (new a))) as (table_map key val rows)"
  by (induction as arbitrary: rows) (simp_all add: put_refines)

lemma fold_distinct: "distinct (map key rows) \<Longrightarrow> distinct (map key (fold put as rows))"
  by (induction as arbitrary: rows) (simp_all add: distinct_put)

end

lemma fold_map_upd:
  "distinct (map f as) \<Longrightarrow> fold (\<lambda>a m. m(f a \<mapsto> g a)) as m = m ++ map_of (map (\<lambda>a. (f a, g a)) as)"
proof (induction as arbitrary: m)
  case (Cons a as)
  then have "map_of (map (\<lambda>a. (f a, g a)) as) (f a) = None" by (auto simp: map_of_eq_None_iff image_image)
  with Cons show ?case by (auto simp: map_add_def fun_eq_iff split: option.splits)
qed simp

section \<open>Candles\<close>

definition candle_key :: "candle_row \<Rightarrow> string \<times> int" where
  "candle_key r = (cd_symbol r, cd_minute r)"

definition candle_values :: "candle_row \<Rightarrow> candle" where
  "candle_values r = \<lparr> cn_symbol = cd_symbol r, cn_minute = cd_minute r, cn_open = cd_open r,
     cn_high = cd_high r, cn_low = cd_low r, cn_close = cd_close r, cn_volume = cd_volume r,
     cn_trade_count = cd_trade_count r \<rparr>"

definition candle_row_of :: "int \<Rightarrow> candle \<Rightarrow> candle_row" where
  "candle_row_of stamp c = \<lparr> cd_symbol = cn_symbol c, cd_minute = cn_minute c, cd_open = cn_open c,
     cd_high = cn_high c, cd_low = cn_low c, cd_close = cn_close c, cd_volume = cn_volume c,
     cd_trade_count = cn_trade_count c, cd_updated_at = stamp \<rparr>"

definition overwrite_candle :: "int \<Rightarrow> candle \<Rightarrow> candle_row \<Rightarrow> candle_row" where
  "overwrite_candle stamp c r = r\<lparr> cd_open := cn_open c, cd_high := cn_high c, cd_low := cn_low c,
     cd_close := cn_close c, cd_volume := cn_volume c, cd_trade_count := cn_trade_count c,
     cd_updated_at := stamp \<rparr>"

text \<open>What the columns accept: no infinity, and a count of 32 bits.\<close>

definition candle_error :: "candle \<Rightarrow> exn option" where
  "candle_error c = first_error (text_error (cn_symbol c) #
     map numeric_error [cn_open c, cn_high c, cn_low c, cn_close c, cn_volume c] @
     [if cn_trade_count c < 2147483648 then None else Some (DbError ''integer out of range'')])"

definition upsert_candles :: "int \<Rightarrow> candle list \<Rightarrow> pg \<Rightarrow> (nat \<times> pg) result" where
  "upsert_candles stamp cs db =
     (if cs = [] then Inr (0, db)
      else case first_error (map candle_error cs) of
          Some e \<Rightarrow> Inl e
        | None \<Rightarrow> Inr (length cs, db\<lparr> candles :=
            fold (\<lambda>c. upsert candle_key (candle_row_of stamp c) (overwrite_candle stamp c)) cs (candles db) \<rparr>))"

section \<open>Runs\<close>

definition start_run :: "int \<Rightarrow> int \<Rightarrow> int \<Rightarrow> pg \<Rightarrow> (nat \<times> pg) result" where
  "start_run stamp window_start window_end db =
     (let n = next_run_id db in Inr (n, db\<lparr> next_run_id := Suc n,
        rollup_runs := rollup_runs db @ [\<lparr> rr_id = n, rr_started_at = stamp, rr_finished_at = None,
          rr_window_start = window_start, rr_window_end = window_end, rr_trades_read = 0,
          rr_minutes_written = 0, rr_status = ''running'', rr_error_message = None \<rparr>] \<rparr>))"

record run_end =
  re_status :: string
  re_trades_read :: nat
  re_minutes_written :: nat
  re_error_message :: "string option"

definition finish_run_row :: "int \<times> run_end \<Rightarrow> run_row \<Rightarrow> run_row" where
  "finish_run_row p r = (case p of (stamp, e) \<Rightarrow>
     r\<lparr> rr_finished_at := Some stamp, rr_trades_read := re_trades_read e,
        rr_minutes_written := re_minutes_written e, rr_status := re_status e,
        rr_error_message := re_error_message e \<rparr>)"

definition finish_run :: "int \<Rightarrow> nat \<Rightarrow> run_end \<Rightarrow> pg \<Rightarrow> (unit \<times> pg) result" where
  "finish_run stamp run_id e db =
     (case first_error [text_error (re_status e),
         case re_error_message e of None \<Rightarrow> None | Some m \<Rightarrow> text_error m] of
       Some err \<Rightarrow> Inl err
     | None \<Rightarrow> Inr ((), db\<lparr> rollup_runs :=
         update_where (\<lambda>r. rr_id r = run_id) (finish_run_row (stamp, e)) (rollup_runs db) \<rparr>))"

section \<open>The trailing window\<close>

definition recent_of :: "raw_trade_row \<Rightarrow> recent_trade" where
  "recent_of r = \<lparr> rc_symbol = rt_symbol r, rc_trade_ts = rt_ts r, rc_price = rt_price r, rc_volume = rt_volume r \<rparr>"

definition in_window :: "int \<Rightarrow> pg \<Rightarrow> recent_trade list" where
  "in_window window_start db = map recent_of (filter (\<lambda>r. window_start \<le> rt_ts r) (raw_trades db))"

definition read_recent_trades :: "int \<Rightarrow> nat \<Rightarrow> pg \<Rightarrow> recent_trade list" where
  "read_recent_trades window_start limit db =
     take limit (sort_key (\<lambda>t. [Text (rc_symbol t), Num (rc_trade_ts t)]) (in_window window_start db))"

definition rollup_get_engine :: "env \<Rightarrow> string result" where
  "rollup_get_engine e =
     (let host = env_get e ''DESTINATION_POSTGRES_HOST'' ''destination_postgres'';
          port = env_get e ''DESTINATION_POSTGRES_PORT'' ''5432'';
          db_name = env_get e ''DESTINATION_POSTGRES_DB'' ''destination_db'';
          user = env_get e ''DESTINATION_POSTGRES_USER'' ''postgres'';
          password = env_get e ''DESTINATION_POSTGRES_PASSWORD'' []
      in if password = [] then Inl (RuntimeError ''DESTINATION_POSTGRES_PASSWORD is not set. Check that docker-compose.yaml passes ./.env to the rollup service.'')
         else Inr (''postgresql+psycopg2://'' @ user @ '':'' @ password @ ''@'' @ host @ '':'' @ port @
                   ''/'' @ db_name))"

section \<open>Lemmas\<close>

lemma read_recent_subset: "set (read_recent_trades ws n db) \<subseteq> set (in_window ws db)"
  by (auto simp: read_recent_trades_def dest: in_set_takeD)

lemma read_recent_length: "length (read_recent_trades ws n db) \<le> length (in_window ws db)"
  by (simp add: read_recent_trades_def)

interpretation cdl: upsert_table candle_key candle_values "candle_row_of stamp" "overwrite_candle stamp"
  by unfold_locales (simp_all add: candle_key_def candle_row_of_def overwrite_candle_def candle_values_def)

interpretation runs: row_update rr_id finish_run_row
  by unfold_locales (simp add: finish_run_row_def split: prod.split)

text \<open>The candles of a database, as a map from symbol and minute.\<close>

definition candle_map :: "pg \<Rightarrow> string \<times> int \<Rightarrow> candle option" where
  "candle_map db = table_map candle_key candle_values (candles db)"

lemma candle_row_simps [simp]:
  "candle_key (candle_row_of stamp c) = (cn_symbol c, cn_minute c)" "candle_values (candle_row_of stamp c) = c"
  by (simp_all add: candle_key_def candle_row_of_def candle_values_def)

lemma upsert_candles_Inr:
  assumes "upsert_candles stamp cs db = Inr (n, db')" "distinct (map (\<lambda>c. (cn_symbol c, cn_minute c)) cs)"
  shows "n = length cs \<and> candle_map db' = candle_map db ++ map_of (map (\<lambda>c. ((cn_symbol c, cn_minute c), c)) cs) \<and>
    (\<exists>rows. db' = db\<lparr> candles := rows \<rparr> \<and> (distinct (map candle_key (candles db)) \<longrightarrow> distinct (map candle_key rows)))"
proof (cases "cs = []")
  case True
  with assms(1) show ?thesis by (auto simp: upsert_candles_def intro!: exI [of _ "candles db"])
next
  case False
  let ?rows = "fold (\<lambda>c. upsert candle_key (candle_row_of stamp c) (overwrite_candle stamp c)) cs (candles db)"
  have "db' = db\<lparr> candles := ?rows \<rparr>" "n = length cs"
    using assms(1) False by (auto simp: upsert_candles_def split: option.splits)
  with cdl.fold_refines [of stamp cs "candles db"] cdl.fold_distinct [of "candles db" stamp cs]
    fold_map_upd [OF assms(2), of "\<lambda>c. c"] show ?thesis
    by (auto simp: candle_map_def)
qed

section \<open>Properties\<close>

text \<open>
  C24: Writing candles is updating a map from symbol and minute: every candle of the batch takes
  the place of the one stored for its symbol and minute, the others stay, and the table keeps one
  row per symbol and minute. Writing the same batch again at any later time changes no value.
\<close>

theorem upsert_candles_refines:
  assumes "upsert_candles stamp cs db = Inr (n, db')" "distinct (map (\<lambda>c. (cn_symbol c, cn_minute c)) cs)"
    and "pg_keys_ok db"
  shows "n = length cs \<and> candle_map db' = candle_map db ++ map_of (map (\<lambda>c. ((cn_symbol c, cn_minute c), c)) cs) \<and>
    pg_keys_ok db' \<and>
    (\<exists>db''. upsert_candles later cs db' = Inr (n, db'') \<and> candle_map db'' = candle_map db')"
proof -
  note one = upsert_candles_Inr [OF assms(1,2)]
  then obtain rows where rows: "db' = db\<lparr> candles := rows \<rparr>"
    "distinct (map candle_key (candles db)) \<longrightarrow> distinct (map candle_key rows)" by blast
  have "distinct (map candle_key (candles db))" using assms(3) by (simp add: pg_keys_ok_def candle_key_def [abs_def])
  with rows assms(3) have keys: "pg_keys_ok db'" by (simp add: pg_keys_ok_def candle_key_def [abs_def])
  obtain db'' where again: "upsert_candles later cs db' = Inr (n, db'')"
    using assms(1) by (auto simp: upsert_candles_def split: option.splits if_splits)
  have "m ++ k ++ k = m ++ k" for m k :: "string \<times> int \<Rightarrow> candle option"
    by (auto simp: map_add_def split: option.splits)
  then have "candle_map db'' = candle_map db'"
    using one upsert_candles_Inr [OF again assms(2)] by simp
  with one keys again show ?thesis by blast
qed

definition sample_candle :: "nat \<Rightarrow> candle" where
  "sample_candle n = \<lparr> cn_symbol = ''NVDA'', cn_minute = 60000000, cn_open = Fin 1, cn_high = Fin 2,
     cn_low = Fin 1, cn_close = Fin 2, cn_volume = Fin 5, cn_trade_count = n \<rparr>"

theorem upsert_candles_refines_witness:
  "\<exists>db'. upsert_candles 9 [sample_candle 3] empty_pg = Inr (1, db') \<and>
     candle_map db' (''NVDA'', 60000000) = Some (sample_candle 3)"
proof -
  have "candle_error (sample_candle 3) = None"
    by (simp add: candle_error_def sample_candle_def text_error_def numeric_error_def)
  then obtain db' where u: "upsert_candles 9 [sample_candle 3] empty_pg = Inr (1, db')"
    by (simp add: upsert_candles_def)
  from upsert_candles_refines [OF u] u show ?thesis by (auto simp: sample_candle_def)
qed

end
