(* ===== verification/RollupConfig.thy ===== *)
theory RollupConfig
  imports PyEnv
begin

text \<open>The settings of the rollup service (rollup/config.py).\<close>

definition ROLLUP_DEFAULTS :: "(string \<times> string) list" where
  "ROLLUP_DEFAULTS =
     [(''ROLLUP_INTERVAL_SECONDS'', ''60''),
      (''ROLLUP_WINDOW_MINUTES'', ''10''),
      (''ROLLUP_MAX_ROWS'', ''200000'')]"

record rollup_config =
  interval_seconds :: pyfloat
  window_minutes :: int
  max_rows :: int

text \<open>The last check. A comparison of an \<open>int\<close> and a \<open>float\<close> is exact. The message holds
  \<open>window * 60\<close>, and building it raises a \<open>ValueError\<close> when that has too many digits.\<close>

definition reject_short :: "pyfloat \<Rightarrow> int \<Rightarrow> unit result" where
  "reject_short interval window =
     (if py_lt (Fin (of_int (window * 60))) interval then
        (if unprintable (window * 60) then Inl ValueError
         else Inl (ConfigError ''ROLLUP_WINDOW_MINUTES covers less than ROLLUP_INTERVAL_SECONDS. Minutes between runs would never be rolled up.''))
      else Inr ())"

lemma reject_short_Inr [simp]:
  "reject_short interval window = Inr u \<longleftrightarrow> \<not> py_lt (Fin (of_int (window * 60))) interval"
  by (simp add: reject_short_def)

definition load_rollup_config :: "env \<Rightarrow> rollup_config result" where
  "load_rollup_config e =
     rbind (read_number ROLLUP_DEFAULTS e ''ROLLUP_INTERVAL_SECONDS'' float_of_str) (\<lambda>interval.
     rbind (read_number ROLLUP_DEFAULTS e ''ROLLUP_WINDOW_MINUTES'' int_setting) (\<lambda>window.
     rbind (read_number ROLLUP_DEFAULTS e ''ROLLUP_MAX_ROWS'' int_setting) (\<lambda>rows.
     rbind (reject (py_le interval (Fin 0)) ''ROLLUP_INTERVAL_SECONDS must be positive'') (\<lambda>_.
     rbind (reject (window < 1) ''ROLLUP_WINDOW_MINUTES must be at least 1'') (\<lambda>_.
     rbind (reject (rows < 1) ''ROLLUP_MAX_ROWS must be at least 1'') (\<lambda>_.
     rbind (reject_short interval window) (\<lambda>_.
       Inr \<lparr> interval_seconds = interval, window_minutes = window, max_rows = rows \<rparr>)))))))"

section \<open>Properties\<close>

text \<open>
  Settings that load have a window and a row limit of at least one, and an interval that is
  a positive number of seconds no longer than the window, or NaN: both comparisons let NaN
  through, and the service then stops at its first \<open>time.sleep\<close>.
\<close>

theorem load_rollup_config_valid:
  assumes "load_rollup_config e = Inr c"
  shows "1 \<le> window_minutes c \<and> 1 \<le> max_rows c \<and>
    (interval_seconds c = NaN \<or>
     (\<exists>q. interval_seconds c = Fin q \<and> 0 < q \<and> q \<le> of_int (60 * window_minutes c)))"
proof -
  from assms have "1 \<le> window_minutes c" "1 \<le> max_rows c" "\<not> py_le (interval_seconds c) (Fin 0)"
    "\<not> py_lt (Fin (of_int (window_minutes c * 60))) (interval_seconds c)"
    by (auto simp: load_rollup_config_def rbind_eq_Inr)
  then show ?thesis by (cases "interval_seconds c") (auto simp: py_le_def py_lt_def less_pyfloat_def mult.commute)
qed

lemma rollup_defaults_load:
  assumes "e ''ROLLUP_WINDOW_MINUTES'' = None" "e ''ROLLUP_MAX_ROWS'' = None"
    "read_number ROLLUP_DEFAULTS e ''ROLLUP_INTERVAL_SECONDS'' float_of_str = Inr x"
    "\<not> py_le x (Fin 0)" "\<not> py_lt (Fin 600) x"
  shows "load_rollup_config e = Inr \<lparr> interval_seconds = x, window_minutes = 10, max_rows = 200000 \<rparr>"
proof -
  have "read_number ROLLUP_DEFAULTS e ''ROLLUP_WINDOW_MINUTES'' int_setting = Inr 10"
    by (rule read_number_value [OF env_or_unset int_setting_digits [THEN trans]])
      (auto simp: assms(1) ROLLUP_DEFAULTS_def MAX_STR_DIGITS_def text_eval)
  moreover have "read_number ROLLUP_DEFAULTS e ''ROLLUP_MAX_ROWS'' int_setting = Inr 200000"
    by (rule read_number_value [OF env_or_unset int_setting_digits [THEN trans]])
      (auto simp: assms(2) ROLLUP_DEFAULTS_def MAX_STR_DIGITS_def text_eval)
  ultimately show ?thesis using assms(3-5) by (simp add: load_rollup_config_def reject_short_def)
qed

theorem load_rollup_config_valid_witness:
  "\<exists>c e. load_rollup_config e = Inr c \<and> interval_seconds c = NaN \<and> 1 \<le> window_minutes c"
proof -
  let ?e = "[''ROLLUP_INTERVAL_SECONDS'' \<mapsto> ''nan''] :: env"
  have "read_number ROLLUP_DEFAULTS ?e ''ROLLUP_INTERVAL_SECONDS'' float_of_str = Inr NaN"
    by (rule read_number_value [OF env_or_set]) (auto simp: float_words(3))
  with rollup_defaults_load [of ?e NaN] obtain c where c: "load_rollup_config ?e = Inr c" "interval_seconds c = NaN"
    by auto
  with load_rollup_config_valid [OF c(1)] show ?thesis by blast
qed

end
