(* ===== verification/RollupMain.thy ===== *)
theory RollupMain
  imports RollupWriter RollupConfig
begin

text \<open>
  One pass of the rollup and its loop (rollup/main.py). A pass runs three transactions; the
  clock readings and the database failures of a pass are its inputs. \<open>show\<close> is the text of an
  exception.
\<close>

record pass =
  pass_now :: int
  start_stamp :: int
  write_stamp :: int
  end_stamp :: int
  start_failure :: "exn option"
  write_failure :: "exn option"
  end_failure :: "exn option"

definition window_start_of :: "rollup_config \<Rightarrow> pass \<Rightarrow> int" where
  "window_start_of config p = pass_now p - window_minutes config * microseconds_per_minute"

text \<open>The second transaction: the number of trades read and of candles written.\<close>

definition roll_up :: "pandas \<Rightarrow> rollup_config \<Rightarrow> pass \<Rightarrow> pg \<Rightarrow> ((nat \<times> nat) \<times> pg) result" where
  "roll_up D config p db =
     (let trades = read_recent_trades (window_start_of config p) (nat (max_rows config)) db
      in rbind (upsert_candles (write_stamp p) (build_candles D trades) db) (\<lambda>(written, db').
           Inr ((length trades, written), db')))"

definition run_once ::
  "(exn \<Rightarrow> string) \<Rightarrow> pandas \<Rightarrow> rollup_config \<Rightarrow> pass \<Rightarrow> pg \<Rightarrow> nat result \<times> pg" where
  "run_once show D config p db =
     (let window_start = window_start_of config p; window_end = pass_now p
      in if \<not> time_in_range window_start then (Inl OverflowError, db)
         else case transaction (start_failure p) (start_run (start_stamp p) window_start window_end) db of
           (Inl e, db1) \<Rightarrow> (Inl e, db1)
         | (Inr run_id, db1) \<Rightarrow>
             (case transaction (write_failure p) (roll_up D config p) db1 of
                (Inl error, db2) \<Rightarrow>
                  (case transaction (end_failure p) (finish_run (end_stamp p) run_id
                      \<lparr> re_status = ''failed'', re_trades_read = 0, re_minutes_written = 0,
                        re_error_message = Some (show error) \<rparr>) db2 of
                     (Inl e, db3) \<Rightarrow> (Inl e, db3) | (Inr _, db3) \<Rightarrow> (Inr 0, db3))
              | (Inr (trades_read, written), db2) \<Rightarrow>
                  (case transaction (end_failure p) (finish_run (end_stamp p) run_id
                      \<lparr> re_status = ''ok'', re_trades_read = trades_read, re_minutes_written = written,
                        re_error_message = None \<rparr>) db2 of
                     (Inl e, db3) \<Rightarrow> (Inl e, db3) | (Inr _, db3) \<Rightarrow> (Inr written, db3))))"

text \<open>The loop of \<open>main\<close>: an exception that leaves a pass is printed and the loop goes on.\<close>

definition run_all :: "(exn \<Rightarrow> string) \<Rightarrow> pandas \<Rightarrow> rollup_config \<Rightarrow> pass list \<Rightarrow> pg \<Rightarrow> pg" where
  "run_all show D config = fold (\<lambda>p db. snd (run_once show D config p db))"

section \<open>The transactions of a pass\<close>

lemma roll_up_Inr:
  assumes "pandas_ok D" "roll_up D config p db = Inr ((k, w), db')"
  defines "ts \<equiv> read_recent_trades (window_start_of config p) (nat (max_rows config)) db"
  shows "k = length ts \<and> w = length (build_candles D ts) \<and>
    candle_map db' = candle_map db ++ map_of (map (\<lambda>c. ((cn_symbol c, cn_minute c), c)) (build_candles D ts)) \<and>
    (\<exists>rows. db' = db\<lparr> candles := rows \<rparr>)"
  using assms upsert_candles_Inr [OF _ build_candles_props(3) [OF assms(1)]]
  by (fastforce simp: roll_up_def rbind_eq_Inr Let_def)

text \<open>How a pass can end: with the database as it was or the new row still running when it
  raises, and with the row finished when it returns.\<close>

definition run_row_of :: "rollup_config \<Rightarrow> pass \<Rightarrow> pg \<Rightarrow> run_row" where
  "run_row_of config p db = \<lparr> rr_id = next_run_id db, rr_started_at = start_stamp p, rr_finished_at = None,
     rr_window_start = window_start_of config p, rr_window_end = pass_now p, rr_trades_read = 0,
     rr_minutes_written = 0, rr_status = ''running'', rr_error_message = None \<rparr>"

definition started :: "rollup_config \<Rightarrow> pass \<Rightarrow> pg \<Rightarrow> pg" where
  "started config p db = db\<lparr> next_run_id := Suc (next_run_id db),
     rollup_runs := rollup_runs db @ [run_row_of config p db] \<rparr>"

definition finished :: "pass \<Rightarrow> run_end \<Rightarrow> nat \<Rightarrow> pg \<Rightarrow> pg" where
  "finished p e n db = db\<lparr> rollup_runs :=
     update_where (\<lambda>r. rr_id r = n) (finish_run_row (end_stamp p, e)) (rollup_runs db) \<rparr>"

lemma finish_run_Inr: "finish_run (end_stamp p) n e db = Inr (u, db') \<Longrightarrow> db' = finished p e n db"
  by (auto simp: finish_run_def finished_def split: option.splits)

lemma run_once_Inr:
  assumes "run_once show D config p db = (Inr w, db')"
  shows "(\<exists>k db2. write_failure p = None \<and> roll_up D config p (started config p db) = Inr ((k, w), db2) \<and>
      db' = finished p \<lparr> re_status = ''ok'', re_trades_read = k, re_minutes_written = w, re_error_message = None \<rparr>
        (next_run_id db) db2) \<or>
    (\<exists>error. w = 0 \<and>
      db' = finished p \<lparr> re_status = ''failed'', re_trades_read = 0, re_minutes_written = 0,
        re_error_message = Some (show error) \<rparr> (next_run_id db) (started config p db))"
proof -
  from assms have "transaction (start_failure p) (start_run (start_stamp p) (window_start_of config p) (pass_now p)) db =
      (Inr (next_run_id db), started config p db)"
    by (auto simp: run_once_def Let_def transaction_def start_run_def started_def run_row_of_def
        split: if_splits option.splits sum.splits prod.splits)
  with assms show ?thesis
    by (cases "transaction (write_failure p) (roll_up D config p) (started config p db)")
      (auto simp: run_once_def Let_def transaction_Inr dest!: finish_run_Inr dest: transaction_Inl
        split: if_splits sum.splits prod.splits)
qed

lemma run_once_Inl:
  assumes "run_once show D config p db = (Inl e, db')"
  shows "db' = db \<or> db' = started config p db \<or>
    (\<exists>k w. roll_up D config p (started config p db) = Inr ((k, w), db'))"
proof (cases "time_in_range (window_start_of config p) \<and> start_failure p = None")
  case True
  then have "transaction (start_failure p) (start_run (start_stamp p) (window_start_of config p) (pass_now p)) db =
      (Inr (next_run_id db), started config p db)"
    by (simp add: transaction_def start_run_def started_def run_row_of_def Let_def)
  with True assms show ?thesis
    by (cases "transaction (write_failure p) (roll_up D config p) (started config p db)")
      (auto simp: run_once_def Let_def transaction_Inr dest!: transaction_Inl split: if_splits sum.splits prod.splits)
next
  case False
  then show ?thesis using assms
    by (auto simp: run_once_def Let_def transaction_def split: if_splits)
qed

lemma roll_up_frame:
  "roll_up D config p db = Inr ((k, w), db') \<Longrightarrow>
     k = length (read_recent_trades (window_start_of config p) (nat (max_rows config)) db) \<and>
     (\<exists>rows. db' = db\<lparr> candles := rows \<rparr>)"
  by (auto simp: roll_up_def upsert_candles_def Let_def rbind_eq_Inr split: if_splits option.splits
      intro: exI [of _ "candles db"])

lemma started_simps [simp]:
  "raw_trades (started config p db) = raw_trades db" "candles (started config p db) = candles db"
  "rollup_runs (started config p db) = rollup_runs db @ [run_row_of config p db]"
  by (simp_all add: started_def)

lemma finished_simps [simp]:
  "raw_trades (finished p e n db) = raw_trades db" "candles (finished p e n db) = candles db"
  by (simp_all add: finished_def)

lemma read_recent_trades_cong:
  "raw_trades db = raw_trades db' \<Longrightarrow> read_recent_trades ws n db = read_recent_trades ws n db'"
  by (simp add: read_recent_trades_def in_window_def)

lemma finish_last_run:
  assumes "serial_ok rr_id (rollup_runs db) (next_run_id db)"
  shows "update_where (\<lambda>r. rr_id r = next_run_id db) f (rollup_runs db @ [run_row_of config p db]) =
    rollup_runs db @ [f (run_row_of config p db)]"
  using assms by (force simp: update_where_def run_row_of_def serial_ok_def intro: map_idI)

text \<open>
  C18: A pass that returns has closed its run: the table gained one row, finished, which is ok with
  the numbers of trades read and candles written, or failed with a message, and then no candle
  changed and the pass returned 0. A pass that raises leaves no row, or a row that is still
  running; nothing ever closes that one.
\<close>

theorem run_once_closes_run:
  assumes "serial_ok rr_id (rollup_runs db) (next_run_id db)"
    and run: "run_once show D config p db = (answer, db')"
  shows "case answer of
      Inl e \<Rightarrow> rollup_runs db' = rollup_runs db \<or>
        (\<exists>r. rollup_runs db' = rollup_runs db @ [r] \<and> rr_status r = ''running'' \<and> rr_finished_at r = None)
    | Inr w \<Rightarrow> (\<exists>r. rollup_runs db' = rollup_runs db @ [r] \<and> rr_id r = next_run_id db \<and>
        rr_finished_at r = Some (end_stamp p) \<and> rr_minutes_written r = w \<and>
        (if rr_status r = ''ok'' then rr_error_message r = None \<and>
           rr_trades_read r = length (read_recent_trades (window_start_of config p) (nat (max_rows config)) db)
         else rr_status r = ''failed'' \<and> w = 0 \<and> candles db' = candles db \<and> rr_error_message r \<noteq> None))"
proof (cases answer)
  case (Inl e)
  from run_once_Inl [OF run [unfolded Inl]] have "rollup_runs db' = rollup_runs db \<or>
      rollup_runs db' = rollup_runs db @ [run_row_of config p db]"
    using roll_up_frame by fastforce
  with Inl show ?thesis by (auto simp: run_row_of_def)
next
  case (Inr w)
  have closed: "rollup_runs (finished p e (next_run_id db) d) =
      rollup_runs db @ [finish_run_row (end_stamp p, e) (run_row_of config p db)]"
    if "rollup_runs d = rollup_runs db @ [run_row_of config p db]" for d e
    using finish_last_run [OF assms(1)] that by (simp add: finished_def)
  from run_once_Inr [OF run [unfolded Inr]] show ?thesis
  proof (elim disjE exE conjE)
    fix k db2 assume r: "roll_up D config p (started config p db) = Inr ((k, w), db2)"
      and d: "db' = finished p \<lparr> re_status = ''ok'', re_trades_read = k, re_minutes_written = w,
        re_error_message = None \<rparr> (next_run_id db) db2"
    from roll_up_frame [OF r] obtain rows where
      "k = length (read_recent_trades (window_start_of config p) (nat (max_rows config)) (started config p db))"
      "db2 = (started config p db)\<lparr> candles := rows \<rparr>" by blast
    with closed [of db2] Inr d show ?thesis
      by (simp add: finish_run_row_def run_row_of_def read_recent_trades_cong [of "started config p db" db])
  next
    fix error assume "w = 0" "db' = finished p \<lparr> re_status = ''failed'', re_trades_read = 0, re_minutes_written = 0,
        re_error_message = Some (show error) \<rparr> (next_run_id db) (started config p db)"
    with closed [of "started config p db"] Inr show ?thesis
      by (simp add: finish_run_row_def run_row_of_def)
  qed
qed

section \<open>Which candles a pass writes\<close>

lemma run_once_ok:
  assumes "pandas_ok D" "pg_keys_ok db" "run_once show D config p db = (Inr w, db')"
    "rr_status (last (rollup_runs db')) = ''ok''"
  defines "ts \<equiv> read_recent_trades (window_start_of config p) (nat (max_rows config)) db"
  shows "candle_map db' = candle_map db ++ map_of (map (\<lambda>c. ((cn_symbol c, cn_minute c), c)) (build_candles D ts))"
    and "raw_trades db' = raw_trades db"
proof -
  have ser: "serial_ok rr_id (rollup_runs db) (next_run_id db)" using assms(2) by (simp add: pg_keys_ok_def)
  have "re_status e = ''ok''" if "db' = finished p e (next_run_id db) (started config p db)" for e
    using assms(4) finish_last_run [OF ser, of "finish_run_row (end_stamp p, e)"] that
    by (simp add: finished_def finish_run_row_def)
  with run_once_Inr [OF assms(3)] obtain k db2 where
    r: "roll_up D config p (started config p db) = Inr ((k, w), db2)"
    and d: "db' = finished p \<lparr> re_status = ''ok'', re_trades_read = k, re_minutes_written = w,
        re_error_message = None \<rparr> (next_run_id db) db2" by fastforce
  have "candle_map (started config p db) = candle_map db" "candle_map db' = candle_map db2"
    by (simp_all add: candle_map_def d)
  with roll_up_Inr [OF assms(1) r] show
    "candle_map db' = candle_map db ++ map_of (map (\<lambda>c. ((cn_symbol c, cn_minute c), c)) (build_candles D ts))"
    by (simp add: ts_def read_recent_trades_cong [of "started config p db" db])
  from roll_up_Inr [OF assms(1) r] show "raw_trades db' = raw_trades db" by (auto simp: d)
qed

lemma map_of_candles:
  assumes "pandas_ok D"
  shows "if trades_of s m ts = []
    then map_of (map (\<lambda>c. ((cn_symbol c, cn_minute c), c)) (build_candles D ts)) (s, m) = None
    else \<exists>c. map_of (map (\<lambda>c. ((cn_symbol c, cn_minute c), c)) (build_candles D ts)) (s, m) = Some c \<and>
      summarises D (trades_of s m ts) c"
proof -
  let ?m = "map_of (map (\<lambda>c. ((cn_symbol c, cn_minute c), c)) (build_candles D ts))"
  have dom: "dom ?m = (\<lambda>t. (rc_symbol t, minute_of (rc_trade_ts t))) ` set ts"
    unfolding dom_map_of_conv_image_fst using build_candles_props(2) [OF assms, of ts] by (simp add: image_image)
  have "?m (s, m) = None \<longleftrightarrow> (s, m) \<notin> dom ?m" by (simp add: domIff)
  also have "\<dots> \<longleftrightarrow> trades_of s m ts = []" unfolding dom by (auto simp: trades_of_def filter_empty_conv)
  finally have "?m (s, m) = None \<longleftrightarrow> trades_of s m ts = []" .
  moreover have "summarises D (trades_of s m ts) c" if "?m (s, m) = Some c" for c
  proof -
    from map_of_SomeD [OF that] have "c \<in> set (build_candles D ts)" "cn_symbol c = s" "cn_minute c = m" by auto
    with build_candles_props(1) [OF assms, of c ts] show ?thesis by simp
  qed
  ultimately show ?thesis by auto
qed

lemma summarises_mset: "mset g = mset h \<Longrightarrow> summarises D g c = summarises D h c"
  using mset_eq_length [of g h] by (simp add: summarises_def)

text \<open>The trades of a minute that are in the window.\<close>

abbreviation stored_trades :: "string \<Rightarrow> int \<Rightarrow> pg \<Rightarrow> recent_trade list" where
  "stored_trades s m db \<equiv> trades_of s m (map recent_of (raw_trades db))"

lemma window_trades:
  assumes "length (in_window ws db) \<le> n"
  shows "mset (trades_of s m (read_recent_trades ws n db)) =
    mset (filter (\<lambda>t. ws \<le> rc_trade_ts t) (stored_trades s m db))"
proof -
  have "mset (read_recent_trades ws n db) = mset (in_window ws db)"
    using assms by (simp add: read_recent_trades_def)
  then have "mset (trades_of s m (read_recent_trades ws n db)) = mset (trades_of s m (in_window ws db))"
    by (simp add: trades_of_def)
  moreover have "trades_of s m (in_window ws db) = filter (\<lambda>t. ws \<le> rc_trade_ts t) (stored_trades s m db)"
    by (simp add: in_window_def trades_of_def filter_map comp_def recent_of_def conj_commute)
  ultimately show ?thesis by simp
qed

lemma candles_after_pass:
  fixes s :: string and m :: int
  assumes "pandas_ok D" "pg_keys_ok db" "run_once show D config p db = (Inr w, db')"
    "rr_status (last (rollup_runs db')) = ''ok''"
    "length (in_window (window_start_of config p) db) \<le> nat (max_rows config)"
  defines "g \<equiv> filter (\<lambda>t. window_start_of config p \<le> rc_trade_ts t) (stored_trades s m db)"
  shows "if g = [] then candle_map db' (s, m) = candle_map db (s, m)
    else \<exists>c. candle_map db' (s, m) = Some c \<and> summarises D g c"
proof -
  let ?ts = "read_recent_trades (window_start_of config p) (nat (max_rows config)) db"
  have g: "mset (trades_of s m ?ts) = mset g" unfolding g_def by (rule window_trades [OF assms(5)])
  then have "trades_of s m ?ts = [] \<longleftrightarrow> g = []" by (metis mset.simps(1) mset_zero_iff)
  then show ?thesis
    unfolding run_once_ok(1) [OF assms(1-4)] map_add_def
    using map_of_candles [OF assms(1), of s m ?ts] summarises_mset [OF g] by (auto split: if_splits)
qed

text \<open>A pass whose window starts after a minute leaves the minute's candles alone.\<close>

lemma pass_keeps_older:
  assumes "pandas_ok D" "m + microseconds_per_minute \<le> window_start_of config p"
  shows "candle_map (snd (run_once show D config p db)) (s, m) = candle_map db (s, m)"
proof -
  let ?ts = "read_recent_trades (window_start_of config p) (nat (max_rows config)) (started config p db)"
  have "rc_trade_ts t \<ge> window_start_of config p" if "t \<in> set ?ts" for t
    using subsetD [OF read_recent_subset that] by (auto simp: in_window_def recent_of_def)
  moreover have "t < m + microseconds_per_minute" if "minute_of t = m" for t
    using that by (simp add: minute_of_def)
  ultimately have none: "trades_of s m ?ts = []"
    using assms(2) by (fastforce simp: trades_of_def filter_empty_conv)
  have r: "candle_map db2 (s, m) = candle_map db (s, m)"
    if "roll_up D config p (started config p db) = Inr ((k, w), db2)" for k w db2
    using roll_up_Inr [OF assms(1) that] map_of_candles [OF assms(1), of s m ?ts] none
    by (simp add: map_add_def candle_map_def)
  have same: "candle_map (finished p e n d) = candle_map d" "candle_map (started config p db) = candle_map db" for e n d
    by (simp_all add: candle_map_def)
  obtain answer db' where run: "run_once show D config p db = (answer, db')" by fastforce
  show ?thesis
  proof (cases answer)
    case (Inl e)
    from run_once_Inl [OF run [unfolded Inl]] r same(2) run show ?thesis by auto
  next
    case (Inr w)
    from run_once_Inr [OF run [unfolded Inr]] r same run show ?thesis by auto
  qed
qed

lemma run_all_keeps_older:
  assumes "pandas_ok D" "\<forall>p \<in> set ps. m + microseconds_per_minute \<le> window_start_of config p"
  shows "candle_map (run_all show D config ps db) (s, m) = candle_map db (s, m)"
  using assms(2) by (induction ps arbitrary: db) (simp_all add: run_all_def pass_keeps_older [OF assms(1)])

text \<open>
  C11: After a pass that reports ok and whose window fits the row limit, every minute that lies in
  the window has, for every symbol, the candle of all the trades stored for it, whatever the
  table held before; a minute without trades keeps what it had.
\<close>

theorem rollup_full_minutes:
  assumes "pandas_ok D" "pg_keys_ok db" "run_once show D config p db = (Inr w, db')"
    "rr_status (last (rollup_runs db')) = ''ok''"
    "length (in_window (window_start_of config p) db) \<le> nat (max_rows config)"
    "window_start_of config p \<le> m"
  shows "if stored_trades s m db = [] then candle_map db' (s, m) = candle_map db (s, m)
    else \<exists>c. candle_map db' (s, m) = Some c \<and> summarises D (stored_trades s m db) c"
proof -
  have "filter (\<lambda>t. window_start_of config p \<le> rc_trade_ts t) (stored_trades s m db) = stored_trades s m db"
    using assms(6) by (intro filter_True) (auto simp: trades_of_def minute_of_def intro: order_trans)
  note all = this
  show ?thesis using candles_after_pass [OF assms(1-5), of s m] unfolding all .
qed

text \<open>
  C38: The minute the window starts in is cut. If the symbol has trades in the minute on both
  sides of the start, the pass replaces its candle, complete or not, by that of the later trades
  only; and that candle stays once the following windows start after the minute.
\<close>

theorem rollup_cuts_oldest_minute:
  assumes "pandas_ok D" "pg_keys_ok db" "run_once show D config p db = (Inr w, db')"
    "rr_status (last (rollup_runs db')) = ''ok''"
    "length (in_window (window_start_of config p) db) \<le> nat (max_rows config)"
    and before: "t1 \<in> set (stored_trades s m db)" "rc_trade_ts t1 < window_start_of config p"
    and after: "t2 \<in> set (stored_trades s m db)" "window_start_of config p \<le> rc_trade_ts t2"
    and later: "\<forall>q \<in> set ps. m + microseconds_per_minute \<le> window_start_of config q"
  shows "\<exists>c. candle_map db' (s, m) = Some c \<and> cn_trade_count c < length (stored_trades s m db) \<and>
    summarises D (filter (\<lambda>t. window_start_of config p \<le> rc_trade_ts t) (stored_trades s m db)) c \<and>
    candle_map (run_all show D config ps db') (s, m) = Some c"
proof -
  let ?g = "filter (\<lambda>t. window_start_of config p \<le> rc_trade_ts t) (stored_trades s m db)"
  have "?g \<noteq> []" using after by (auto simp: filter_empty_conv)
  with candles_after_pass [OF assms(1-5), of s m] obtain c where
    c: "candle_map db' (s, m) = Some c" "summarises D ?g c" by auto
  have "length ?g < length (stored_trades s m db)"
    using before by (intro length_filter_less [of t1]) auto
  moreover have "cn_trade_count c = length ?g" using c(2) by (auto simp: summarises_def Let_def)
  ultimately show ?thesis using c run_all_keeps_older [OF assms(1) later] by (intro exI [of _ c]) simp
qed

section \<open>An example\<close>

definition half_past :: pass where
  "half_past = \<lparr> pass_now = 690000000, start_stamp = 1, write_stamp = 2, end_stamp = 3,
     start_failure = None, write_failure = None, end_failure = None \<rparr>"

definition ten_minutes :: rollup_config where
  "ten_minutes = \<lparr> interval_seconds = Fin 60, window_minutes = 10, max_rows = 200000 \<rparr>"

definition nvda_trade :: "nat \<Rightarrow> int \<Rightarrow> raw_trade_row" where
  "nvda_trade n ts = \<lparr> rt_id = n, rt_symbol = ''NVDA'', rt_ts = ts, rt_price = Fin 10, rt_volume = Some (Fin 1),
     rt_conditions = None, rt_received_at = ts \<rparr>"

definition traded_db :: pg where
  "traded_db = empty_pg\<lparr> raw_trades := [nvda_trade 1 70000000, nvda_trade 2 100000000, nvda_trade 3 130000000],
     next_trade_id := 4 \<rparr>"

lemma traded_db_ok: "pg_keys_ok traded_db"
  by (simp add: traded_db_def pg_keys_ok_def empty_pg_def serial_ok_def nvda_trade_def)

lemma half_past_start [simp]: "window_start_of ten_minutes half_past = 90000000"
  by (simp add: window_start_of_def ten_minutes_def half_past_def)

text \<open>The pass succeeds: its prices are 10 and its volumes whole.\<close>

lemma half_past_rolls_up:
  "\<exists>k w db2. roll_up toy_pandas ten_minutes half_past (started ten_minutes half_past traded_db) = Inr ((k, w), db2)"
proof -
  let ?ts = "read_recent_trades 90000000 (nat (max_rows ten_minutes)) (started ten_minutes half_past traded_db)"
  have iw: "in_window 90000000 (started ten_minutes half_past traded_db) =
      map recent_of [nvda_trade 2 100000000, nvda_trade 3 130000000]"
    by (simp add: in_window_def traded_db_def nvda_trade_def)
  have ts: "t \<in> set ?ts \<Longrightarrow> rc_symbol t = ''NVDA'' \<and> rc_price t = Fin 10 \<and> rc_volume t = Some (Fin 1)" for t
    by (drule subsetD [OF read_recent_subset]) (auto simp: iw recent_of_def nvda_trade_def)
  have len: "length ?ts \<le> 2"
    using read_recent_length [of 90000000 _ "started ten_minutes half_past traded_db"] unfolding iw
    by (rule order_trans) simp
  have "candle_error c = None" if c: "c \<in> set (build_candles toy_pandas ?ts)" for c
  proof -
    let ?g = "trades_of (cn_symbol c) (cn_minute c) ?ts"
    have "(cn_symbol c, cn_minute c) \<in> (\<lambda>t. (rc_symbol t, minute_of (rc_trade_ts t))) ` set ?ts"
      using build_candles_props(2) [OF toy_pandas_ok, of ?ts] c by blast
    then have sym: "cn_symbol c = ''NVDA''" and g: "?g \<noteq> []" using ts by (auto simp: trades_of_def filter_empty_conv)
    obtain og where og: "mset og = mset ?g"
      "cn_open c = (if numbers (map rc_price og) = [] then NaN else hd (numbers (map rc_price og)))"
      "cn_close c = (if numbers (map rc_price og) = [] then NaN else last (numbers (map rc_price og)))"
      "cn_high c = (if numbers (map rc_price og) = [] then NaN else Max (set (numbers (map rc_price og))))"
      "cn_low c = (if numbers (map rc_price og) = [] then NaN else Min (set (numbers (map rc_price og))))"
      "cn_volume c = agg_sum toy_pandas (map volume_or_0 og)" "cn_trade_count c = length ?g"
      using build_candles_props(1) [OF toy_pandas_ok c] by (auto simp: summarises_def Let_def)
    have in_ts: "t \<in> set ?ts" if "t \<in> set og" for t
      using that mset_eq_setD [OF og(1)] by (auto simp: trades_of_def)
    have len_g: "length ?g \<le> 2" using len length_filter_le [of _ ?ts] unfolding trades_of_def by (meson order_trans)
    obtain n where n: "length og = Suc n" "Suc n \<le> 2" using mset_eq_length [OF og(1)] g len_g by (cases og) auto
    have "map rc_price og = replicate (Suc n) (Fin 10)" "map volume_or_0 og = map (\<lambda>k. Fin (of_nat k)) (replicate (Suc n) 1)"
      using n(1) ts in_ts by (auto simp: volume_or_0_def simp del: replicate.simps intro!: nth_equalityI)
    moreover have "agg_sum toy_pandas (map (\<lambda>k. Fin (of_nat k)) (replicate (Suc n) 1)) = Fin (of_nat (sum_list (replicate (Suc n) 1)))"
      by (rule agg_sum_exact [OF toy_pandas_ok]) (use n(2) in \<open>simp add: sum_list_replicate del: replicate.simps\<close>)
    ultimately show ?thesis using og n(2) len_g sym
      by (simp add: candle_error_def numbers_def numeric_error_def text_error_def del: replicate.simps)
  qed
  then have "first_error (map candle_error (build_candles toy_pandas ?ts)) = None" by (simp add: first_error_None_iff)
  then show ?thesis by (simp add: roll_up_def upsert_candles_def Let_def)
qed

lemma half_past_runs:
  obtains w db' where "run_once show toy_pandas ten_minutes half_past traded_db = (Inr w, db')"
    "rr_status (last (rollup_runs db')) = ''ok''"
    "length (in_window (window_start_of ten_minutes half_past) traded_db) \<le> nat (max_rows ten_minutes)"
proof -
  obtain k w db2 where r: "roll_up toy_pandas ten_minutes half_past (started ten_minutes half_past traded_db) = Inr ((k, w), db2)"
    using half_past_rolls_up by blast
  let ?e = "\<lparr> re_status = ''ok'', re_trades_read = k, re_minutes_written = w, re_error_message = None \<rparr>"
  have s: "start_run (start_stamp half_past) 90000000 (pass_now half_past) traded_db =
      Inr (next_run_id traded_db, started ten_minutes half_past traded_db)"
    by (simp add: start_run_def started_def run_row_of_def Let_def)
  have f: "finish_run (end_stamp half_past) n ?e db2 = Inr ((), finished half_past ?e n db2)" for n
    by (simp add: finish_run_def text_error_def finished_def)
  have "start_failure half_past = None" "write_failure half_past = None" "end_failure half_past = None"
    "time_in_range 90000000"
    by (simp_all add: half_past_def time_in_range_def)
  then have run: "run_once show toy_pandas ten_minutes half_past traded_db =
      (Inr w, finished half_past ?e (next_run_id traded_db) db2)"
    by (simp add: run_once_def Let_def transaction_def s r f)
  have "rollup_runs db2 = rollup_runs traded_db @ [run_row_of ten_minutes half_past traded_db]"
    using roll_up_frame [OF r] by auto
  then have "rr_status (last (rollup_runs (finished half_past ?e (next_run_id traded_db) db2))) = ''ok''"
    using finish_last_run [of traded_db] traded_db_ok
    by (simp add: finished_def pg_keys_ok_def finish_run_row_def)
  moreover have "length (in_window (window_start_of ten_minutes half_past) traded_db) \<le> nat (max_rows ten_minutes)"
    by (simp add: in_window_def traded_db_def nvda_trade_def ten_minutes_def)
  ultimately show ?thesis using run that by blast
qed

theorem run_once_closes_run_witness:
  "\<exists>w db' r. run_once (\<lambda>_. []) toy_pandas ten_minutes half_past traded_db = (Inr w, db') \<and>
     rollup_runs db' = [r] \<and> rr_finished_at r = Some 3"
proof -
  obtain w db' where r: "run_once (\<lambda>_. []) toy_pandas ten_minutes half_past traded_db = (Inr w, db')"
    by (rule half_past_runs)
  have "serial_ok rr_id (rollup_runs traded_db) (next_run_id traded_db)"
    using traded_db_ok by (simp add: pg_keys_ok_def)
  from run_once_closes_run [OF this r] r show ?thesis
    by (fastforce simp: traded_db_def empty_pg_def half_past_def)
qed

theorem rollup_full_minutes_witness:
  "\<exists>w db' c. run_once (\<lambda>_. []) toy_pandas ten_minutes half_past traded_db = (Inr w, db') \<and>
     candle_map db' (''NVDA'', 120000000) = Some c \<and> cn_trade_count c = 1"
proof -
  obtain w db' where r: "run_once (\<lambda>_. []) toy_pandas ten_minutes half_past traded_db = (Inr w, db')"
    "rr_status (last (rollup_runs db')) = ''ok''"
    "length (in_window (window_start_of ten_minutes half_past) traded_db) \<le> nat (max_rows ten_minutes)"
    by (rule half_past_runs)
  have g: "stored_trades ''NVDA'' 120000000 traded_db = [recent_of (nvda_trade 3 130000000)]"
    by (simp add: trades_of_def traded_db_def nvda_trade_def recent_of_def minute_of_def)
  have "window_start_of ten_minutes half_past \<le> 120000000" by simp
  from rollup_full_minutes [OF toy_pandas_ok traded_db_ok r this, of "''NVDA''"] g obtain c where
    c: "candle_map db' (''NVDA'', 120000000) = Some c" "summarises toy_pandas (stored_trades ''NVDA'' 120000000 traded_db) c"
    by auto
  from c(2) have "cn_trade_count c = 1" unfolding g by (auto simp: summarises_def Let_def)
  with r(1) c(1) show ?thesis by blast
qed

theorem rollup_cuts_oldest_minute_witness:
  "\<exists>w db' c. run_once (\<lambda>_. []) toy_pandas ten_minutes half_past traded_db = (Inr w, db') \<and>
     candle_map db' (''NVDA'', 60000000) = Some c \<and> cn_trade_count c < 2"
proof -
  obtain w db' where r: "run_once (\<lambda>_. []) toy_pandas ten_minutes half_past traded_db = (Inr w, db')"
    "rr_status (last (rollup_runs db')) = ''ok''"
    "length (in_window (window_start_of ten_minutes half_past) traded_db) \<le> nat (max_rows ten_minutes)"
    by (rule half_past_runs)
  have g: "stored_trades ''NVDA'' 60000000 traded_db = [recent_of (nvda_trade 1 70000000), recent_of (nvda_trade 2 100000000)]"
    by (simp add: trades_of_def traded_db_def nvda_trade_def recent_of_def minute_of_def)
  have t: "recent_of (nvda_trade 1 70000000) \<in> set (stored_trades ''NVDA'' 60000000 traded_db)"
    "rc_trade_ts (recent_of (nvda_trade 1 70000000)) < window_start_of ten_minutes half_past"
    "recent_of (nvda_trade 2 100000000) \<in> set (stored_trades ''NVDA'' 60000000 traded_db)"
    "window_start_of ten_minutes half_past \<le> rc_trade_ts (recent_of (nvda_trade 2 100000000))"
    unfolding g by (simp_all add: recent_of_def nvda_trade_def)
  have "length (stored_trades ''NVDA'' 60000000 traded_db) = 2" unfolding g by simp
  with rollup_cuts_oldest_minute [OF toy_pandas_ok traded_db_ok r t, of "[]"] r(1) show ?thesis by auto
qed

end
