(* ===== verification/Services.thy ===== *)
theory Services
  imports StreamMain ApiAlerts RollupMain
begin

text \<open>
  The services together. They share the tables and nothing else, so a step of the system is a step
  of one of the stream's threads, a request or a startup of the API, a pass of the rollup, or a
  restart of the stream (its reconnect loop after a session, or its container at any moment), on
  the database as it is then. A request and a pass are one step each: their statements touch no
  table of another service, and a pass reads the trades of its window in one statement.
\<close>

section \<open>The steps of the other services\<close>

inductive service_step :: "Tables.pg \<Rightarrow> Tables.pg \<Rightarrow> bool" where
  register: "service_step db (snd (register P B seed stamp failure em pw db))"
| startup: "service_step db (snd (lifespan B seed stamp e connect failure db))"
| add: "service_step db (snd (add_alert P J config now failure header req db))"
| remove: "service_step db (snd (remove_alert J config now failure header n db))"
| pass: "pandas_ok D \<Longrightarrow> service_step db (snd (run_once show D rcfg p db))"

text \<open>The state: the number of the stream's current session and the stream with what it shares.\<close>

inductive session_step :: "stream_config \<Rightarrow> nat \<times> sys \<Rightarrow> nat \<times> sys \<Rightarrow> bool"
  for cfg :: stream_config where
  thread: "thread_step cfg sid s s' \<Longrightarrow> session_step cfg (sid, s) (sid, s')"
| service: "service_step (pg s) db \<Longrightarrow> session_step cfg (sid, s) (sid, s\<lparr> pg := db \<rparr>)"

inductive system_step :: "stream_config \<Rightarrow> nat \<times> sys \<Rightarrow> nat \<times> sys \<Rightarrow> bool"
  for cfg :: stream_config where
  session: "session_step cfg w w' \<Longrightarrow> system_step cfg w w'"
| restart: "run_start failure now cfg reconnects (pg s) (redis s) = Inr (sid', s') \<Longrightarrow>
    system_step cfg (sid, s) (sid', s')"

inductive_cases session_stepE: "session_step cfg (sid, s) w"

section \<open>What a step may do to the tables\<close>

text \<open>A relation between an earlier and a later database that holds of every step holds of every
  run.\<close>

locale evolution =
  fixes evolves :: "'s \<Rightarrow> 's \<Rightarrow> bool"
  assumes refl: "evolves s s" and trans: "evolves r s \<Longrightarrow> evolves s t \<Longrightarrow> evolves r t"
begin

lemma run: "rtranclp step w w' \<Longrightarrow> (\<And>a b. step a b \<Longrightarrow> evolves (f a) (f b)) \<Longrightarrow> evolves (f w) (f w')"
  by (induction rule: rtranclp_induct) (auto intro: refl trans)

end

text \<open>The keys are kept; trades are only ever appended; an alert is new, or one of before: the same
  rule, and the same row once it has triggered. (An id is drawn once, so a new alert has an id no
  earlier alert had.)\<close>

definition later_alert :: "alert_row \<Rightarrow> alert_row \<Rightarrow> bool" where
  "later_alert a a' \<longleftrightarrow> (if al_triggered_at a = None
     then a' = a\<lparr> al_triggered_at := al_triggered_at a', al_triggered_price := al_triggered_price a' \<rparr>
     else a' = a)"

definition evolved :: "Tables.pg \<Rightarrow> Tables.pg \<Rightarrow> bool" where
  "evolved db db' \<longleftrightarrow> (pg_keys_ok db \<longrightarrow> pg_keys_ok db' \<and>
     (\<exists>rows. raw_trades db' = raw_trades db @ rows) \<and> next_alert_id db \<le> next_alert_id db' \<and>
     (\<forall>a' \<in> set (price_alerts db'). next_alert_id db \<le> al_id a' \<or>
        (\<exists>a \<in> set (price_alerts db). later_alert a a')))"

lemma later_alert_refl [simp]: "later_alert a a"
  by (simp add: later_alert_def)

lemma later_alert_id: "later_alert a a' \<Longrightarrow> al_id a' = al_id a"
  by (cases a; cases a') (auto simp: later_alert_def split: if_splits)

lemma later_alert_trans: "later_alert a b \<Longrightarrow> later_alert b c \<Longrightarrow> later_alert a c"
  by (cases a; cases b; cases c) (auto simp: later_alert_def split: if_splits)

lemma later_alert_marked: "later_alert a (marked fs a)"
  by (cases a) (auto simp: later_alert_def marked_def trigger_row_def split: option.splits)

lemma evolvedD:
  assumes "evolved db db'" "pg_keys_ok db"
  shows "pg_keys_ok db'" "\<exists>rows. raw_trades db' = raw_trades db @ rows" "next_alert_id db \<le> next_alert_id db'"
    "a' \<in> set (price_alerts db') \<Longrightarrow> next_alert_id db \<le> al_id a' \<or> (\<exists>a \<in> set (price_alerts db). later_alert a a')"
  using assms by (auto simp: evolved_def)

interpretation history: evolution evolved
proof
  show "evolved db db" for db by (force simp: evolved_def)
  fix r s t assume rs: "evolved r s" and st: "evolved s t"
  show "evolved r t" unfolding evolved_def
  proof (intro impI conjI ballI)
    assume keys: "pg_keys_ok r"
    note r = evolvedD [OF rs keys]
    note s = evolvedD [OF st r(1)]
    show "pg_keys_ok t" by (rule s(1))
    show "\<exists>rows. raw_trades t = raw_trades r @ rows" using r(2) s(2) by auto
    show "next_alert_id r \<le> next_alert_id t" using r(3) s(3) by simp
    show "next_alert_id r \<le> al_id a \<or> (\<exists>b \<in> set (price_alerts r). later_alert b a)"
      if a: "a \<in> set (price_alerts t)" for a
    proof (cases "next_alert_id s \<le> al_id a")
      case True
      with r(3) show ?thesis by simp
    next
      case False
      with s(4) [OF a] obtain b where "b \<in> set (price_alerts s)" "later_alert b a" by blast
      with r(4) [of b] later_alert_id [of b a] later_alert_trans show ?thesis by metis
    qed
  qed
qed

section \<open>Every step evolves the database\<close>

text \<open>What a service may do that is not the stream: evolve the tables, keep out of the stream's two and
  trigger no alert.\<close>

definition service_ok :: "Tables.pg \<Rightarrow> Tables.pg \<Rightarrow> bool" where
  "service_ok db db' \<longleftrightarrow> evolved db db' \<and> other_service db db' \<and>
     (pg_keys_ok db \<longrightarrow> (\<forall>a \<in> set (price_alerts db'). al_triggered_at a \<noteq> None \<longrightarrow> a \<in> set (price_alerts db)))"

lemma service_ok_refl [simp]: "service_ok db db"
  by (simp add: service_ok_def history.refl other_service_def)

lemma service_okI:
  assumes "raw_trades db' = raw_trades db" "next_trade_id db' = next_trade_id db"
    "stream_sessions db' = stream_sessions db" "next_session_id db' = next_session_id db"
    "pg_keys_ok db \<Longrightarrow> pg_keys_ok db'" "pg_keys_ok db \<Longrightarrow> next_alert_id db \<le> next_alert_id db'"
    "\<And>a. pg_keys_ok db \<Longrightarrow> a \<in> set (price_alerts db') \<Longrightarrow> a \<in> set (price_alerts db) \<or>
      next_alert_id db \<le> al_id a \<and> al_triggered_at a = None"
  shows "service_ok db db'"
  using assms later_alert_refl by (fastforce simp: service_ok_def evolved_def other_service_def)

lemma insert_user_ok: "insert_user t e h q db = Inr (r, db') \<Longrightarrow> service_ok db db'"
  using keys_insert_user [of db t e h q r db']
  by (intro service_okI) (auto simp: insert_user_def Let_def split: option.splits if_splits)

lemma register_ok: "service_ok db (snd (register P B seed stamp failure em pw db))"
  using register_step [of P B seed stamp failure em pw db]
proof
  assume "\<exists>email p. snd (register P B seed stamp failure em pw db) = add_user email p db"
  then obtain email p where s: "snd (register P B seed stamp failure em pw db) = add_user email p db" by blast
  show ?thesis unfolding s by (rule add_user_induct) (simp_all add: insert_user_ok)
qed simp

lemma lifespan_ok: "service_ok db (snd (lifespan B seed stamp e connect failure db))"
  using lifespan_step [of B seed stamp e connect failure db] insert_user_ok by (metis service_ok_refl)

lemma add_alert_ok: "service_ok db (snd (add_alert P J config now failure header req db))"
proof -
  let ?db = "snd (add_alert P J config now failure header req db)"
  have "raw_trades ?db = raw_trades db \<and> next_trade_id ?db = next_trade_id db \<and>
      stream_sessions ?db = stream_sessions db \<and> next_session_id ?db = next_session_id db"
    by (auto simp: add_alert_def create_alert_def transaction_def insert_alert_def rbind_def Let_def
        split: sum.splits prod.splits option.splits list.splits if_splits)
  then show ?thesis
    using add_alert_step [of db P J config now failure header req]
    by (intro service_okI) (auto simp: keys_add)
qed

lemma remove_alert_ok: "service_ok db (snd (remove_alert J config now failure header n db))"
  using remove_alert_step [of J config now failure header n db] keys_remove [of db J config now failure header n]
  by (intro service_okI) auto

text \<open>A pass of the rollup changes no other table than its two.\<close>

definition rollup_ok :: "Tables.pg \<Rightarrow> Tables.pg \<Rightarrow> bool" where
  "rollup_ok db db' \<longleftrightarrow> raw_trades db' = raw_trades db \<and> next_trade_id db' = next_trade_id db \<and>
     stream_sessions db' = stream_sessions db \<and> next_session_id db' = next_session_id db \<and>
     price_alerts db' = price_alerts db \<and> next_alert_id db' = next_alert_id db \<and> (pg_keys_ok db \<longrightarrow> pg_keys_ok db')"

lemma rollup_ok_refl: "rollup_ok db db"
  by (simp add: rollup_ok_def)

lemma rollup_ok_trans: "rollup_ok r s \<Longrightarrow> rollup_ok s t \<Longrightarrow> rollup_ok r t"
  by (auto simp: rollup_ok_def)

lemma rollup_ok_started: "rollup_ok db (started config p db)"
  by (auto simp: rollup_ok_def started_def run_row_of_def pg_keys_ok_def)

lemma rollup_ok_finished: "rollup_ok db (finished p e n db)"
  by (auto simp: rollup_ok_def finished_def pg_keys_ok_def runs.serial)

lemma rollup_ok_roll_up:
  assumes "pandas_ok D" "roll_up D config p db = Inr ((k, w), db')"
  shows "rollup_ok db db'"
proof -
  obtain rows where r: "db' = db\<lparr> candles := rows \<rparr>"
    "distinct (map candle_key (candles db)) \<longrightarrow> distinct (map candle_key rows)"
    using assms(2) upsert_candles_Inr [OF _ build_candles_props(3) [OF assms(1)]]
    by (fastforce simp: roll_up_def rbind_eq_Inr Let_def)
  then have "pg_keys_ok db \<longrightarrow> pg_keys_ok db'" by (simp add: pg_keys_ok_def candle_key_def [abs_def])
  with r(1) show ?thesis
    by (simp add: rollup_ok_def)
qed

lemma rollup_ok_run_once:
  assumes "pandas_ok D"
  shows "rollup_ok db (snd (run_once shown D config p db))"
proof (cases "run_once shown D config p db")
  case (Pair answer db')
  note ok = rollup_ok_trans [OF rollup_ok_started] rollup_ok_started rollup_ok_finished
    rollup_ok_roll_up [OF assms] 
  show ?thesis
  proof (cases answer)
    case (Inl e)
    with run_once_Inl [of shown D config p db e db'] Pair ok rollup_ok_refl show ?thesis
      by (metis snd_conv)
  next
    case (Inr w)
    with run_once_Inr [of shown D config p db w db'] Pair ok rollup_ok_trans [OF _ rollup_ok_finished] show ?thesis
      by (metis snd_conv)
  qed
qed

lemma run_once_service: "pandas_ok D \<Longrightarrow> service_ok db (snd (run_once shown D config p db))"
  using rollup_ok_run_once [of D db shown config p]
  by (intro service_okI) (auto simp: rollup_ok_def)

lemma service_step_ok: "service_step db db' \<Longrightarrow> service_ok db db'"
  by (induction rule: service_step.induct)
    (simp_all add: register_ok lifespan_ok add_alert_ok remove_alert_ok run_once_service)

lemma service_step_frame: "service_step db db' \<Longrightarrow> evolved db db'" "service_step db db' \<Longrightarrow> other_service db db'"
  using service_step_ok by (auto simp: service_ok_def)


text \<open>The stream appends trades and marks alerts.\<close>

lemma evolved_append:
  assumes "raw_trades db' = raw_trades db @ rows" "price_alerts db' = map (marked fs) (price_alerts db)"
    "next_alert_id db' = next_alert_id db" "pg_keys_ok db \<Longrightarrow> pg_keys_ok db'"
  shows "evolved db db'"
  using assms later_alert_marked by (auto simp: evolved_def)

lemma insert_rows_alerts:
  assumes "insert_rows now ts db = Inr db'"
  shows "price_alerts db' = price_alerts db \<and> next_alert_id db' = next_alert_id db"
proof -
  obtain rows where "db' = db\<lparr> raw_trades := raw_trades db @ rows, next_trade_id := next_trade_id db + length ts \<rparr>"
    using insert_rows_stored [OF assms] by metis
  then show ?thesis by simp
qed

lemma write_batch_alerts:
  "price_alerts (snd (write_batch sid i s b seen)) = price_alerts (pg s) \<and>
   next_alert_id (snd (write_batch sid i s b seen)) = next_alert_id (pg s)"
  by (auto simp: write_batch_def transaction_def rbind_def insert_trades_def heartbeat_def
      split: option.splits sum.splits if_splits prod.splits dest!: insert_rows_alerts)

lemma write_batch_evolved: "evolved (pg s) (snd (write_batch sid i s b seen))"
proof (cases "write_batch sid i s b seen")
  case (Pair answer db')
  show ?thesis
  proof (cases answer)
    case (Inl e)
    with Pair write_batch_Inl [of sid i s b seen e db'] show ?thesis by (simp add: history.refl)
  next
    case (Inr u)
    with Pair obtain rows where "raw_trades db' = raw_trades (pg s) @ rows" "pg_keys_ok (pg s) \<Longrightarrow> pg_keys_ok db'"
      using write_batch_Inr [of sid i s b seen u db'] by metis
    with Pair write_batch_alerts [of sid i s b seen] show ?thesis
      by (intro evolved_append [of _ _ rows "[]"]) simp_all
  qed
qed

lemma finish_alerts:
  "price_alerts (snd (finish sid i s)) = price_alerts (pg s) \<and> next_alert_id (snd (finish sid i s)) = next_alert_id (pg s)"
  by (auto simp: finish_def transaction_def finish_session_def split: option.splits sum.splits)

lemma finish_evolved: "evolved (pg s) (snd (finish sid i s))"
  using finish_alerts finish_effect(1,2) [of sid i s "fst (finish sid i s)" "snd (finish sid i s)"]
  by (intro evolved_append [of _ _ "[]" "[]"]) simp_all

lemma check_alerts_evolved: "evolved db (snd (check_alerts f b db))"
proof -
  obtain fs where fs: "snd (check_alerts f b db) = db\<lparr> price_alerts := map (marked fs) (price_alerts db) \<rparr>"
    using check_alerts_marks by blast
  have "pg_keys_ok db \<Longrightarrow> pg_keys_ok (snd (check_alerts f b db))"
    using check_alerts_effect(3) [of f b db] by (metis prod.collapse)
  then show ?thesis by (intro evolved_append [of _ _ "[]" fs]) (simp_all add: fs)
qed

lemma thread_step_evolved: "thread_step cfg sid s s' \<Longrightarrow> evolved (pg s) (pg s')"
proof (induction rule: thread_step.cases)
  case (main s i)
  then show ?case
    by (auto simp: pg_main history.refl write_batch_evolved check_alerts_evolved finish_evolved split: stage.split)
qed (simp_all add: history.refl)

lemma run_start_evolved:
  assumes "run_start failure now cfg reconnects db r = Inr (sid, s)"
  shows "evolved db (pg s)"
proof -
  from assms have "pg s = db\<lparr> stream_sessions := stream_sessions db @
      [session_row_new now (next_session_id db) (symbols cfg) reconnects], next_session_id := Suc (next_session_id db) \<rparr>"
    by (auto simp: run_start_def initial_def transaction_def start_session_def split: option.splits prod.splits sum.splits)
  then show ?thesis
    by (intro evolved_append [of _ _ "[]" "[]"]) (auto simp: pg_keys_ok_def session_row_new_def)
qed

lemma session_step_evolved: "session_step cfg w w' \<Longrightarrow> evolved (pg (snd w)) (pg (snd w'))"
  by (induction rule: session_step.induct) (auto simp: thread_step_evolved service_step_frame)

lemma system_step_evolved: "system_step cfg w w' \<Longrightarrow> evolved (pg (snd w)) (pg (snd w'))"
  by (induction rule: system_step.induct) (auto simp: session_step_evolved run_start_evolved)

lemma session_step_stream: "session_step cfg (sid, s) (sid', s') \<Longrightarrow> sid' = sid \<and> stream_step cfg sid s s'"
  by (auto elim!: session_stepE intro: stream_step.intros service_step_frame)

section \<open>Which trades fire alerts\<close>

text \<open>The trades of the batch the main thread is working on.\<close>

definition held :: "stage \<Rightarrow> trade list" where
  "held st = (case st of Loading b \<Rightarrow> b | Polling b d \<Rightarrow> b | Reading b d \<Rightarrow> b | Writing b d n \<Rightarrow> b
     | Saving b d \<Rightarrow> b | Alerting b \<Rightarrow> b | _ \<Rightarrow> [])"

definition alarms_ok :: "alert_row set \<Rightarrow> sys \<Rightarrow> bool" where
  "alarms_ok old s \<longleftrightarrow> pg_keys_ok (pg s) \<and> set (held (stage s)) \<union> set (queue s) \<subseteq> set (received s) \<and>
     (\<forall>a \<in> set (price_alerts (pg s)). al_triggered_at a \<noteq> None \<longrightarrow> a \<in> old \<or> (\<exists>t \<in> set (received s). fired_at t a))"

lemma held_main:
  "set (held (stage (main_step cfg sid i s))) \<union> set (queue (main_step cfg sid i s)) \<subseteq> set (held (stage s)) \<union> set (queue s)"
proof (cases "stage s")
  case Draining
  then show ?thesis by (auto simp: main_step_def held_def drain_eq dest: in_set_takeD in_set_dropD)
next
  case (Writing b d n)
  then show ?thesis by (auto simp: main_step_def held_def case_prod_beta split: sum.split)
next
  case (Saving b d)
  then show ?thesis by (auto simp: main_step_def held_def case_prod_beta split: option.split)
next
  case Leaving
  then show ?thesis by (auto simp: main_step_def held_def case_prod_beta split: sum.split)
qed (auto simp: main_step_def held_def)

lemma alerts_main:
  "price_alerts (pg (main_step cfg sid i s)) = (case stage s of
     Alerting b \<Rightarrow> price_alerts (snd (check_alerts (in_pg i) b (pg s))) | _ \<Rightarrow> price_alerts (pg s))"
  using write_batch_alerts finish_alerts by (auto simp: pg_main split: stage.split)

lemma alarms_okD:
  assumes "alarms_ok old s"
  shows "pg_keys_ok (pg s)" "set (held (stage s)) \<union> set (queue s) \<subseteq> set (received s)"
    "a \<in> set (price_alerts (pg s)) \<Longrightarrow> al_triggered_at a \<noteq> None \<Longrightarrow> a \<in> old \<or> (\<exists>t \<in> set (received s). fired_at t a)"
  using assms by (auto simp: alarms_ok_def)

lemma alarms_ok_main:
  assumes ok: "alarms_ok old s"
  shows "alarms_ok old (main_step cfg sid i s)"
proof -
  note s = alarms_okD [OF ok]
  let ?s = "main_step cfg sid i s"
  have "pg_keys_ok (pg ?s)"
    using evolvedD(1) [OF thread_step_evolved [OF thread_step.main] s(1)] .
  moreover have "set (held (stage ?s)) \<union> set (queue ?s) \<subseteq> set (received s)"
    using held_main s(2) by blast
  moreover have "a \<in> old \<or> (\<exists>t \<in> set (received s). fired_at t a)"
    if a: "a \<in> set (price_alerts (pg ?s))" "al_triggered_at a \<noteq> None" for a
  proof (cases "a \<in> set (price_alerts (pg s))")
    case True
    then show ?thesis using s(3) a(2) by blast
  next
    case False
    with a(1) obtain b where b: "stage s = Alerting b" "a \<in> set (price_alerts (snd (check_alerts (in_pg i) b (pg s))))"
      by (auto simp: alerts_main split: stage.splits)
    with check_alerts_sound [OF s(1) b(2) a(2)] False obtain t where "t \<in> set b" "fired_at t a" by blast
    with s(2) b(1) show ?thesis by (auto simp: held_def)
  qed
  ultimately show ?thesis by (auto simp: alarms_ok_def)
qed

lemma alarms_ok_step:
  assumes "session_step cfg (sid, s) w" "alarms_ok old s"
  shows "fst w = sid \<and> alarms_ok old (snd w)"
  using assms(1)
proof cases
  case (thread s')
  have "alarms_ok old s'" using thread(2)
  proof cases
    case (main i)
    with assms(2) show ?thesis by (simp add: alarms_ok_main)
  qed (use assms(2) in \<open>auto simp: alarms_ok_def queue_put_def\<close>)
  with thread(1) show ?thesis by simp
next
  case (service db)
  note s = alarms_okD [OF assms(2)]
  have "pg_keys_ok db" "a \<in> set (price_alerts db) \<Longrightarrow> al_triggered_at a \<noteq> None \<Longrightarrow> a \<in> set (price_alerts (pg s))" for a
    using service_step_ok [OF service(2)] s(1) by (auto simp: service_ok_def evolved_def)
  with s show ?thesis unfolding service(1) by (auto simp: alarms_ok_def)
qed

lemma alarms_ok_run:
  "rtranclp (session_step cfg) (sid, s0) w \<Longrightarrow> alarms_ok old s0 \<Longrightarrow> fst w = sid \<and> alarms_ok old (snd w)"
proof (induction rule: rtranclp_induct)
  case (step w w')
  then show ?case using alarms_ok_step [of cfg "fst w" "snd w" w' old] by (cases w) simp
qed simp

lemma alarms_ok_start:
  assumes "pg_keys_ok db" "run_start f now cfg n db r = Inr (sid, s0)"
  shows "alarms_ok (set (price_alerts db)) s0"
proof -
  have "pg s0 = db\<lparr> stream_sessions := stream_sessions db @
      [session_row_new now (next_session_id db) (symbols cfg) n], next_session_id := Suc (next_session_id db) \<rparr>"
    "queue s0 = []" "stage s0 = Draining"
    using assms(2) by (auto simp: run_start_def initial_def transaction_def start_session_def
        split: option.splits prod.splits sum.splits)
  moreover have "pg_keys_ok (pg s0)"
    using evolvedD(1) [OF run_start_evolved [OF assms(2)] assms(1)] .
  ultimately show ?thesis by (simp add: alarms_ok_def held_def)
qed

section \<open>A run\<close>

text \<open>A session in which the database fails for the first flush and then fires the alert.\<close>

definition outage :: inputs where
  "outage = quiet_inputs\<lparr> in_pg := Some OSError \<rparr>"

definition arrived :: "trade \<Rightarrow> sys \<Rightarrow> sys" where
  "arrived t s = s\<lparr> queue := queue_put t (queue s), pending := Some ([], 1), received := received s @ [t] \<rparr>"

lemma outage_flush:
  assumes "stage s = Draining" "queue s = [t]" "0 < flush_max_rows cfg"
  shows "stage (main_steps cfg sid (replicate 5 outage) s) = Alerting [t] \<and>
    pg (main_steps cfg sid (replicate 5 outage) s) = pg s"
  using assms by (simp add: numeral_eq_Suc main_step_def drain_eq outage_def write_batch_def transaction_def)

lemma watched_alert_fires:
  "price_alerts db = [nvda_alert] \<Longrightarrow> price_alerts (snd (check_alerts None [sample 20 (Fin 131)] db)) =
     [nvda_alert\<lparr> al_triggered_at := Some 20, al_triggered_price := Some (Fin 131) \<rparr>]"
  by (simp add: check_alerts_def transaction_def find_triggered_def read_pending_alerts_def nvda_alert_def
      pending_of_def crossed_def sample_def ABOVE_def fired_by_def mark_triggered_def mark_one_def
      trigger_row_def update_where_def numeric_error_def)

lemma session_main_steps: "rtranclp (session_step cfg) (sid, s) (sid, main_steps cfg sid is s)"
proof (induction "is" arbitrary: s)
  case (Cons i "is")
  have "session_step cfg (sid, s) (sid, main_step cfg sid i s)"
    by (intro session_step.thread thread_step.main)
  with Cons show ?case by (auto intro: converse_rtranclp_into_rtranclp)
qed simp

lemma session_arrived: "pending s = None \<Longrightarrow> rtranclp (session_step cfg) (sid, s) (sid, arrived t s)"
proof -
  assume p: "pending s = None"
  let ?s = "s\<lparr> pending := Some ([t], 1) \<rparr>"
  have "session_step cfg (sid, s) (sid, ?s)"
    using thread_step.message [OF p, of cfg sid "[t]"] by (intro session_step.thread) simp
  moreover have "session_step cfg (sid, ?s) (sid, arrived t s)"
    using thread_step.put [of ?s t "[]" 1 cfg sid] by (intro session_step.thread) (simp add: arrived_def)
  ultimately show ?thesis by (rule converse_rtranclp_into_rtranclp [OF _ r_into_rtranclp])
qed

definition watch :: "sys \<Rightarrow> sys" where
  "watch s = main_step demo_cfg 1 quiet_inputs
     (main_steps demo_cfg 1 (replicate 5 outage) (arrived (sample 20 (Fin 131)) s))"

lemma watch_run:
  obtains s0 where "run_start None 0 demo_cfg 0 alert_db (\<lambda>k. []) = Inr (1, s0)"
    "rtranclp (session_step demo_cfg) (1, s0) (1, watch s0)"
    "price_alerts (pg s0) = [nvda_alert]" "pg_keys_ok (pg s0)"
    "price_alerts (pg (watch s0)) = [nvda_alert\<lparr> al_triggered_at := Some 20, al_triggered_price := Some (Fin 131) \<rparr>]"
proof -
  obtain s0 where s0: "run_start None 0 demo_cfg 0 alert_db (\<lambda>k. []) = Inr (1, s0)" "pending s0 = None"
    "queue s0 = []" "stage s0 = Draining" "price_alerts (pg s0) = [nvda_alert]"
    by (simp add: run_start_def transaction_def start_session_def text_error_def demo_cfg_def alert_db_def empty_pg_def initial_def)
  let ?s = "arrived (sample 20 (Fin 131)) s0"
  have "stage ?s = Draining" "queue ?s = [sample 20 (Fin 131)]" "pg ?s = pg s0" "0 < flush_max_rows demo_cfg"
    using s0 by (simp_all add: arrived_def queue_put_def demo_cfg_def)
  with outage_flush [of ?s "sample 20 (Fin 131)" demo_cfg 1] watched_alert_fires [of "pg s0"] s0(5)
  have "price_alerts (pg (watch s0)) = [nvda_alert\<lparr> al_triggered_at := Some 20, al_triggered_price := Some (Fin 131) \<rparr>]"
    by (simp add: watch_def pg_main quiet_inputs_def)
  moreover have "rtranclp (session_step demo_cfg) (1, s0) (1, watch s0)"
    unfolding watch_def using session_arrived [OF s0(2), of demo_cfg 1 "sample 20 (Fin 131)"]
      session_main_steps [of demo_cfg 1 ?s "replicate 5 outage"]
    by (meson rtranclp_trans rtranclp.rtrancl_into_rtrancl session_step.thread thread_step.main)
  ultimately show thesis using that s0(1,5) evolvedD(1) [OF run_start_evolved [OF s0(1)] alert_db_ok] by blast
qed

section \<open>Properties\<close>

text \<open>
  C2: Whatever the services do and in whatever order: when an alert fires it names a trade the stream
  received in this session. Along any run of a session, with registrations, new and deleted alerts and
  passes of the rollup between any two steps of the stream, every alert of the table that has
  triggered had done so before the session, or there is a received trade of its symbol that
  crosses its threshold, and the row holds that trade's time and price.
\<close>

theorem alerts_name_received_trades:
  assumes "pg_keys_ok db0" "run_start f now cfg n db0 r = Inr (sid, s0)" "rtranclp (session_step cfg) (sid, s0) (sid', s)"
  shows "sid' = sid \<and> (\<forall>a \<in> set (price_alerts (pg s)). al_triggered_at a = None \<or> a \<in> set (price_alerts db0) \<or>
    (\<exists>t \<in> set (received s). crosses (pending_of a) t \<and> al_triggered_at a = Some (trade_ts t) \<and>
       al_triggered_price a = Some (price t)))"
  using alarms_ok_run [OF assms(3) alarms_ok_start [OF assms(1,2)]]
  by (auto simp: alarms_ok_def fired_at_def)

theorem alerts_name_received_trades_witness:
  "\<exists>s :: sys. price_alerts (pg s) \<noteq> [] \<and> (\<forall>a \<in> set (price_alerts (pg s)). \<exists>t \<in> set (received s).
     crosses (pending_of a) t \<and> al_triggered_at a = Some (trade_ts t))"
proof -
  obtain s0 where s0: "run_start None 0 demo_cfg 0 alert_db (\<lambda>k. []) = Inr (1, s0)"
    "rtranclp (session_step demo_cfg) (1, s0) (1, watch s0)"
    "price_alerts (pg (watch s0)) = [nvda_alert\<lparr> al_triggered_at := Some 20, al_triggered_price := Some (Fin 131) \<rparr>]"
    using watch_run by metis
  have "nvda_alert \<noteq> nvda_alert\<lparr> al_triggered_at := Some 20, al_triggered_price := Some (Fin 131) \<rparr>"
    by (simp add: nvda_alert_def)
  with alerts_name_received_trades [OF alert_db_ok s0(1,2)] show ?thesis
    by (intro exI [of _ "watch s0"]) (auto simp: s0(3) alert_db_def)
qed

text \<open>
  C3: Nothing that has happened is undone. Between any two moments of the system, restarts of the
  stream included, trades are only appended to the table; every alert that is still there is the
  same rule of the same account, and once it has triggered its row never changes again: an alert
  fires at most once, and its id is never given to another.
\<close>

theorem alerts_fire_once:
  assumes "pg_keys_ok (pg (snd w))" "rtranclp (system_step cfg) w w'"
  shows "pg_keys_ok (pg (snd w')) \<and> (\<exists>rows. raw_trades (pg (snd w')) = raw_trades (pg (snd w)) @ rows) \<and>
    (\<forall>a \<in> set (price_alerts (pg (snd w))). \<forall>a' \<in> set (price_alerts (pg (snd w'))).
       al_id a' = al_id a \<longrightarrow> later_alert a a')"
proof -
  have "evolved (pg (snd w)) (pg (snd w'))"
    using assms(2) by (rule history.run) (rule system_step_evolved)
  note e = evolvedD [OF this assms(1)]
  have "later_alert a a'" if a: "a \<in> set (price_alerts (pg (snd w)))" "a' \<in> set (price_alerts (pg (snd w')))" "al_id a' = al_id a" for a a'
  proof -
    have "al_id a < next_alert_id (pg (snd w))" using assms(1) a(1) by (auto simp: pg_keys_ok_def serial_ok_def)
    with e(4) [OF a(2)] a(3) obtain b where b: "b \<in> set (price_alerts (pg (snd w)))" "later_alert b a'" by auto
    then have "al_id b = al_id a" using later_alert_id a(3) by metis
    with assms(1) a(1) b(1) have "b = a" by (auto simp: pg_keys_ok_def serial_ok_def distinct_map inj_on_def)
    with b(2) show ?thesis by simp
  qed
  with e(1,2) show ?thesis by blast
qed

theorem alerts_fire_once_witness:
  "\<exists>s0. price_alerts (pg s0) = [nvda_alert] \<and>
     (\<forall>a' \<in> set (price_alerts (pg (watch s0))). later_alert nvda_alert a')"
proof -
  obtain s0 where s0: "rtranclp (session_step demo_cfg) (1, s0) (1, watch s0)"
    "price_alerts (pg s0) = [nvda_alert]" "pg_keys_ok (pg s0)"
    "price_alerts (pg (watch s0)) = [nvda_alert\<lparr> al_triggered_at := Some 20, al_triggered_price := Some (Fin 131) \<rparr>]"
    using watch_run by metis
  have "rtranclp (system_step demo_cfg) (1, s0) (1, watch s0)"
    using s0(1) by (rule mono_rtranclp [rule_format, rotated]) (rule system_step.session)
  from alerts_fire_once [OF _ this] s0(2-4) show ?thesis
    by (intro exI [of _ s0]) simp
qed

text \<open>
  C4: What the stream assumes of the rest of the system holds. Every run of the whole system within a
  session, with the API and the rollup as they are modelled, is a run of the stream's own model,
  in which other services are only known to keep the keys and to leave the stream's two tables
  alone; so every property of the stream's runs holds of the system's.
\<close>

theorem session_refines_stream:
  "rtranclp (session_step cfg) (sid, s0) (sid', s) \<Longrightarrow> sid' = sid \<and> reached cfg sid s0 s"
proof (induction "(sid', s)" arbitrary: sid' s rule: rtranclp_induct)
  case base
  show ?case by (simp add: reached.start)
next
  case (step w)
  then obtain t where "w = (sid, t)" "reached cfg sid s0 t" by (cases w) blast
  with step(2) session_step_stream [of cfg sid t sid' s] show ?case by (auto intro: reached.step)
qed

theorem session_refines_stream_witness:
  "\<exists>s0. run_start None 0 demo_cfg 0 alert_db (\<lambda>k. []) = Inr (1, s0) \<and> reached demo_cfg 1 s0 (watch s0)"
proof -
  obtain s0 where s0: "run_start None 0 demo_cfg 0 alert_db (\<lambda>k. []) = Inr (1, s0)"
    "rtranclp (session_step demo_cfg) (1, s0) (1, watch s0)" using watch_run by metis
  with session_refines_stream [OF s0(2)] show ?thesis by blast
qed

end
