(* ===== verification/StreamSocket.thy ===== *)
theory StreamSocket
  imports StreamMain
begin

text \<open>
  The socket thread as the library drives it (stream/socket_client.py): \<open>run_forever\<close> hands the
  callbacks of a \<open>FinnhubSocket\<close> to the websocket library, which calls one per event of the
  connection. When a callback raises, the library calls \<open>on_error\<close> with the exception and reads on
  (\<open>WebSocketApp._callback\<close>, documented behaviour of websocket-client). A connection is the list of its
  events, and the theorem says that handling them is a run of the socket thread of \<open>StreamMain\<close>.
  Symbols are JSON values to the client and strings to the stream's model, so the theorem is
  about messages whose symbols are strings, as Finnhub's are.
\<close>

record finnhub_socket =
  socket_endpoint :: string
  socket_symbols :: "string list"

text \<open>\<open>Opened (Some (n, x))\<close>: the library's \<open>send\<close> raises \<open>x\<close> after \<open>n\<close> subscriptions.\<close>

datatype ws_event =
    Opened "(nat \<times> exn) option"
  | Arrived "json result"
  | Failed string string
  | Closed "int option"

text \<open>What a callback does: the messages it sends, the queue after it, and the event it reports or the
  exception it raises. \<open>parse_message\<close> builds the whole tuple before the first trade is put.\<close>

definition dispatch :: "(json \<Rightarrow> string) \<Rightarrow> finnhub_socket \<Rightarrow> ws_event \<Rightarrow> json gtrade list \<Rightarrow>
    json list \<times> json gtrade list \<times> (json \<times> detail) result" where
  "dispatch str_of sock ev q = (case ev of
       Opened failure \<Rightarrow> (case on_open (socket_symbols sock) of (sent, report) \<Rightarrow>
         (case failure of None \<Rightarrow> (sent, q, Inr report) | Some (n, x) \<Rightarrow> (take n sent, q, Inl x)))
     | Arrived loaded \<Rightarrow> (case on_message str_of loaded q of
         Inr (q', report) \<Rightarrow> ([], q', Inr report) | Inl x \<Rightarrow> ([], q, Inl x))
     | Failed type_name err \<Rightarrow> ([], q, Inr (on_error type_name err))
     | Closed code \<Rightarrow> ([], q, Inr (on_close code)))"

text \<open>\<open>on_event\<close> is \<open>SocketEvents.record\<close>: \<open>run_once\<close> passes it to the client. It raises for a trade
  event whose detail is a string only, and no callback reports one (\<open>report_recorded\<close>).\<close>

definition on_event :: "int \<Rightarrow> json \<times> detail \<Rightarrow> events \<Rightarrow> events" where
  "on_event now report e = (case report of (ty, d) \<Rightarrow>
     (case record_event now ty d e of Inr e' \<Rightarrow> e' | Inl x \<Rightarrow> e))"

text \<open>An event comes with the clock when its callback reports, and the clock when \<open>on_error\<close> does
  should it raise; \<open>describe\<close> gives the class name and the text of an exception.\<close>

fun handle_events :: "(json \<Rightarrow> string) \<Rightarrow> (exn \<Rightarrow> string \<times> string) \<Rightarrow> finnhub_socket \<Rightarrow>
    (int \<times> int \<times> ws_event) list \<Rightarrow> json gtrade list \<times> events \<Rightarrow> json list \<times> json gtrade list \<times> events" where
  "handle_events str_of describe sock [] (q, e) = ([], q, e)"
| "handle_events str_of describe sock ((now, later, ev) # es) (q, e) =
     (case dispatch str_of sock ev q of (sent, q', outcome) \<Rightarrow>
       let e' = (case outcome of
             Inr report \<Rightarrow> on_event now report e
           | Inl x \<Rightarrow> on_event later (on_error (fst (describe x)) (snd (describe x))) e) in
       (case handle_events str_of describe sock es (q', e') of (sent', q'', e'') \<Rightarrow> (sent @ sent', q'', e'')))"

section \<open>Handling events is a run of the socket thread\<close>

definition json_trade :: "trade \<Rightarrow> json gtrade" where
  "json_trade t = \<lparr> symbol = JStr (symbol t), trade_ts = trade_ts t, price = price t,
     volume = volume t, conditions = conditions t \<rparr>"

definition string_symbol :: "json gtrade \<Rightarrow> bool" where
  "string_symbol t = (case symbol t of JStr s \<Rightarrow> True | _ \<Rightarrow> False)"

lemma string_symbol_json: "string_symbol t \<Longrightarrow> \<exists>u. t = json_trade u"
proof -
  assume "string_symbol t"
  then obtain s where "symbol t = JStr s" by (auto simp: string_symbol_def split: json.splits)
  then have "t = json_trade \<lparr> symbol = s, trade_ts = trade_ts t, price = price t, volume = volume t,
      conditions = conditions t \<rparr>" by (simp add: json_trade_def)
  then show ?thesis by blast
qed

lemma string_symbols_json: "list_all string_symbol ts \<Longrightarrow> \<exists>us. ts = map json_trade us"
proof (induction ts)
  case (Cons t ts)
  then obtain us where us: "ts = map json_trade us" by auto
  from Cons.prems obtain u where "t = json_trade u" using string_symbol_json by auto
  with us have "t # ts = map json_trade (u # us)" by simp
  then show ?case by (rule exI)
qed simp

text \<open>A callback appends trades to the queue and reports their number, or leaves the queue alone.\<close>

lemma parse_message_type:
  assumes "parse_message str_of loaded = Inr (ty, ts)" "ty \<noteq> JStr TRADE"
  shows "ts = []"
  using assms by (auto simp: parse_message_def Let_def rbind_eq_Inr split: sum.splits if_splits json.splits)

lemma on_message_Inr:
  assumes "on_message str_of loaded q = Inr (q', (ty, d))"
  obtains ts where "q' = q @ ts" "d = DInt (int (length ts))" "ty \<noteq> JStr TRADE \<Longrightarrow> ts = []"
proof -
  have app: "foldl (\<lambda>q t. q @ [t]) q ts = q @ ts" for ts :: "json gtrade list"
    by (induction ts arbitrary: q) auto
  from assms obtain ts where "parse_message str_of loaded = Inr (ty, ts)" "q' = q @ ts" "d = DInt (int (length ts))"
    by (auto simp: on_message_def rbind_eq_Inr app)
  with parse_message_type show thesis by (intro that)
qed

lemma dispatch_effect:
  assumes "dispatch str_of sock ev q = (sent, q', outcome)"
  obtains ts where "q' = q @ ts" "\<And>x. outcome = Inl x \<Longrightarrow> ts = []"
    "\<And>d. outcome = Inr (JStr TRADE, d) \<Longrightarrow> d = DInt (int (length ts))"
    "\<And>ty d. outcome = Inr (ty, d) \<Longrightarrow> ty \<noteq> JStr TRADE \<Longrightarrow> ts = []"
proof (cases ev)
  case (Arrived loaded)
  show thesis
  proof (cases "on_message str_of loaded q")
    case (Inl x)
    with Arrived assms show thesis by (intro that [of "[]"]) (auto simp: dispatch_def)
  next
    case (Inr p)
    obtain p1 ty d where p: "p = (p1, (ty, d))" by (cases p) auto
    with Inr Arrived assms have "q' = p1" "outcome = Inr (ty, d)" by (simp_all add: dispatch_def)
    with on_message_Inr [of str_of loaded q p1 ty d] Inr p that show thesis by auto
  qed
next
  case (Opened failure)
  with assms that [of "[]"] show thesis by (cases failure) (auto simp: dispatch_def on_open_def TRADE_def)
qed (use assms that [of "[]"] in \<open>auto simp: dispatch_def on_error_def on_close_def TRADE_def\<close>)

lemma record_not_trade: "ty \<noteq> JStr TRADE \<Longrightarrow> \<exists>e'. record_event now ty d e = Inr e'"
  by (simp add: record_event_def Let_def)

lemma record_count: "\<exists>e'. record_event now ty (DInt n) e = Inr e'"
  by (simp add: record_event_def Let_def)

lemma report_recorded:
  assumes "dispatch str_of sock ev q = (sent, q', Inr (ty, d))"
  shows "record_event now ty d e = Inr (on_event now (ty, d) e)"
proof -
  have "\<exists>e'. record_event now ty d e = Inr e'"
  proof (cases "ty = JStr TRADE")
    case True
    with dispatch_effect [OF assms] record_count show ?thesis by metis
  qed (rule record_not_trade)
  then show ?thesis by (auto simp: on_event_def)
qed

lemma failed_recorded: "record_event now (JStr ''failed'') d e = Inr (on_event now (JStr ''failed'', d) e)"
  using record_not_trade [of "JStr ''failed''" now d e] by (auto simp: on_event_def TRADE_def)

text \<open>The puts of one message.\<close>

lemma put_run:
  "pending s = Some (ts, n) \<Longrightarrow> rtranclp (thread_step cfg sid) s
     (s\<lparr> queue := queue s @ ts, pending := Some ([], n), received := received s @ ts \<rparr>)"
proof (induction ts arbitrary: s)
  case (Cons t ts)
  let ?s = "s\<lparr> queue := queue_put t (queue s), pending := Some (ts, n), received := received s @ [t] \<rparr>"
  have "thread_step cfg sid s ?s" using Cons.prems by (rule thread_step.put)
  moreover have "rtranclp (thread_step cfg sid) ?s
      (s\<lparr> queue := queue s @ t # ts, pending := Some ([], n), received := received s @ t # ts \<rparr>)"
    using Cons.IH [of ?s] by (simp add: queue_put_def)
  ultimately show ?case by (rule converse_rtranclp_into_rtranclp)
next
  case Nil
  then have "s\<lparr> queue := queue s @ [], pending := Some ([], n), received := received s @ [] \<rparr> = s" by (cases s) simp
  then show ?case by (metis rtranclp.rtrancl_refl)
qed

lemma message_run:
  assumes "pending s = None" "record_event now (JStr TRADE) (DInt (int (length ts))) (evs s) = Inr e"
  shows "rtranclp (thread_step cfg sid) s
    (s\<lparr> queue := queue s @ ts, evs := e, received := received s @ ts \<rparr>)"
proof -
  let ?s = "s\<lparr> pending := Some (ts, length ts) \<rparr>"
  let ?t = "s\<lparr> queue := queue s @ ts, pending := Some ([], length ts), received := received s @ ts \<rparr>"
  have "thread_step cfg sid s ?s" using assms(1) by (rule thread_step.message)
  moreover have "rtranclp (thread_step cfg sid) ?s ?t" using put_run [of ?s ts "length ts" cfg sid] by simp
  moreover have "thread_step cfg sid ?t (?t\<lparr> evs := e, pending := None \<rparr>)"
    by (rule thread_step.counted) (use assms(2) in simp_all)
  ultimately have "rtranclp (thread_step cfg sid) s (?t\<lparr> evs := e, pending := None \<rparr>)"
    by (meson converse_rtranclp_into_rtranclp rtranclp.rtrancl_into_rtrancl)
  moreover have "?t\<lparr> evs := e, pending := None \<rparr> = s\<lparr> queue := queue s @ ts, evs := e, received := received s @ ts \<rparr>"
    using assms(1) by (cases s) simp
  ultimately show ?thesis by simp
qed

lemma event_step: "pending s = None \<Longrightarrow> ty \<noteq> JStr TRADE \<Longrightarrow> record_event now ty d (evs s) = Inr e \<Longrightarrow>
    rtranclp (thread_step cfg sid) s (s\<lparr> queue := queue s @ [], evs := e, received := received s @ [] \<rparr>)"
proof -
  assume "pending s = None" "ty \<noteq> JStr TRADE" "record_event now ty d (evs s) = Inr e"
  then have "thread_step cfg sid s (s\<lparr> evs := e \<rparr>)" by (rule thread_step.event)
  moreover have "s\<lparr> queue := queue s @ [], evs := e, received := received s @ [] \<rparr> = s\<lparr> evs := e \<rparr>" by (cases s) simp
  ultimately show ?thesis by (metis r_into_rtranclp)
qed

lemma event_run:
  fixes s :: sys
  assumes "pending s = None" "dispatch str_of sock ev (map json_trade (queue s)) = (sent, q', outcome)"
    "list_all string_symbol q'"
    "e = (case outcome of Inr report \<Rightarrow> on_event now report (evs s)
       | Inl x \<Rightarrow> on_event later (on_error (fst (describe x)) (snd (describe x))) (evs s))"
  obtains ts where "q' = map json_trade (queue s @ ts)" "rtranclp (thread_step cfg sid) s
    (s\<lparr> queue := queue s @ ts, evs := e, received := received s @ ts \<rparr>)"
proof -
  obtain us where us: "q' = map json_trade (queue s) @ us" "\<And>x. outcome = Inl x \<Longrightarrow> us = []"
    "\<And>d. outcome = Inr (JStr TRADE, d) \<Longrightarrow> d = DInt (int (length us))"
    "\<And>ty d. outcome = Inr (ty, d) \<Longrightarrow> ty \<noteq> JStr TRADE \<Longrightarrow> us = []"
    using dispatch_effect [OF assms(2)] by metis
  then obtain ts where ts: "us = map json_trade ts" using string_symbols_json assms(3) by fastforce
  have "rtranclp (thread_step cfg sid) s (s\<lparr> queue := queue s @ ts, evs := e, received := received s @ ts \<rparr>)"
  proof (cases outcome)
    case (Inl x)
    with us(2) ts have "ts = []" by simp
    moreover have "record_event later (JStr ''failed'') (snd (on_error (fst (describe x)) (snd (describe x)))) (evs s) = Inr e"
      using failed_recorded assms(4) Inl by (simp add: on_error_def)
    moreover have "JStr ''failed'' \<noteq> JStr TRADE" by (simp add: TRADE_def)
    ultimately show ?thesis using event_step [OF assms(1)] by metis
  next
    case (Inr report)
    obtain ty d where report: "report = (ty, d)" by fastforce
    have e: "record_event now ty d (evs s) = Inr e"
      using report_recorded assms(2,4) Inr report by simp
    show ?thesis
    proof (cases "ty = JStr TRADE")
      case True
      with us(3) ts e Inr report show ?thesis by (intro message_run [OF assms(1), of now]) simp
    next
      case False
      with us(4) ts Inr report have "ts = []" by simp
      with event_step [OF assms(1) False e] show ?thesis by metis
    qed
  qed
  with us(1) ts show thesis by (intro that) simp_all
qed

lemma handle_events_grows:
  "handle_events str_of describe sock es (q, e) = (sent, q', e') \<Longrightarrow> \<exists>ts. q' = q @ ts"
proof (induction es arbitrary: q e sent)
  case (Cons x es)
  obtain now later ev where x: "x = (now, later, ev)" by (cases x) auto
  obtain sent1 q1 outcome where d: "dispatch str_of sock ev q = (sent1, q1, outcome)" by (cases "dispatch str_of sock ev q") auto
  with Cons.prems x obtain e1 sent2 where "handle_events str_of describe sock es (q1, e1) = (sent2, q', e')"
    by (auto simp: Let_def split: prod.splits)
  with Cons.IH dispatch_effect [OF d] show ?case by (metis append.assoc)
qed simp

section \<open>Properties\<close>

text \<open>
  C6: The socket thread does what the stream's model says of it. Handling any sequence of events of a
  connection (opened, messages of any content whose symbols are strings, errors, the close) through the client's
  callbacks is a run of the thread's steps, callbacks that raise included (the library then reports the
  exception to \<open>on_error\<close>): the trades parsed are put on the queue one by one, in
  order, behind those already there, and the event record is the one the callbacks leave;
  nothing else of the service changes. The socket thread must be between two messages when the
  events begin.
\<close>

theorem socket_refines_thread:
  assumes "pending s = None" "handle_events str_of describe sock es (map json_trade (queue s), evs s) = (sent, q, e)"
    and "list_all string_symbol q"
  shows "\<exists>ts. q = map json_trade (queue s @ ts) \<and>
    rtranclp (thread_step cfg sid) s (s\<lparr> queue := queue s @ ts, evs := e, received := received s @ ts \<rparr>)"
  using assms
proof (induction es arbitrary: s sent)
  case Nil
  then show ?case by (intro exI [of _ "[]"]) auto
next
  case (Cons x es)
  obtain now later ev where x: "x = (now, later, ev)" by (cases x) auto
  obtain sent1 q1 outcome where d: "dispatch str_of sock ev (map json_trade (queue s)) = (sent1, q1, outcome)"
    by (cases "dispatch str_of sock ev (map json_trade (queue s))") auto
  define e1 where "e1 = (case outcome of Inr report \<Rightarrow> on_event now report (evs s)
    | Inl x \<Rightarrow> on_event later (on_error (fst (describe x)) (snd (describe x))) (evs s))"
  with d x Cons.prems(2) obtain sent2 where rest: "handle_events str_of describe sock es (q1, e1) = (sent2, q, e)"
    by (auto simp: Let_def split: prod.splits)
  have "list_all string_symbol q1" using handle_events_grows [OF rest] Cons.prems(3) by auto
  from event_run [OF Cons.prems(1) d this e1_def] obtain ts where ts: "q1 = map json_trade (queue s @ ts)"
    "rtranclp (thread_step cfg sid) s (s\<lparr> queue := queue s @ ts, evs := e1, received := received s @ ts \<rparr>)" by metis
  let ?s = "s\<lparr> queue := queue s @ ts, evs := e1, received := received s @ ts \<rparr>"
  obtain us where us: "q = map json_trade (queue s @ ts @ us)"
    "rtranclp (thread_step cfg sid) ?s (?s\<lparr> queue := queue s @ ts @ us, evs := e, received := received s @ ts @ us \<rparr>)"
    using Cons.IH [of ?s sent2] rest ts(1) Cons.prems(1,3) by auto
  with ts(2) show ?case by (intro exI [of _ "ts @ us"]) (simp add: rtranclp_trans)
qed

text \<open>A connection that opens, delivers a message of two trades, one without a price, then one whose data
  is not a list, on which the callback raises, and closes.\<close>

definition demo_socket :: finnhub_socket where
  "demo_socket = \<lparr> socket_endpoint = [], socket_symbols = [''NVDA''] \<rparr>"

definition demo_item :: json where
  "demo_item = JObj [(''s'', JStr ''NVDA''), (''t'', JInt 1700000000123), (''p'', JFloat (Fin 100))]"

definition demo_events :: "(int \<times> int \<times> ws_event) list" where
  "demo_events = [(5, 5, Opened None), (6, 6, Arrived (Inr (JObj [(''type'', JStr TRADE),
      (''data'', JArr [demo_item, JObj [(''s'', JStr ''NVDA'')]])]))),
     (7, 8, Arrived (Inr (JObj [(''type'', JStr TRADE), (''data'', JInt 5)]))), (9, 9, Closed (Some 1006))]"

definition demo_trade :: trade where
  "demo_trade = \<lparr> symbol = ''NVDA'', trade_ts = 1700000000123000, price = Fin 100, volume = Fin 0, conditions = [] \<rparr>"

lemma demo_items_parsed: "parse_trade (\<lambda>_. []) demo_item = Inr (Some (json_trade demo_trade))"
    "parse_trade (\<lambda>_. []) (JObj [(''s'', JStr ''NVDA'')]) = Inr None"
  using fromtimestamp_ms [of 1700000000123]
  by (simp_all add: demo_item_def demo_trade_def json_trade_def parse_trade_def read_trade_def parse_trade_catches_def
      json_get_def iter_or_empty_def float_of_int_def del: json_div_1000.simps(1) fromtimestamp.simps(1))

definition demo_after :: events where
  "demo_after = \<lparr> last_message_at = Some 9, last_trade_at = Some 6, trades_seen = 1,
     event_error = DStr ''TypeError: 5'', closed = True \<rparr>"

lemma demo_events_handled:
  "handle_events (\<lambda>_. []) (\<lambda>_. (''TypeError'', ''5'')) demo_socket demo_events ([], no_events) =
     ([subscribe_message ''NVDA''], [json_trade demo_trade], demo_after)"
  by (simp add: demo_events_def dispatch_def on_open_def demo_socket_def on_message_def parse_message_def json_get_def
      iter_or_empty_def demo_items_parsed List.map_filter_simps record_event_def no_events_def detail_true_def on_close_def
      TRADE_def on_event_def on_error_def demo_after_def)

theorem socket_refines_thread_witness:
  "\<exists>s. rtranclp (thread_step demo_cfg 1) (initial empty_pg (\<lambda>k. [])) s \<and> length (queue s) = 1 \<and> evs s = demo_after"
proof -
  let ?s = "initial empty_pg (\<lambda>k. [])"
  have s: "pending ?s = None" "queue ?s = []" by (simp_all add: initial_def)
  have run: "handle_events (\<lambda>_. []) (\<lambda>_. (''TypeError'', ''5'')) demo_socket demo_events (map json_trade (queue ?s), evs ?s) =
      ([subscribe_message ''NVDA''], [json_trade demo_trade], demo_after)"
    using demo_events_handled by (simp add: initial_def)
  have strings: "list_all string_symbol [json_trade demo_trade]" by (simp add: string_symbol_def json_trade_def)
  obtain ts where "[json_trade demo_trade] = map json_trade (queue ?s @ ts)" "rtranclp (thread_step demo_cfg 1) ?s
      (?s\<lparr> queue := queue ?s @ ts, evs := demo_after, received := received ?s @ ts \<rparr>)"
    using socket_refines_thread [OF s(1) run strings, of demo_cfg 1] by (elim exE conjE) (rule that)
  with s(2) show ?thesis by (intro exI [of _ "?s\<lparr> queue := queue ?s @ ts, evs := demo_after, received := received ?s @ ts \<rparr>"]) auto
qed

text \<open>
  A message of type \<open>closed\<close> from the server is taken for the close of the connection: the main thread
  leaves its loop and ends the session while the socket is still open.
\<close>

theorem remote_message_closes:
  assumes "json_get m ''type'' = JStr ''closed''"
  shows "handle_events str_of describe sock [(now, later, Arrived (Inr (JObj m)))] (q, e) =
    ([], q, e\<lparr> last_message_at := Some now, closed := True \<rparr>)"
  using assms by (simp add: dispatch_def on_message_def parse_message_def TRADE_def record_event_def detail_true_def on_event_def)

end
