(* ===== verification/Processes.thy ===== *)
theory Processes
  imports Services StreamSocket
begin

text \<open>
  The two background processes from start to exit (\<open>main\<close> of stream/main.py and of rollup/main.py):
  settings, engine and schema first, then the endless loop. The schema files consist of
  \<open>CREATE ... IF NOT EXISTS\<close> statements, and the tables of the model always exist, so applying
  one either fails or changes nothing.
\<close>

section \<open>Starting\<close>

record service =
  sv_config :: stream_config
  sv_backoff :: backoff
  sv_reconnects :: nat
  sv_pg :: Tables.pg
  sv_redis :: LivePrices.redis

definition started_or :: "exn option \<Rightarrow> 'a \<Rightarrow> 'a result" where
  "started_or failure x = (case failure of Some e \<Rightarrow> Inl e | None \<Rightarrow> Inr x)"

definition stream_startup ::
  "env \<Rightarrow> exn option \<Rightarrow> exn option \<Rightarrow> Tables.pg \<Rightarrow> LivePrices.redis \<Rightarrow> service result" where
  "stream_startup e schema_failure redis_failure db r =
     rbind (load_stream_config e) (\<lambda>config.
     rbind (get_engine e) (\<lambda>engine.
     rbind (started_or schema_failure ()) (\<lambda>_.
     rbind (started_or redis_failure ()) (\<lambda>_.
       Inr \<lparr> sv_config = config,
         sv_backoff = \<lparr> min_seconds = reconnect_min_seconds config,
           max_seconds = reconnect_max_seconds config, attempts = 0 \<rparr>,
         sv_reconnects = 0, sv_pg = db, sv_redis = r \<rparr>))))"

definition rollup_startup :: "env \<Rightarrow> exn option \<Rightarrow> rollup_config result" where
  "rollup_startup e schema_failure =
     rbind (load_rollup_config e) (\<lambda>config.
     rbind (rollup_get_engine e) (\<lambda>engine.
       started_or schema_failure config))"

text \<open>The exit status of a process whose \<open>main\<close> raised: 2 for its settings, 1 with a traceback for
  anything else.\<close>

definition exit_status :: "exn \<Rightarrow> nat" where
  "exit_status e = (case e of ConfigError m \<Rightarrow> 2 | _ \<Rightarrow> 1)"

text \<open>The settings are refused by a \<open>ConfigError\<close> whose message begins with the name of a setting.\<close>

named_theorems refusal

definition names_setting :: "string list \<Rightarrow> string \<Rightarrow> bool" where
  "names_setting names message = list_ex (\<lambda>n. take (length n) message = n) names"

definition refused :: "string list \<Rightarrow> 'a result \<Rightarrow> bool" where
  "refused names r \<longleftrightarrow> (case r of Inl x \<Rightarrow> \<exists>m. x = ConfigError m \<and> names_setting names m | Inr _ \<Rightarrow> True)"

lemma refused_rbind [refusal]: "refused ns r \<Longrightarrow> (\<And>x. refused ns (f x)) \<Longrightarrow> refused ns (rbind r f)"
  by (cases r) (auto simp: refused_def)

lemma refused_Inr [refusal]: "refused ns (Inr x)"
  by (simp add: refused_def)

lemma refused_reject [refusal]: "names_setting ns m \<Longrightarrow> refused ns (reject b m)"
  by (simp add: refused_def reject_def)

lemma names_setting_append: "n \<in> set ns \<Longrightarrow> names_setting ns (n @ m)"
  unfolding names_setting_def list_ex_iff by (rule bexI [of _ n]) simp_all

lemma refused_required [refusal]: "n \<in> set ns \<Longrightarrow> refused ns (read_required e n hint)"
  by (simp add: refused_def read_required_def Let_def names_setting_append)

lemma refused_symbols [refusal]: "''STOCK_SYMBOLS'' \<in> set ns \<Longrightarrow> refused ns (parse_symbols raw)"
  using names_setting_append [of "''STOCK_SYMBOLS''" ns "'' has no usable symbols in it''"]
  by (simp add: refused_def parse_symbols_def Let_def)

lemma refused_env [refusal]: "map_of d n \<noteq> None \<Longrightarrow> refused ns (env_or d e n)"
  by (auto simp: refused_def env_or_def Let_def split: option.splits)

lemma refused_number:
  assumes "map_of d n \<noteq> None" "n \<in> set ns" "\<And>t x. p t = Inl x \<Longrightarrow> x = ValueError"
  shows "refused ns (read_number d e n p)"
proof -
  obtain raw where raw: "env_or d e n = Inr raw"
    using assms(1) by (cases "env_or d e n") (auto simp: env_or_def Let_def split: option.splits if_splits)
  with assms(2) assms(3) [of raw] show ?thesis
    by (cases "p raw") (auto simp: refused_def read_number_def names_setting_append)
qed

lemma int_setting_exn: "int_setting t = Inl x \<Longrightarrow> x = ValueError"
  by (cases "int_of_str t") (auto simp: int_setting_def int_of_str_def Let_def split: prod.splits if_splits)

lemma refused_float [refusal]: "map_of d n \<noteq> None \<Longrightarrow> n \<in> set ns \<Longrightarrow> refused ns (read_number d e n float_of_str)"
  by (rule refused_number) (auto dest: float_of_str_exn)

lemma refused_int [refusal]: "map_of d n \<noteq> None \<Longrightarrow> n \<in> set ns \<Longrightarrow> refused ns (read_number d e n int_setting)"
  by (rule refused_number) (auto dest: int_setting_exn)







section \<open>The reconnect loop\<close>

text \<open>The delays are those the loop has slept for, and the last argument is the exception \<open>main\<close> ended with,
  if it has. A round whose session ended with its row closed goes on to the next (\<open>pass\<close>); when opening the row
  fails (\<open>refuse\<close>) or closing it fails (\<open>crash\<close>) the exception leaves \<open>main\<close>: a process that has
  ended runs no further round. Between any two rounds, and after the end, other services act.\<close>

inductive service_run :: "service \<Rightarrow> pyfloat list \<Rightarrow> service \<Rightarrow> exn option \<Rightarrow> bool" where
  here: "service_run v [] v None"
| idle: "service_run v delays w x \<Longrightarrow> service_step (sv_pg w) db \<Longrightarrow> service_run v delays (w\<lparr> sv_pg := db \<rparr>) x"
| refuse: "service_run v delays w None \<Longrightarrow>
    run_start failure now (sv_config w) (sv_reconnects w) (sv_pg w) (sv_redis w) = Inl e \<Longrightarrow>
    service_run v delays w (Some e)"
| crash: "service_run v delays w None \<Longrightarrow>
    run_start failure now (sv_config w) (sv_reconnects w) (sv_pg w) (sv_redis w) = Inr (sid, s0) \<Longrightarrow>
    rtranclp (session_step (sv_config w)) (sid, s0) (sid, s) \<Longrightarrow> stage s = Raised e \<Longrightarrow>
    service_run v delays (w\<lparr> sv_pg := pg s, sv_redis := redis s \<rparr>) (Some e)"
| pass: "service_run v delays w None \<Longrightarrow>
    run_start failure now (sv_config w) (sv_reconnects w) (sv_pg w) (sv_redis w) = Inr (sid, s0) \<Longrightarrow>
    rtranclp (session_step (sv_config w)) (sid, s0) (sid, s) \<Longrightarrow> stage s = Finished \<Longrightarrow>
    0 \<le> u \<Longrightarrow> u < 1 \<Longrightarrow> after_run u (evs s) (sv_backoff w) = (delay, b) \<Longrightarrow>
    service_run v (delays @ [delay])
      (w\<lparr> sv_backoff := b, sv_reconnects := Suc (sv_reconnects w), sv_pg := pg s, sv_redis := redis s \<rparr>) None"

section \<open>The session's own row\<close>

text \<open>The row is live until the closing statement has succeeded.\<close>

definition own_row :: "nat \<Rightarrow> nat \<Rightarrow> session_row list \<Rightarrow> sys \<Rightarrow> bool" where
  "own_row sid n olds s \<longleftrightarrow> (\<exists>row. stream_sessions (pg s) = olds @ [row] \<and> ss_id row = sid \<and>
     ss_reconnects row = n \<and> (if stage s = Finished then ended_row row else live_row row))"

lemma update_last:
  "\<forall>r \<in> set olds. ss_id r \<noteq> sid \<Longrightarrow> ss_id row = sid \<Longrightarrow>
   update_where (\<lambda>r. ss_id r = sid) f (olds @ [row]) = olds @ [f row]"
  by (auto simp: update_where_def intro: map_idI)

lemma own_row_update:
  assumes "own_row sid n olds s" "\<forall>r \<in> set olds. ss_id r \<noteq> sid"
    "stream_sessions (pg s') = update_where (\<lambda>r. ss_id r = sid) f (stream_sessions (pg s))"
    "\<And>r. ss_id (f r) = ss_id r \<and> ss_reconnects (f r) = ss_reconnects r"
    "\<And>r. (if stage s = Finished then ended_row r else live_row r) \<Longrightarrow>
       if stage s' = Finished then ended_row (f r) else live_row (f r)"
  shows "own_row sid n olds s'"
proof -
  obtain row where row: "stream_sessions (pg s) = olds @ [row]" "ss_id row = sid" "ss_reconnects row = n"
    "if stage s = Finished then ended_row row else live_row row"
    using assms(1) by (auto simp: own_row_def)
  have "stream_sessions (pg s') = olds @ [f row]"
    using update_last [OF assms(2) row(2), of f] assms(3) row(1) by simp
  with row(2,3) assms(4) [of row] assms(5) [OF row(4)] show ?thesis by (auto simp: own_row_def)
qed

lemma own_row_cong:
  "stream_sessions (pg s') = stream_sessions (pg s) \<Longrightarrow> (stage s' = Finished \<longleftrightarrow> stage s = Finished) \<Longrightarrow>
   own_row sid n olds s' = own_row sid n olds s"
  by (simp add: own_row_def)

lemma beat_finish_keep [simp]:
  "ss_reconnects (beat_row p r) = ss_reconnects r" "ss_id (beat_row p r) = ss_id r"
  "live_row (beat_row p r) = live_row r"
  "ss_reconnects (finish_row q r) = ss_reconnects r" "ss_id (finish_row q r) = ss_id r"
  by (simp_all add: beat_row_def finish_row_def live_row_def case_prod_beta Let_def)

lemma finished_main: "stage (main_step cfg sid i s) = Finished \<longleftrightarrow>
    stage s = Finished \<or> (stage s = Leaving \<and> is_ok (fst (finish sid i s)))"
  by (auto simp: main_step_def case_prod_beta split: stage.splits sum.splits option.splits prod.splits)

lemma own_row_main:
  assumes own: "own_row sid n olds s" and new: "\<forall>r \<in> set olds. ss_id r \<noteq> sid"
  shows "own_row sid n olds (main_step cfg sid i s)"
proof (cases "stage s")
  case (Writing b d seen)
  obtain answer db where w: "write_batch sid i s b seen = (answer, db)" by fastforce
  show ?thesis
  proof (cases answer)
    case (Inl e)
    with Writing w write_batch_Inl [of sid i s b seen e db] own show ?thesis
      by (simp add: own_row_cong [of "main_step cfg sid i s" s] pg_main finished_main)
  next
    case (Inr u)
    obtain rows sess where "stream_sessions db = update_where (\<lambda>r. ss_id r = sid)
        (beat_row (beat_of s (int (length b)) seen, sess)) (stream_sessions (pg s))"
      using write_batch_Inr [of sid i s b seen u db] w Inr by metis
    with Writing w show ?thesis
      by (intro own_row_update [OF own new, where f = "beat_row (beat_of s (int (length b)) seen, sess)"]) (simp_all add: pg_main finished_main)
  qed
next
  case (Alerting b)
  obtain n db where "check_alerts (in_pg i) b (pg s) = (n, db)" by fastforce
  with Alerting own check_alerts_effect(2) show ?thesis
    by (simp add: own_row_cong [of "main_step cfg sid i s" s] pg_main finished_main)
next
  case Leaving
  obtain answer db where f: "finish sid i s = (answer, db)" by fastforce
  show ?thesis
  proof (cases answer)
    case (Inl e)
    with Leaving f finish_Inl [of sid i s e db] own show ?thesis
      by (simp add: own_row_cong [of "main_step cfg sid i s" s] pg_main finished_main)
  next
    case (Inr u)
    with f obtain p where "stream_sessions db = update_where (\<lambda>r. ss_id r = sid) (finish_row p) (stream_sessions (pg s))"
      "\<And>r. ended_row (finish_row p r)" using finish_Inr [of sid i s u db] by metis
    with Leaving f Inr show ?thesis
      by (intro own_row_update [OF own new, where f = "finish_row p"]) (simp_all add: pg_main finished_main)
  qed
qed (use own in \<open>simp_all add: own_row_cong [of "main_step cfg sid i s" s] pg_main finished_main\<close>)

lemma own_row_step:
  assumes "session_step cfg (sid, s) w" "own_row sid n olds s" "\<forall>r \<in> set olds. ss_id r \<noteq> sid"
  shows "fst w = sid \<and> own_row sid n olds (snd w)"
  using assms(1)
proof cases
  case (thread s')
  have "own_row sid n olds s'" using thread(2)
  proof cases
    case (main i)
    with assms(2,3) show ?thesis by (simp add: own_row_main)
  qed (use assms(2) in \<open>simp_all add: own_row_def\<close>)
  with thread(1) show ?thesis by simp
next
  case (service db)
  with service_step_frame(2) [OF service(2)] assms(2) show ?thesis
    by (simp add: own_row_def other_service_def)
qed

lemma own_row_run:
  assumes "rtranclp (session_step cfg) (sid, s0) w" "own_row sid n olds s0" "\<forall>r \<in> set olds. ss_id r \<noteq> sid"
  shows "fst w = sid \<and> own_row sid n olds (snd w)"
  using assms(1)
proof (induction rule: rtranclp_induct)
  case (step w w')
  then show ?case using own_row_step [of cfg sid "snd w" w' n olds] assms(3) by (cases w) simp
qed (use assms(2) in simp)

section \<open>The loop\<close>

lemma own_row_start:
  assumes "pg_keys_ok db" "run_start f now cfg n db r = Inr (sid, s0)"
  shows "own_row sid n (stream_sessions db) s0"
proof -
  have "pg s0 = db\<lparr> stream_sessions := stream_sessions db @
      [session_row_new now (next_session_id db) (symbols cfg) n], next_session_id := Suc (next_session_id db) \<rparr>"
    "sid = next_session_id db" "stage s0 = Draining"
    using assms(2) by (auto simp: run_start_def initial_def transaction_def start_session_def
        split: option.splits prod.splits sum.splits)
  then show ?thesis by (simp add: own_row_def session_row_new_def live_row_def)
qed

lemma session_reached:
  "rtranclp (session_step cfg) (sid, s0) w \<Longrightarrow> fst w = sid \<and> reached cfg sid s0 (snd w)"
proof (induction rule: rtranclp_induct)
  case (step w w')
  then show ?case using session_step_stream [of cfg sid "snd w" "fst w'" "snd w'"]
    by (cases w; cases w') (auto intro: reached.step)
qed (simp add: reached.start)

text \<open>One session.\<close>

lemma session_effect:
  assumes keys: "pg_keys_ok db0" and start: "run_start f now cfg n db0 r = Inr (sid, s0)"
    and run: "rtranclp (session_step cfg) (sid, s0) (sid, s)"
  shows "pg_keys_ok (pg s) \<and> (main_ended (stage s) \<longrightarrow> last_message_at (evs s) \<noteq> None) \<and>
    (\<exists>row. stream_sessions (pg s) = stream_sessions db0 @ [row] \<and> ss_reconnects row = n \<and>
       (if stage s = Finished then ended_row row else live_row row))"
proof -
  have reached: "reached cfg sid s0 s" using session_reached [OF run] by simp
  have inv: "stream_inv sid (pg s0) s" by (rule reached_inv [OF reached stream_inv_start(1) [OF keys start]])
  then have "pg_keys_ok (pg s)" "main_ended (stage s) \<longrightarrow> last_message_at (evs s) \<noteq> None"
    by (auto simp: stream_inv_def rows_ok_def closed_ok_def)
  moreover have "own_row sid n (stream_sessions db0) s"
    using own_row_run [OF run own_row_start [OF keys start] stream_inv_start(5) [OF keys start]] by simp
  ultimately show ?thesis by (auto simp: own_row_def)
qed

text \<open>The rows a process has added: one ended row for each delay, and then perhaps one that was never
  closed, which only a process that has ended leaves behind.\<close>

definition session_rows :: "nat \<Rightarrow> nat \<Rightarrow> exn option \<Rightarrow> session_row list \<Rightarrow> bool" where
  "session_rows m n x rows \<longleftrightarrow> (\<exists>ended last. rows = ended @ last \<and> list_all ended_row ended \<and>
     map ss_reconnects ended = [m..<n] \<and>
     (last = [] \<or> x \<noteq> None \<and> (\<exists>row. last = [row] \<and> ss_reconnects row = n \<and> live_row row)))"

definition loop_ok :: "service \<Rightarrow> rat \<Rightarrow> rat \<Rightarrow> pyfloat list \<Rightarrow> service \<Rightarrow> exn option \<Rightarrow> bool" where
  "loop_ok v m M delays w x \<longleftrightarrow> pg_keys_ok (sv_pg w) \<and> sv_config w = sv_config v \<and>
     backoff_ok (sv_backoff w) \<and> min_seconds (sv_backoff w) = Fin m \<and> max_seconds (sv_backoff w) = Fin M \<and>
     sv_reconnects w = sv_reconnects v + length delays \<and>
     (\<forall>d \<in> set delays. \<exists>q. d = Fin q \<and> rnd (m / 2) \<le> Fin q \<and> q \<le> m) \<and>
     (\<exists>rows. stream_sessions (sv_pg w) = stream_sessions (sv_pg v) @ rows \<and>
        session_rows (sv_reconnects v) (sv_reconnects w) x rows)"

lemma session_rows_ended: "session_rows m n None rows \<longleftrightarrow> list_all ended_row rows \<and> map ss_reconnects rows = [m..<n]"
  by (auto simp: session_rows_def)

lemma session_rows_Some: "session_rows m n None rows \<Longrightarrow> session_rows m n (Some e) rows"
  by (auto simp: session_rows_def)

lemma session_rows_live:
  "session_rows m n None rows \<Longrightarrow> ss_reconnects row = n \<Longrightarrow> live_row row \<Longrightarrow> session_rows m n (Some e) (rows @ [row])"
  by (auto simp: session_rows_def)

lemma session_rows_next:
  "session_rows m n None rows \<Longrightarrow> m \<le> n \<Longrightarrow> ss_reconnects row = n \<Longrightarrow> ended_row row \<Longrightarrow>
   session_rows m (Suc n) None (rows @ [row])"
  by (simp add: session_rows_ended)

lemma delay_after_reset:
  assumes "backoff_ok b" "min_seconds b = Fin m" "max_seconds b = Fin M" "0 \<le> u" "u < 1"
    "last_message_at e \<noteq> None" "after_run u e b = (delay, b')"
  shows "backoff_ok b' \<and> min_seconds b' = Fin m \<and> max_seconds b' = Fin M \<and>
    (\<exists>q. delay = Fin q \<and> rnd (m / 2) \<le> Fin q \<and> q \<le> m)"
proof -
  have ok: "backoff_ok (reset b)" "min_seconds (reset b) = Fin m" "max_seconds (reset b) = Fin M" "attempts (reset b) = 0"
    using assms(1-3) by (simp_all add: reset_def backoff_ok_def)
  have "m \<le> M" using assms(1-3) by (auto simp: backoff_ok_def)
  with next_delay_within [OF ok(1-3) assms(4)] assms(5-7) ok(2-4) show ?thesis
    by (auto simp: after_run_def min_def)
qed

lemma loop_ok_session:
  assumes "loop_ok v m M delays w None"
    and "run_start f now (sv_config w) (sv_reconnects w) (sv_pg w) (sv_redis w) = Inr (sid, s0)"
    and "rtranclp (session_step (sv_config w)) (sid, s0) (sid, s)"
  obtains rows row where "stream_sessions (sv_pg w) = stream_sessions (sv_pg v) @ rows"
    "session_rows (sv_reconnects v) (sv_reconnects w) None rows"
    "stream_sessions (pg s) = stream_sessions (sv_pg v) @ rows @ [row]" "ss_reconnects row = sv_reconnects w"
    "if stage s = Finished then ended_row row else live_row row" "pg_keys_ok (pg s)"
proof -
  have "pg_keys_ok (sv_pg w)" using assms(1) by (simp add: loop_ok_def)
  from session_effect [OF this assms(2,3)] assms(1) that show thesis by (auto simp: loop_ok_def)
qed

lemma loop_ok_run:
  assumes "service_run v delays w x" "loop_ok v m M [] v None"
  shows "loop_ok v m M delays w x"
  using assms
proof (induction rule: service_run.induct)
  case (idle v delays w x db)
  note f = service_step_frame [OF idle.hyps(2)]
  from idle have w: "loop_ok v m M delays w x" by simp
  then have "pg_keys_ok db" using f(1) by (simp add: loop_ok_def evolved_def)
  moreover have "stream_sessions db = stream_sessions (sv_pg w)" using f(2) by (simp add: other_service_def)
  ultimately show ?case using w by (auto simp: loop_ok_def)
next
  case (refuse v delays w failure now e)
  then show ?case using session_rows_Some by (fastforce simp: loop_ok_def)
next
  case (crash v delays w failure now sid s0 s e)
  from crash have w: "loop_ok v m M delays w None" by simp
  obtain rows row where row: "session_rows (sv_reconnects v) (sv_reconnects w) None rows"
    "stream_sessions (pg s) = stream_sessions (sv_pg v) @ rows @ [row]" "ss_reconnects row = sv_reconnects w"
    "if stage s = Finished then ended_row row else live_row row" "pg_keys_ok (pg s)"
    using loop_ok_session [OF w crash.hyps(2,3)] by metis
  with crash.hyps(4) have "live_row row" by simp
  from w row session_rows_live [OF row(1,3) this] show ?case by (simp add: loop_ok_def)
next
  case (pass v delays w failure now sid s0 s u delay b)
  from pass have w: "loop_ok v m M delays w None" by simp
  obtain rows row where row: "session_rows (sv_reconnects v) (sv_reconnects w) None rows"
    "stream_sessions (pg s) = stream_sessions (sv_pg v) @ rows @ [row]" "ss_reconnects row = sv_reconnects w"
    "ended_row row" "pg_keys_ok (pg s)"
    using loop_ok_session [OF w pass.hyps(2,3)] pass.hyps(4) by metis
  have "last_message_at (evs s) \<noteq> None"
    using session_effect [OF _ pass.hyps(2,3)] w pass.hyps(4) by (simp add: loop_ok_def)
  then have "backoff_ok b \<and> min_seconds b = Fin m \<and> max_seconds b = Fin M \<and>
      (\<exists>q. delay = Fin q \<and> rnd (m / 2) \<le> Fin q \<and> q \<le> m)"
    by (intro delay_after_reset [OF _ _ _ pass.hyps(5,6) _ pass.hyps(7)]) (use w in \<open>simp_all add: loop_ok_def\<close>)
  with w row session_rows_next [OF row(1) _ row(3,4)] show ?case by (auto simp: loop_ok_def)
qed (simp add: loop_ok_def)

section \<open>A process that runs one session\<close>

definition ready_env :: env where
  "ready_env = key_only(''DESTINATION_POSTGRES_PASSWORD'' \<mapsto> ''p'')"

lemma env_ready:
  "name \<noteq> ''FINNHUB_API_KEY'' \<Longrightarrow> name \<noteq> ''DESTINATION_POSTGRES_PASSWORD'' \<Longrightarrow> map_of d name = Some v \<Longrightarrow>
   env_or d ready_env name = Inr v"
  by (simp add: env_or_def env_get_def key_only_def ready_env_def)

lemma ready_key: "read_required ready_env ''FINNHUB_API_KEY'' hint = read_required key_only ''FINNHUB_API_KEY'' hint"
  by (simp add: read_required_def env_get_def ready_env_def)

lemma ready_config:
  obtains c where "load_stream_config ready_env = Inr c" "reconnect_min_seconds c = Fin 1" "reconnect_max_seconds c = Fin 60"
    "text_error (join_with '','' (symbols c)) = None"
proof -
  have "\<exists>c. load_stream_config ready_env = Inr c \<and> reconnect_min_seconds c = Fin 1 \<and> reconnect_max_seconds c = Fin 60 \<and>
     symbols c = [''AMZN'', ''NVDA'', ''GOOGL'', ''TSLA'', ''NFLX'']"
    by (simp add: load_stream_config_def read_number_def env_ready stream_defaults_eval
        default_floats default_symbols ready_key stream_key_eval)
  then show thesis using that by (force simp: text_error_def)
qed


text \<open>The socket closes before the first flush; the database answers the statement that ends the row.\<close>

definition drop_event :: events where
  "drop_event = no_events\<lparr> last_message_at := Some 0, closed := True \<rparr>"

lemma drop_leaves:
  assumes "stage s = Draining" "queue s = []" "closed (evs s)"
  shows "stage (main_steps cfg sid (replicate 7 outage) s) = Leaving"
  using assms by (simp add: numeral_eq_Suc main_step_def drain_eq outage_def write_batch_def transaction_def)

lemma one_session:
  assumes "load_stream_config ready_env = Inr c" "text_error (join_with '','' (symbols c)) = None"
    "stream_startup ready_env None None empty_pg (\<lambda>k. []) = Inr v"
  shows "\<exists>d w. service_run v [d] w None"
proof -
  have v: "sv_config v = c" "sv_pg v = empty_pg" "sv_reconnects v = 0" "sv_redis v = (\<lambda>k. [])"
    using assms(1,3) by (auto simp: stream_startup_def rbind_eq_Inr started_or_def)
  obtain s0 where s0: "run_start None 0 c 0 empty_pg (\<lambda>k. []) = Inr (1, s0)" "pending s0 = None" "stage s0 = Draining"
    "queue s0 = []" "evs s0 = no_events"
    using assms(2) by (simp add: run_start_def transaction_def start_session_def empty_pg_def initial_def)
  let ?t = "s0\<lparr> evs := drop_event \<rparr>"
  let ?s = "main_steps c 1 (replicate 7 outage) ?t"
  let ?e = "main_step c 1 quiet_inputs ?s"
  have rec: "record_event 0 (JStr ''closed'') DNone (evs s0) = Inr drop_event"
    by (simp add: s0(5) record_event_def no_events_def TRADE_def drop_event_def)
  have "session_step c (1, s0) (1, ?t)"
    by (rule session_step.thread [OF thread_step.event [OF s0(2) _ rec]]) (simp add: TRADE_def)
  then have "rtranclp (session_step c) (1, s0) (1, ?s)"
    using session_main_steps by (metis converse_rtranclp_into_rtranclp)
  then have run: "rtranclp (session_step c) (1, s0) (1, ?e)"
    by (rule rtranclp.rtrancl_into_rtrancl) (intro session_step.thread thread_step.main)
  have leave: "stage ?s = Leaving" using s0(3,4) by (intro drop_leaves) (simp_all add: drop_event_def)
  have "event_error (evs ?s) = DNone" by (simp add: drop_event_def no_events_def)
  then have "is_ok (fst (finish 1 quiet_inputs ?s))"
    by (simp add: finish_def transaction_def quiet_inputs_def finish_session_def detail_text_def detail_true_def
        text_error_def)
  with leave have fin: "stage ?e = Finished" by (simp add: finished_main)
  obtain delay b where after: "after_run 0 (evs ?e) (sv_backoff v) = (delay, b)" by fastforce
  have "service_run v ([] @ [delay]) (v\<lparr> sv_backoff := b, sv_reconnects := Suc (sv_reconnects v), sv_pg := pg ?e, sv_redis := redis ?e \<rparr>) None"
    by (rule service_run.pass [OF service_run.here, of None 0 v 1 s0 ?e 0 delay b])
      (use s0(1) v run fin after in simp_all)
  then show ?thesis by auto
qed

section \<open>Properties\<close>

text \<open>
  C5: The stream process, from its settings on: settings that load, with finite reconnect bounds, and a
  password for the database start it, when the schema applies and a Redis client can be made. From then on, however many sessions it has run and
  whatever failed in them, the table holds exactly one new row per session, numbered 0, 1, 2, ... by \<open>reconnects\<close>
  in the order of the sessions, and all earlier rows as they were. Every session after which the
  process slept and went on has ended (closed, or failed with a message). One row at most is
  still live, the last: that of the session whose closing statement failed, with which the process
  died. The keys of the tables are kept. The delay never grows: since a session always records its own close, the backoff is
  reset before every delay, and each is between half the minimum and the minimum.
\<close>

theorem stream_process_sessions:
  assumes "load_stream_config e = Inr c" "is_ok (get_engine e)"
    and "reconnect_min_seconds c = Fin m" "reconnect_max_seconds c = Fin M" "pg_keys_ok db"
  shows "\<exists>v. stream_startup e None None db r = Inr v \<and> sv_config v = c \<and>
    (\<forall>delays w x. service_run v delays w x \<longrightarrow>
       sv_config w = c \<and> sv_reconnects w = length delays \<and> pg_keys_ok (sv_pg w) \<and>
       (\<exists>ended last. stream_sessions (sv_pg w) = stream_sessions db @ ended @ last \<and>
          list_all ended_row ended \<and> map ss_reconnects ended = [0..<length delays] \<and>
          (last = [] \<or> x \<noteq> None \<and> (\<exists>row. last = [row] \<and> ss_reconnects row = length delays \<and> live_row row))) \<and>
       (\<forall>d \<in> set delays. \<exists>q. d = Fin q \<and> rnd (m / 2) \<le> Fin q \<and> q \<le> m))"
proof -
  obtain engine where "get_engine e = Inr engine" using assms(2) by (cases "get_engine e") simp_all
  with assms(1,3,4) obtain v where v: "stream_startup e None None db r = Inr v" "sv_config v = c" "sv_pg v = db"
    "sv_reconnects v = 0" "sv_backoff v = \<lparr> min_seconds = Fin m, max_seconds = Fin M, attempts = 0 \<rparr>"
    by (simp add: stream_startup_def started_or_def)
  have "backoff_ok \<lparr> min_seconds = Fin m, max_seconds = Fin M, attempts = 0 \<rparr>"
    by (rule config_backoff_ok [OF assms(1,3,4)])
  with v assms(5) have start: "loop_ok v m M [] v None"
    by (simp add: loop_ok_def session_rows_ended)
  have "loop_ok v m M delays w x" if "service_run v delays w x" for delays w x
    by (rule loop_ok_run [OF that start])
  then have "sv_config w = c \<and> sv_reconnects w = length delays \<and> pg_keys_ok (sv_pg w) \<and>
      (\<exists>rows. stream_sessions (sv_pg w) = stream_sessions db @ rows \<and> session_rows 0 (length delays) x rows) \<and>
      (\<forall>d \<in> set delays. \<exists>q. d = Fin q \<and> rnd (m / 2) \<le> Fin q \<and> q \<le> m)"
    if "service_run v delays w x" for delays w x using that unfolding loop_ok_def v(2-4) by fastforce
  with v(1,2) show ?thesis unfolding session_rows_def by (intro exI [of _ v]) blast
qed

lemma ready_engine: "is_ok (get_engine ready_env)"
  by (simp add: get_engine_def ready_env_def env_get_def key_only_def Let_def)

theorem stream_process_sessions_witness:
  "\<exists>v d w. stream_startup ready_env None None empty_pg (\<lambda>k. []) = Inr v \<and> service_run v [d] w None \<and>
     (\<exists>row. stream_sessions (sv_pg w) = [row] \<and> ss_reconnects row = 0 \<and> ended_row row)"
proof -
  obtain c where c: "load_stream_config ready_env = Inr c" "reconnect_min_seconds c = Fin 1" "reconnect_max_seconds c = Fin 60"
    "text_error (join_with '','' (symbols c)) = None" using ready_config by auto
  obtain v where v: "stream_startup ready_env None None empty_pg (\<lambda>k. []) = Inr v"
    "\<forall>delays w x. service_run v delays w x \<longrightarrow>
       (\<exists>ended last. stream_sessions (sv_pg w) = stream_sessions empty_pg @ ended @ last \<and>
          list_all ended_row ended \<and> map ss_reconnects ended = [0..<length delays] \<and>
          (last = [] \<or> x \<noteq> None \<and> (\<exists>row. last = [row] \<and> ss_reconnects row = length delays \<and> live_row row)))"
    using stream_process_sessions [OF c(1) ready_engine c(2,3) pg_keys_ok_empty, of "\<lambda>k. []"] by blast
  obtain d w where w: "service_run v [d] w None" using one_session [OF c(1,4) v(1)] by blast
  with v(2) obtain ended where "stream_sessions (sv_pg w) = ended" "list_all ended_row ended" "map ss_reconnects ended = [0]"
    by (fastforce simp: empty_pg_def)
  with v(1) w show ?thesis by (intro exI [of _ v] exI [of _ d] exI [of _ w]) auto
qed



text \<open>
  The exception is real: with \<open>ROLLUP_INTERVAL_SECONDS=inf\<close> and a window of 4300 nines the process dies
  with a \<open>ValueError\<close> and a traceback instead of the message about the two settings.
\<close>

definition nines :: string where
  "nines = replicate MAX_STR_DIGITS CHR ''9''"

definition huge_env :: env where
  "huge_env = [''ROLLUP_INTERVAL_SECONDS'' \<mapsto> ''inf'', ''ROLLUP_WINDOW_MINUTES'' \<mapsto> nines]"

lemma digits_of_nines: "digits_value (replicate n CHR ''9'') = 10 ^ n - 1"
proof (induction n)
  case (Suc n)
  have "digits_value (replicate n CHR ''9'' @ [CHR ''9'']) = 10 * digits_value (replicate n CHR ''9'') + 9"
    by (simp add: digits_value_def digit_value_def char_code_def)
  with Suc show ?case by (simp add: replicate_append_same)
qed (simp add: digits_value_def)

lemma MAX_STR_DIGITS_pos: "0 < MAX_STR_DIGITS"
  by (simp add: MAX_STR_DIGITS_def)

lemma nines_setting: "int_setting nines = Inr (10 ^ MAX_STR_DIGITS - 1)"
proof -
  have "int_setting (replicate MAX_STR_DIGITS CHR ''9'') = Inr (digits_value (replicate MAX_STR_DIGITS CHR ''9''))"
    by (rule int_setting_digits) (simp_all add: all_digits_def is_digit_def char_code_def MAX_STR_DIGITS_pos)
  then show ?thesis by (simp only: nines_def digits_of_nines)
qed

theorem huge_window_raises: "rollup_startup huge_env None = Inl ValueError \<and> exit_status ValueError = 1"
proof -
  have nines: "nines \<noteq> []" using MAX_STR_DIGITS_pos by (simp add: nines_def)
  have i: "read_number ROLLUP_DEFAULTS huge_env ''ROLLUP_INTERVAL_SECONDS'' float_of_str = Inr PosInf"
    by (rule read_number_value [OF env_or_set]) (auto simp: float_words huge_env_def)
  have w: "read_number ROLLUP_DEFAULTS huge_env ''ROLLUP_WINDOW_MINUTES'' int_setting = Inr (10 ^ MAX_STR_DIGITS - 1)"
  proof (rule read_number_value)
    show "env_or ROLLUP_DEFAULTS huge_env ''ROLLUP_WINDOW_MINUTES'' = Inr nines"
      by (rule env_or_set) (simp_all add: huge_env_def nines)
  qed (rule nines_setting)
  have r: "read_number ROLLUP_DEFAULTS huge_env ''ROLLUP_MAX_ROWS'' int_setting = Inr 200000"
    by (rule read_number_value [OF env_or_unset int_setting_digits [THEN trans]])
      (auto simp: huge_env_def ROLLUP_DEFAULTS_def MAX_STR_DIGITS_def text_eval)
  obtain n :: int where n: "n = 10 ^ MAX_STR_DIGITS" by simp
  have big: "10 \<le> n" unfolding n by (rule self_le_power) (simp_all add: MAX_STR_DIGITS_def)
  then have "unprintable ((n - 1) * 60)" using n by (simp add: unprintable_def)
  then have "reject_short PosInf (n - 1) = Inl ValueError" by (simp add: reject_short_def py_lt_def less_pyfloat_def)
  with i w [folded n] r big have "load_rollup_config huge_env = Inl ValueError"
    by (simp add: load_rollup_config_def py_le_def)
  then show ?thesis by (simp add: rollup_startup_def exit_status_def)
qed

end
