(* ===== verification/DashLive.thy ===== *)
theory DashLive
  imports StreamFlush Candles
begin

text \<open>
  The dashboard's reads (dashboard/live_prices.py, dashboard/data.py, dashboard/queries.py,
  dashboard/db.py): the live board from the hashes the stream writes, the query it falls back
  to, and the frames of the other panels. The dataframe library is the argument \<open>D\<close> of
  \<open>to_float\<close>; a frame is the list of its rows, a missing value is \<open>None\<close>. Strings order by code
  point.
\<close>

section \<open>The live board\<close>

definition STOCK_SYMBOLS :: "string list" where
  "STOCK_SYMBOLS = [''AMZN'', ''NVDA'', ''GOOGL'', ''TSLA'', ''NFLX'']"

record board_row =
  bd_symbol :: string
  bd_trade_ts :: int
  bd_price :: pyfloat
  bd_volume :: "pyfloat option"
  bd_day_open :: "pyfloat option"
  bd_day_high :: "pyfloat option"
  bd_day_low :: "pyfloat option"
  bd_trades_today :: "int option"

text \<open>\<open>raw[field]\<close>, then the conversion.\<close>

definition raw_field :: "(string \<times> string) list \<Rightarrow> string \<Rightarrow> (string \<Rightarrow> 'a result) \<Rightarrow> 'a result" where
  "raw_field raw field convert = (case map_of raw field of None \<Rightarrow> Inl KeyError | Some t \<Rightarrow> convert t)"

definition today_field ::
  "bool \<Rightarrow> (string \<times> string) list \<Rightarrow> string \<Rightarrow> (string \<Rightarrow> 'a result) \<Rightarrow> 'a option result" where
  "today_field is_today raw field convert =
     (if is_today then map_sum id Some (raw_field raw field convert) else Inr None)"

definition board_row_of :: "string \<Rightarrow> (string \<times> string) list \<Rightarrow> int \<Rightarrow> board_row result" where
  "board_row_of s raw today =
     rbind (raw_field raw ''day'' day_of_iso) (\<lambda>day.
     let is_today = (day = today) in
     rbind (raw_field raw ''trade_ts'' time_of_iso) (\<lambda>ts.
     rbind (raw_field raw ''price'' float_of_str) (\<lambda>p.
     rbind (raw_field raw ''volume'' float_of_str) (\<lambda>v.
     rbind (today_field is_today raw ''day_open'' float_of_str) (\<lambda>op.
     rbind (today_field is_today raw ''day_high'' float_of_str) (\<lambda>hi.
     rbind (today_field is_today raw ''day_low'' float_of_str) (\<lambda>lo.
     rbind (today_field is_today raw ''trades_today'' int_of_str) (\<lambda>n.
       Inr \<lparr> bd_symbol = s, bd_trade_ts = ts, bd_price = p, bd_volume = Some v, bd_day_open = op,
         bd_day_high = hi, bd_day_low = lo, bd_trades_today = n \<rparr>))))))))"

text \<open>\<open>None\<close> when a symbol has no hash, or when anything raises: Redis or a conversion.\<close>

definition read_live_board :: "exn option \<Rightarrow> redis \<Rightarrow> int \<Rightarrow> string list \<Rightarrow> board_row list option" where
  "read_live_board failure client today symbols = (case failure of
       Some e \<Rightarrow> None
     | None \<Rightarrow>
         let hashes = map (\<lambda>s. hgetall client (redis_key s)) symbols in
         if \<not> list_all (\<lambda>h. h \<noteq> []) hashes then None
         else case map_result (\<lambda>(s, raw). board_row_of s raw today) (zip symbols hashes) of
             Inl e \<Rightarrow> None
           | Inr rows \<Rightarrow> Some (sort_key bd_symbol rows))"

section \<open>The query behind it\<close>

text \<open>\<open>LATEST_SQL\<close>. Among rows of one time \<open>DISTINCT ON\<close> takes the first in table order.\<close>

definition sql_today :: "int \<Rightarrow> pg \<Rightarrow> string \<Rightarrow> raw_trade_row list" where
  "sql_today now db s = filter (\<lambda>r. rt_symbol r = s \<and> day_start (date_of now) \<le> rt_ts r) (raw_trades db)"

definition sql_latest_row :: "int \<Rightarrow> pg \<Rightarrow> string \<Rightarrow> raw_trade_row \<Rightarrow> raw_trade_row list \<Rightarrow> board_row" where
  "sql_latest_row now db s r rs =
     (let l = max_by rt_ts r rs; today = sql_today now db s
      in case today of
          [] \<Rightarrow> \<lparr> bd_symbol = s, bd_trade_ts = rt_ts l, bd_price = rt_price l, bd_volume = rt_volume l,
            bd_day_open = None, bd_day_high = None, bd_day_low = None, bd_trades_today = None \<rparr>
        | t # ts \<Rightarrow> \<lparr> bd_symbol = s, bd_trade_ts = rt_ts l, bd_price = rt_price l, bd_volume = rt_volume l,
            bd_day_open = Some (rt_price (min_by rt_ts t ts)),
            bd_day_high = Some (Max (rt_price ` set today)), bd_day_low = Some (Min (rt_price ` set today)),
            bd_trades_today = Some (int (length today)) \<rparr>)"

definition latest_rows :: "int \<Rightarrow> pg \<Rightarrow> board_row list" where
  "latest_rows now db = List.map_filter (\<lambda>s.
     (case filter (\<lambda>r. rt_symbol r = s) (raw_trades db) of
        [] \<Rightarrow> None | r # rs \<Rightarrow> Some (sql_latest_row now db s r rs)))
     (sort (remdups (map rt_symbol (raw_trades db))))"

section \<open>data.py\<close>

definition read_if_exists :: "bool \<Rightarrow> 'row list \<Rightarrow> 'row list" where
  "read_if_exists exists rows = (if exists then rows else [])"

text \<open>\<open>pd.to_numeric\<close> over the price columns: a missing number becomes NaN.\<close>

definition to_float :: "pandas \<Rightarrow> board_row list \<Rightarrow> board_row list" where
  "to_float D rows = map (\<lambda>r. r\<lparr> bd_price := to_numeric D (Some (bd_price r)),
     bd_volume := Some (to_numeric D (bd_volume r)), bd_day_open := Some (to_numeric D (bd_day_open r)),
     bd_day_high := Some (to_numeric D (bd_day_high r)), bd_day_low := Some (to_numeric D (bd_day_low r)) \<rparr>) rows"

definition latest_frame :: "pandas \<Rightarrow> bool \<Rightarrow> int \<Rightarrow> pg \<Rightarrow> board_row list" where
  "latest_frame D exists now db = to_float D (read_if_exists exists (latest_rows now db))"

definition live_board_frame ::
  "pandas \<Rightarrow> exn option \<Rightarrow> redis \<Rightarrow> bool \<Rightarrow> int \<Rightarrow> pg \<Rightarrow> board_row list" where
  "live_board_frame D failure client exists now db =
     (case read_live_board failure client (date_of now) STOCK_SYMBOLS of
        None \<Rightarrow> latest_frame D exists now db
      | Some board \<Rightarrow> to_float D board)"

text \<open>\<open>SESSIONS_SQL\<close>, \<open>ROLLUP_RUNS_SQL\<close>: newest first, twenty at most.\<close>

definition sessions_frame :: "bool \<Rightarrow> pg \<Rightarrow> session_row list" where
  "sessions_frame exists db = read_if_exists exists (take 20 (rev (sort_key ss_id (stream_sessions db))))"

definition rollup_runs_frame :: "bool \<Rightarrow> pg \<Rightarrow> run_row list" where
  "rollup_runs_frame exists db = read_if_exists exists (take 20 (rev (sort_key rr_id (rollup_runs db))))"

text \<open>\<open>CANDLE_STATUS_SQL\<close>; the second column is an estimate the database keeps.\<close>

definition candle_status_frame :: "bool \<Rightarrow> int \<Rightarrow> pg \<Rightarrow> (int option \<times> int) list" where
  "candle_status_frame exists estimate db = read_if_exists exists
     [(if candles db = [] then None else Some (Max (cd_minute ` set (candles db))), estimate)]"

definition newest :: "'row list \<Rightarrow> 'row option" where
  "newest frame = (case frame of [] \<Rightarrow> None | r # rs \<Rightarrow> Some r)"

text \<open>\<open>CANDLES_SQL\<close> and its four price columns; the 30-second cache of the page is not
  modelled.\<close>

definition read_candle_frame :: "bool \<Rightarrow> int \<Rightarrow> int \<Rightarrow> pg \<Rightarrow> candle_row list" where
  "read_candle_frame exists now hours db = read_if_exists exists
     (sort_key cd_symbol (sort_key cd_minute
       (filter (\<lambda>c. now - hours * 3600000000 \<le> cd_minute c) (candles db))))"

definition candles_frame :: "pandas \<Rightarrow> bool \<Rightarrow> int \<Rightarrow> int \<Rightarrow> pg \<Rightarrow> candle_row list" where
  "candles_frame D exists now hours db = map (\<lambda>c. c\<lparr> cd_open := to_numeric D (Some (cd_open c)),
     cd_high := to_numeric D (Some (cd_high c)), cd_low := to_numeric D (Some (cd_low c)),
     cd_close := to_numeric D (Some (cd_close c)) \<rparr>) (read_candle_frame exists now hours db)"

definition HISTORY_HOURS :: "env \<Rightarrow> int result" where
  "HISTORY_HOURS e = int_of_str (env_get e ''HISTORY_HOURS'' ''24'')"

section \<open>db.py\<close>

definition build_engine :: "string \<Rightarrow> string \<Rightarrow> string \<Rightarrow> env \<Rightarrow> string result" where
  "build_engine prefix default_host default_db e =
     (let host = env_get e (prefix @ ''_POSTGRES_HOST'') default_host;
          port = env_get e (prefix @ ''_POSTGRES_PORT'') ''5432'';
          db_name = env_get e (prefix @ ''_POSTGRES_DB'') default_db;
          user = env_get e (prefix @ ''_POSTGRES_USER'') ''postgres'';
          password = env_get e (prefix @ ''_POSTGRES_PASSWORD'') []
      in if password = [] then Inl (RuntimeError (prefix @ ''_POSTGRES_PASSWORD is not set. Check that docker-compose.yaml passes ./.env to the dashboard service.''))
         else Inr (''postgresql+psycopg2://'' @ user @ '':'' @ password @ ''@'' @ host @ '':'' @ port @
                   ''/'' @ db_name))"

definition get_destination_engine :: "env \<Rightarrow> string result" where
  "get_destination_engine e = build_engine ''DESTINATION'' ''destination_postgres'' ''destination_db'' e"

section \<open>Reading a hash the stream wrote\<close>

lemma from_redis_entry:
  "from_redis raw = Inr d \<Longrightarrow> map_of d f = Some v \<Longrightarrow>
   \<exists>t p. map_of raw f = Some t \<and> map_of PARSERS f = Some p \<and> parse p t = Inr v"
  by (induction raw arbitrary: d)
    (auto simp: from_redis_def rbind_eq_Inr parse_entry_def split: option.splits if_splits)

lemma parse_val:
  "parse p t = Inr (VFloat x) \<longleftrightarrow> p = P_float \<and> float_of_str t = Inr x"
  "parse p t = Inr (VTime i) \<longleftrightarrow> p = P_time \<and> time_of_iso t = Inr i"
  "parse p t = Inr (VDay i) \<longleftrightarrow> p = P_day \<and> day_of_iso t = Inr i"
  "parse p t = Inr (VInt i) \<longleftrightarrow> p = P_int \<and> int_of_str t = Inr i"
  by (cases p; cases "float_of_str t"; cases "time_of_iso t"; cases "day_of_iso t"; cases "int_of_str t";
      simp add: parse_def)+

lemma raw_field_parsed:
  assumes "from_redis raw = Inr d"
  shows "map_of d f = Some (VFloat x) \<Longrightarrow> raw_field raw f float_of_str = Inr x"
    "map_of d f = Some (VTime i) \<Longrightarrow> raw_field raw f time_of_iso = Inr i"
    "map_of d f = Some (VDay i) \<Longrightarrow> raw_field raw f day_of_iso = Inr i"
    "map_of d f = Some (VInt i) \<Longrightarrow> raw_field raw f int_of_str = Inr i"
  using from_redis_entry [OF assms, of f] by (auto simp: raw_field_def parse_val)

lemma board_row_of_stored:
  assumes "from_redis raw = Inr d" "holds_latest d t" "holds_stats d op hi lo n"
  shows "board_row_of s raw today = Inr (if date_of (trade_ts t) = today
    then \<lparr> bd_symbol = s, bd_trade_ts = trade_ts t, bd_price = price t, bd_volume = Some (volume t),
      bd_day_open = Some op, bd_day_high = Some hi, bd_day_low = Some lo, bd_trades_today = Some n \<rparr>
    else \<lparr> bd_symbol = s, bd_trade_ts = trade_ts t, bd_price = price t, bd_volume = Some (volume t),
      bd_day_open = None, bd_day_high = None, bd_day_low = None, bd_trades_today = None \<rparr>)"
  using assms(2,3)
  by (simp add: board_row_of_def Let_def today_field_def holds_latest_def holds_stats_def
      raw_field_parsed [OF assms(1)])

lemma sort_key_map: "sort_key f (map g xs) = map g (sort_key (\<lambda>x. f (g x)) xs)"
proof -
  have "insort_key f (g x) (map g ys) = map g (insort_key (\<lambda>x. f (g x)) x ys)" for x ys
    by (induction ys) simp_all
  then show ?thesis by (induction xs) simp_all
qed

lemma sort_key_by: "(\<And>s. s \<in> set xs \<Longrightarrow> k s = s) \<Longrightarrow> sort_key k xs = sort xs"
proof (rule properties_for_sort [symmetric])
  assume k: "\<And>s. s \<in> set xs \<Longrightarrow> k s = s"
  have "map k (sort_key k xs) = sort_key k xs" by (rule map_idI) (simp add: k)
  then show "sorted (sort_key k xs)" using sorted_sort_key [of k xs] by simp
qed simp

lemma read_live_board_rows:
  assumes "\<And>s. s \<in> set symbols \<Longrightarrow> hgetall client (redis_key s) \<noteq> [] \<and>
      board_row_of s (hgetall client (redis_key s)) today = Inr (row s) \<and> bd_symbol (row s) = s"
  shows "read_live_board None client today symbols = Some (map row (sort symbols))"
proof -
  have "map_result (\<lambda>(s, raw). board_row_of s raw today)
      (zip symbols (map (\<lambda>s. hgetall client (redis_key s)) symbols)) = Inr (map row symbols)"
    using assms by (induction symbols) simp_all
  moreover have "sort_key bd_symbol (map row symbols) = map row (sort symbols)"
  proof -
    have "sort_key (\<lambda>s. bd_symbol (row s)) symbols = sort symbols"
      using assms by (intro sort_key_by) auto
    then show ?thesis by (simp add: sort_key_map)
  qed
  moreover have "list_all (\<lambda>h. h \<noteq> []) (map (\<lambda>s. hgetall client (redis_key s)) symbols)"
    using assms by (auto simp: list_all_iff)
  ultimately show ?thesis by (simp add: read_live_board_def Let_def)
qed

text \<open>The board is read exactly when Redis answers and every symbol has a hash all of whose needed
  fields convert; otherwise the page falls back to the query, and never fails for Redis.\<close>

lemma live_board_fallback:
  "failure \<noteq> None \<or> (\<exists>s \<in> set STOCK_SYMBOLS. client (redis_key s) = []) \<Longrightarrow>
   live_board_frame D failure client exists now db = latest_frame D exists now db"
proof (cases failure)
  case None
  assume "failure \<noteq> None \<or> (\<exists>s \<in> set STOCK_SYMBOLS. client (redis_key s) = [])"
  with None have "\<not> list_all (\<lambda>h. h \<noteq> []) (map (\<lambda>s. hgetall client (redis_key s)) STOCK_SYMBOLS)"
    by (auto simp: list_all_iff hgetall_def)
  with None show ?thesis unfolding live_board_frame_def read_live_board_def Let_def by simp
qed (simp add: live_board_frame_def read_live_board_def)

section \<open>In step\<close>

text \<open>The hash of a symbol carries a trade of the day and the day's high, low and count.\<close>

definition in_step :: "redis \<Rightarrow> pg \<Rightarrow> int \<Rightarrow> string \<Rightarrow> bool" where
  "in_step client db day s \<longleftrightarrow> day_rows db s day \<noteq> [] \<and>
     (\<exists>d t. from_redis (hgetall client (redis_key s)) = Inr d \<and> holds_latest d t \<and>
        date_of (trade_ts t) = day \<and> coherent d (day_rows db s day))"

lemma fresh_in_step:
  assumes "from_redis (hgetall client (redis_key s)) = Inr d" "fresh_values db day bs d s"
  shows "in_step client db day s"
proof -
  have "d \<noteq> []" using assms(2) by (auto simp: fresh_values_def)
  then have "day_rows db s day \<noteq> []" using assms(2) by (auto simp: fresh_values_def coherent_def)
  with assms show ?thesis by (auto simp: in_step_def fresh_values_def holds_latest_def)
qed

definition day_stats :: "board_row \<Rightarrow> string \<times> pyfloat option \<times> pyfloat option \<times> int option" where
  "day_stats r = (bd_symbol r, bd_day_high r, bd_day_low r, bd_trades_today r)"

lemma board_row_in_step:
  assumes "in_step client db day s"
  shows "hgetall client (redis_key s) \<noteq> [] \<and>
    (\<exists>row. board_row_of s (hgetall client (redis_key s)) day = Inr row \<and> bd_symbol row = s \<and>
       day_stats row = (s, Some (Max (rt_price ` set (day_rows db s day))),
         Some (Min (rt_price ` set (day_rows db s day))), Some (int (length (day_rows db s day)))))"
proof -
  obtain d t where d: "from_redis (hgetall client (redis_key s)) = Inr d" "holds_latest d t"
    "date_of (trade_ts t) = day" "coherent d (day_rows db s day)" "day_rows db s day \<noteq> []"
    using assms by (auto simp: in_step_def)
  then obtain op where "holds_stats d op (Max (rt_price ` set (day_rows db s day)))
      (Min (rt_price ` set (day_rows db s day))) (int (length (day_rows db s day)))"
    by (auto simp: coherent_def)
  from board_row_of_stored [OF d(1,2) this] d(3) have
    "\<exists>row. board_row_of s (hgetall client (redis_key s)) day = Inr row \<and> bd_symbol row = s \<and>
       day_stats row = (s, Some (Max (rt_price ` set (day_rows db s day))),
         Some (Min (rt_price ` set (day_rows db s day))), Some (int (length (day_rows db s day))))"
    by (simp add: day_stats_def)
  moreover have "hgetall client (redis_key s) \<noteq> []"
    using d(1,2) by (auto simp: from_redis_def holds_latest_def)
  ultimately show ?thesis by blast
qed

text \<open>The query's row, when no stored trade lies after the day.\<close>

lemma sql_today_day_rows:
  assumes "\<forall>r \<in> set (raw_trades db). rt_ts r < day_start (date_of now + 1)"
  shows "sql_today now db s = day_rows db s (date_of now)"
  using assms unfolding sql_today_def day_rows_def by (intro filter_cong) auto

lemma sql_latest_row_stats:
  assumes "\<forall>r \<in> set (raw_trades db). rt_ts r < day_start (date_of now + 1)" "day_rows db s (date_of now) \<noteq> []"
  shows "day_stats (sql_latest_row now db s r rs) =
    (s, Some (Max (rt_price ` set (day_rows db s (date_of now)))),
     Some (Min (rt_price ` set (day_rows db s (date_of now)))), Some (int (length (day_rows db s (date_of now)))))"
  using assms by (simp add: sql_latest_row_def Let_def sql_today_day_rows day_stats_def split: list.splits)

lemma map_filter_Some: "(\<And>x. x \<in> set xs \<Longrightarrow> f x = Some (g x)) \<Longrightarrow> List.map_filter f xs = map g xs"
  by (induction xs) (simp_all add: List.map_filter_simps)

lemma latest_rows_of:
  assumes "set symbols \<subseteq> rt_symbol ` set (raw_trades db)" "distinct symbols"
  obtains row where "filter (\<lambda>r. bd_symbol r \<in> set symbols) (latest_rows now db) = map row (sort symbols)"
    "\<And>s. s \<in> set symbols \<Longrightarrow> \<exists>r rs. row s = sql_latest_row now db s r rs"
proof -
  define row where "row s = (case filter (\<lambda>r. rt_symbol r = s) (raw_trades db) of
      r # rs \<Rightarrow> sql_latest_row now db s r rs)" for s
  let ?all = "sort (remdups (map rt_symbol (raw_trades db)))"
  have row: "(case filter (\<lambda>r. rt_symbol r = s) (raw_trades db) of
        [] \<Rightarrow> None | r # rs \<Rightarrow> Some (sql_latest_row now db s r rs)) = Some (row s) \<and>
      (\<exists>r rs. row s = sql_latest_row now db s r rs) \<and> bd_symbol (row s) = s" if "s \<in> set ?all" for s
  proof -
    have "filter (\<lambda>r. rt_symbol r = s) (raw_trades db) \<noteq> []" using that by (auto simp: filter_empty_conv)
    then show ?thesis
      by (auto simp: row_def sql_latest_row_def Let_def neq_Nil_conv split: list.splits)
  qed
  have "latest_rows now db = map row ?all"
    unfolding latest_rows_def by (rule map_filter_Some) (use row in blast)
  moreover have "filter (\<lambda>r. bd_symbol r \<in> set symbols) (map row ?all) = map row (filter (\<lambda>s. s \<in> set symbols) ?all)"
    unfolding filter_map comp_def using row by (intro arg_cong [where f = "map row"] filter_cong) simp_all
  moreover have "filter (\<lambda>s. s \<in> set symbols) ?all = sort symbols"
    using assms by (intro sorted_distinct_set_unique) (auto simp: sorted_filter [of id, simplified])
  moreover have "set symbols \<subseteq> set ?all" using assms(1) by simp
  ultimately show thesis using that [of row] row by (metis subsetD)
qed

section \<open>The two sources agree\<close>

lemma boards_agree:
  assumes "\<And>s. s \<in> set STOCK_SYMBOLS \<Longrightarrow> in_step client db (date_of now) s"
    "\<forall>r \<in> set (raw_trades db). rt_ts r < day_start (date_of now + 1)"
  shows "\<exists>board. read_live_board None client (date_of now) STOCK_SYMBOLS = Some board \<and>
    map day_stats board = map day_stats (filter (\<lambda>r. bd_symbol r \<in> set STOCK_SYMBOLS) (latest_rows now db))"
proof -
  have "\<exists>row. \<forall>s \<in> set STOCK_SYMBOLS. hgetall client (redis_key s) \<noteq> [] \<and>
      board_row_of s (hgetall client (redis_key s)) (date_of now) = Inr (row s) \<and> bd_symbol (row s) = s \<and>
      day_stats (row s) = (s, Some (Max (rt_price ` set (day_rows db s (date_of now)))),
         Some (Min (rt_price ` set (day_rows db s (date_of now)))), Some (int (length (day_rows db s (date_of now)))))"
    using board_row_in_step [OF assms(1)] by metis
  then obtain row where row: "\<And>s. s \<in> set STOCK_SYMBOLS \<Longrightarrow> hgetall client (redis_key s) \<noteq> [] \<and>
      board_row_of s (hgetall client (redis_key s)) (date_of now) = Inr (row s) \<and> bd_symbol (row s) = s"
    "\<And>s. s \<in> set STOCK_SYMBOLS \<Longrightarrow> day_stats (row s) = (s, Some (Max (rt_price ` set (day_rows db s (date_of now)))),
         Some (Min (rt_price ` set (day_rows db s (date_of now)))), Some (int (length (day_rows db s (date_of now)))))"
    by metis
  have ne: "day_rows db s (date_of now) \<noteq> []" if "s \<in> set STOCK_SYMBOLS" for s
    using assms(1) [OF that] by (simp add: in_step_def)
  then have "set STOCK_SYMBOLS \<subseteq> rt_symbol ` set (raw_trades db)"
    by (fastforce simp: day_rows_def filter_empty_conv)
  moreover have "distinct STOCK_SYMBOLS" by (simp add: STOCK_SYMBOLS_def)
  ultimately obtain sql where sql:
    "filter (\<lambda>r. bd_symbol r \<in> set STOCK_SYMBOLS) (latest_rows now db) = map sql (sort STOCK_SYMBOLS)"
    "\<And>s. s \<in> set STOCK_SYMBOLS \<Longrightarrow> \<exists>r rs. sql s = sql_latest_row now db s r rs"
    using latest_rows_of by blast
  have "day_stats (sql s) = day_stats (row s)" if "s \<in> set STOCK_SYMBOLS" for s
    using sql(2) [OF that] sql_latest_row_stats [OF assms(2) ne [OF that]] row(2) [OF that] by auto
  then have "map day_stats (map row (sort STOCK_SYMBOLS)) = map day_stats (map sql (sort STOCK_SYMBOLS))" by simp
  with read_live_board_rows [of STOCK_SYMBOLS client "date_of now" row] row(1) sql(1) show ?thesis by simp
qed

lemma in_step_untouched:
  assumes "insert_rows now trades db = Inr db'" "s \<notin> symbol ` set trades" "client' (redis_key s) = client (redis_key s)"
    "in_step client db day s"
  shows "in_step client' db' day s"
proof -
  obtain new where "day_rows db' s day = day_rows db s day @ new"
    "list_all2 stored_as new (filter (\<lambda>t. symbol t = s \<and> date_of (trade_ts t) = day) trades)"
    using day_rows_insert [OF assms(1)] by metis
  moreover have "filter (\<lambda>t. symbol t = s \<and> date_of (trade_ts t) = day) trades = []"
    using assms(2) by (auto simp: filter_empty_conv)
  ultimately have "day_rows db' s day = day_rows db s day" by simp
  with assms(3,4) show ?thesis by (simp add: in_step_def hgetall_def)
qed

section \<open>Properties\<close>

text \<open>
  C9: The fast path and the fallback show the same figures: after a flush that loads the live
  prices, inserts its batch and has its write applied by Redis, the board read from Redis on that day has, for every watched
  symbol in the same order, the day's high, low and number of trades that the query over
  \<open>raw_trades\<close> returns. The conditions: the batch is of today, its trades usable and none with a NaN
  price; no trade stored before has a NaN price or a time after today; every hash of Redis holds
  the service's fields only, each once; for every symbol of the batch the flush reseeded or its hash was in step with the
  table; and every watched symbol that is not in the batch was in step before, with a trade today.
\<close>

theorem live_board_agrees_with_query:
  assumes "load_live_prices rf pf client db trades reseed = Some stored" "day_batch (date_of now) trades"
    "stored_prices_ok db" "insert_rows stamp trades db = Inr db'" "redis_ok client"
    "\<forall>s \<in> symbol ` set trades. reseed \<or> synced client db (date_of now) s"
    "save_live_prices Done client stored trades = (ok, client')"
    "\<forall>s \<in> set STOCK_SYMBOLS. s \<in> symbol ` set trades \<or> in_step client db (date_of now) s"
    "\<forall>r \<in> set (raw_trades db). rt_ts r < day_start (date_of now + 1)"
  shows "\<exists>board. read_live_board None client' (date_of now) STOCK_SYMBOLS = Some board \<and>
    map day_stats board = map day_stats (filter (\<lambda>r. bd_symbol r \<in> set STOCK_SYMBOLS) (latest_rows now db'))"
proof (rule boards_agree)
  note f = flush_hashes [OF assms(1-7)]
  show "in_step client' db' (date_of now) s" if "s \<in> set STOCK_SYMBOLS" for s
  proof (cases "s \<in> symbol ` set trades")
    case True
    from f(4) [OF this] show ?thesis using fresh_in_step by blast
  next
    case False
    then have "client' (redis_key s) = client (redis_key s)" by (intro f(3)) (auto simp: image_iff)
    moreover have "in_step client db (date_of now) s" using assms(8) that False by blast
    ultimately show ?thesis using in_step_untouched [OF assms(4) False] by blast
  qed
  show "\<forall>r \<in> set (raw_trades db'). rt_ts r < day_start (date_of now + 1)"
  proof
    fix r assume r: "r \<in> set (raw_trades db')"
    obtain rows where rows: "raw_trades db' = raw_trades db @ rows" "list_all2 stored_as rows trades"
      using insert_rows_stored [OF assms(4)] by metis
    show "rt_ts r < day_start (date_of now + 1)"
    proof (cases "r \<in> set (raw_trades db)")
      case False
      with r rows obtain t where "t \<in> set trades" "stored_as r t" by (auto dest: list_all2_in_left)
      with assms(2) have "rt_ts r = trade_ts t" "date_of (trade_ts t) = date_of now"
        by (auto simp: day_batch_def stored_as_def)
      then show ?thesis by (simp add: date_of_iff)
    qed (use assms(9) in blast)
  qed
qed

definition opening_batch :: "trade list" where
  "opening_batch = map (\<lambda>s. (sample 1 (Fin 5))\<lparr> symbol := s \<rparr>) STOCK_SYMBOLS"

theorem live_board_agrees_with_query_witness:
  "\<exists>db' client' board. insert_rows 0 opening_batch empty_pg = Inr db' \<and>
     read_live_board None client' 0 STOCK_SYMBOLS = Some board \<and>
     map day_stats board = map day_stats (filter (\<lambda>r. bd_symbol r \<in> set STOCK_SYMBOLS) (latest_rows 5 db'))"
proof -
  have syms: "batch_symbols opening_batch = [''AMZN'', ''GOOGL'', ''NFLX'', ''NVDA'', ''TSLA'']" by code_simp
  have ob: "symbol ` set opening_batch = set STOCK_SYMBOLS" "opening_batch \<noteq> []"
    "t \<in> set opening_batch \<Longrightarrow> trade_ts t = 1 \<and> price t = Fin 5 \<and> trade_ok t" for t
    using sample_ok by (auto simp: opening_batch_def STOCK_SYMBOLS_def sample_def trade_ok_def)
  obtain lt where lt: "py_max trade_ts opening_batch = Inr lt" "trade_ts lt = 1"
    using latest_exists [OF ob(2)] ob(3) by metis
  have load: "\<exists>stored. load_live_prices None None (\<lambda>k. []) empty_pg opening_batch True = Some stored"
    using ob(2) by (simp add: load_live_prices_def lt syms date_of_def stored_day_def transaction_def
        read_day_stats_def day_in_range_def Let_def)
  have ins: "\<exists>db'. insert_rows 0 opening_batch empty_pg = Inr db'"
    by (simp add: opening_batch_def STOCK_SYMBOLS_def trade_error_def sample_def text_error_def numeric_error_def)
  from load ins obtain stored db' where s: "load_live_prices None None (\<lambda>k. []) empty_pg opening_batch True = Some stored"
    "insert_rows 0 opening_batch empty_pg = Inr db'" by blast
  obtain ok client' where w: "save_live_prices Done (\<lambda>k. []) stored opening_batch = (ok, client')" by fastforce
  have d: "day_batch (date_of 5) opening_batch" using ob by (auto simp: day_batch_def date_of_def)
  have pre: "stored_prices_ok empty_pg" "redis_ok (\<lambda>k. [])"
    by (simp_all add: stored_prices_ok_def empty_pg_def redis_ok_def)
  have "\<exists>board. read_live_board None client' (date_of 5) STOCK_SYMBOLS = Some board \<and>
    map day_stats board = map day_stats (filter (\<lambda>r. bd_symbol r \<in> set STOCK_SYMBOLS) (latest_rows 5 db'))"
    by (rule live_board_agrees_with_query [OF s(1) d pre(1) s(2) pre(2) _ w]) (simp_all add: ob(1) empty_pg_def)
  moreover have "date_of 5 = 0" by (simp add: date_of_def)
  ultimately show ?thesis using s(2) by auto
qed

text \<open>A batch of late trades moves the live price back to one of them, while the query keeps the
  trade with the greatest time.\<close>

lemma late_batch_moves_price_back:
  "\<exists>v. merge_all [] [[sample 20 (Fin 7)], [sample 10 (Fin 5)]] = Inr v \<and> map_of v ''price'' = Some (VFloat (Fin 5))"
  by (simp add: merge_def sample_def py_max_def py_min_def fmax_list_def fmin_list_def vget_def
      number_def add_count_def)

end
