(* ===== verification/DashStatus.thy ===== *)
theory DashStatus
  imports PyFloat Tables PyText
begin

text \<open>
  What the dashboard says of a stream session and of a rollup run (dashboard/status.py). A
  missing value (\<open>None\<close>, NaN or NaT in a frame) is \<open>None\<close>. The dataframe library's
  \<open>Timedelta.total_seconds\<close> is an argument; \<open>now\<close> is in microseconds.
\<close>

section \<open>Formatting\<close>

text \<open>\<open>f"{x:.nf}"\<close> of a finite float: its exact value rounded half to even at the digit.\<close>

definition point_digits :: "nat \<Rightarrow> nat \<Rightarrow> string" where
  "point_digits n ds = (let text = nat_digits ds; padded = replicate (Suc n - length text) CHR ''0'' @ text;
     k = length padded - n in take k padded @ (if n = 0 then [] else CHR ''.'' # drop k padded))"

definition fixed :: "nat \<Rightarrow> pyfloat \<Rightarrow> string" where
  "fixed n x = (case x of
       Fin q \<Rightarrow> (if q < 0 then ''-'' else []) @ point_digits n (nat (rhe (\<bar>q\<bar> * 10 ^ n)))
     | PosInf \<Rightarrow> ''inf'' | NegInf \<Rightarrow> ''-inf'' | NaN \<Rightarrow> ''nan'')"

definition SECONDS_PER_MINUTE :: rat where "SECONDS_PER_MINUTE = 60"

definition SECONDS_PER_HOUR :: rat where "SECONDS_PER_HOUR = 3600"

definition format_age :: "pyfloat option \<Rightarrow> string" where
  "format_age seconds = (case seconds of
       None \<Rightarrow> ''never''
     | Some s \<Rightarrow>
         if py_lt s (Fin SECONDS_PER_MINUTE) then fixed 0 s @ ''s ago''
         else if py_lt s (Fin SECONDS_PER_HOUR) then fixed 0 (fdiv_const s SECONDS_PER_MINUTE) @ ''m ago''
         else fixed 1 (fdiv_const s SECONDS_PER_HOUR) @ ''h ago'')"

section \<open>Statuses\<close>

datatype level = OK | WARN | ERR | IDLE

record status =
  st_level :: level
  st_label :: string
  st_detail :: string

definition EXTENDED_SESSIONS :: "string list" where
  "EXTENDED_SESSIONS = [''pre-market'', ''post-market'']"

text \<open>\<open>_text\<close>: a missing or an empty text is nothing.\<close>

definition text_or_none :: "string option \<Rightarrow> string option" where
  "text_or_none v = (case v of None \<Rightarrow> None | Some t \<Rightarrow> if t = [] then None else Some t)"

definition seconds_since :: "(int \<Rightarrow> pyfloat) \<Rightarrow> int \<Rightarrow> int option \<Rightarrow> pyfloat option" where
  "seconds_since total_seconds now v = map_option (\<lambda>t. total_seconds (now - t)) v"

definition or_text :: "string option \<Rightarrow> string \<Rightarrow> string" where
  "or_text t dflt = (case t of None \<Rightarrow> dflt | Some x \<Rightarrow> x)"

definition dot_sep :: string where
  "dot_sep = [CHR '' '', CHR 0xB7, CHR '' '']"

definition stream_status ::
  "(int \<Rightarrow> pyfloat) \<Rightarrow> session_row option \<Rightarrow> pyfloat \<Rightarrow> int \<Rightarrow> status" where
  "stream_status total_seconds session stale_after now = (case session of
       None \<Rightarrow> \<lparr> st_level = IDLE, st_label = ''Not started'',
         st_detail = ''No stream session recorded yet. Start the `stream` service.'' \<rparr>
     | Some r \<Rightarrow>
         if ss_status r = ''failed''
         then \<lparr> st_level = ERR, st_label = ''Stream failed'',
           st_detail = or_text (text_or_none (ss_error_message r)) ''The last session ended in an error.'' \<rparr>
         else case seconds_since total_seconds now (ss_last_message_at r) of
             None \<Rightarrow> \<lparr> st_level = WARN, st_label = ''Connecting'',
               st_detail = ''Socket opened, but Finnhub has not sent anything yet.'' \<rparr>
           | Some message_age \<Rightarrow>
               if py_lt stale_after message_age
               then \<lparr> st_level = ERR, st_label = ''Stream stale'',
                 st_detail = ''Last message '' @ format_age (Some message_age) @
                   ''. Check the `stream` container logs.'' \<rparr>
               else let market = text_or_none (ss_market_session r);
                        last_trade = ''last trade '' @ format_age (seconds_since total_seconds now (ss_last_trade_at r))
                 in if ss_market_open r = Some True
                    then \<lparr> st_level = OK, st_label = ''Live'',
                      st_detail = ''US market open ('' @ or_text market ''regular'' @ '')'' @ dot_sep @ last_trade \<rparr>
                    else if market \<in> Some ` set EXTENDED_SESSIONS
                    then \<lparr> st_level = OK, st_label = ''Live'',
                      st_detail = ''Regular session closed, '' @ or_text market [] @ dot_sep @ last_trade \<rparr>
                    else \<lparr> st_level = IDLE, st_label = ''Market closed'',
                      st_detail = ''Connected and healthy'' @ dot_sep @ last_trade @ ''. Prices resume at the open.'' \<rparr>)"

definition rollup_status ::
  "(int \<Rightarrow> pyfloat) \<Rightarrow> run_row option \<Rightarrow> int option \<Rightarrow> int option \<Rightarrow> pyfloat \<Rightarrow> int \<Rightarrow> status" where
  "rollup_status total_seconds run newest_candle_at last_trade_at grace now = (case run of
       None \<Rightarrow> \<lparr> st_level = IDLE, st_label = ''Not started'',
         st_detail = ''No rollup run recorded yet. Start the `rollup` service.'' \<rparr>
     | Some r \<Rightarrow>
         if rr_status r = ''failed''
         then \<lparr> st_level = ERR, st_label = ''Rollup failed'',
           st_detail = or_text (text_or_none (rr_error_message r)) ''The last run ended in an error.'' \<rparr>
         else let candle_age = seconds_since total_seconds now newest_candle_at;
                  trade_age = seconds_since total_seconds now last_trade_at;
                  trades_flowing = (case trade_age of None \<Rightarrow> False | Some a \<Rightarrow> py_lt a grace);
                  candles_behind = (case candle_age of None \<Rightarrow> True | Some a \<Rightarrow> py_lt grace a)
           in if trades_flowing \<and> candles_behind
              then \<lparr> st_level = WARN, st_label = ''Behind'',
                st_detail = ''Trades are arriving ('' @ format_age trade_age @ '') but the newest candle is '' @
                  format_age candle_age @ ''. Check the `rollup` container.'' \<rparr>
              else \<lparr> st_level = OK, st_label = ''Up to date'',
                st_detail = ''Newest candle '' @ format_age candle_age \<rparr>)"

section \<open>When they raise an alarm\<close>

text \<open>The stream is a fault exactly when the session failed or its last message is older than the
  limit; the rollup is one exactly when the run failed, and is behind exactly when a trade is
  younger than the grace period and no candle is.\<close>

lemma stream_fault_iff:
  "st_level (stream_status ts (Some r) stale now) = ERR \<longleftrightarrow>
     ss_status r = ''failed'' \<or>
     (\<exists>t. ss_last_message_at r = Some t \<and> py_lt stale (ts (now - t)))"
  by (auto simp: stream_status_def seconds_since_def Let_def split: option.splits)

lemma rollup_fault_iff:
  "st_level (rollup_status ts (Some r) candle trade grace now) = ERR \<longleftrightarrow> rr_status r = ''failed''"
  by (auto simp: rollup_status_def Let_def)

lemma rollup_behind_iff:
  "st_level (rollup_status ts (Some r) candle trade grace now) = WARN \<longleftrightarrow> rr_status r \<noteq> ''failed'' \<and>
     (\<exists>t. trade = Some t \<and> py_lt (ts (now - t)) grace) \<and>
     (\<forall>c. candle = Some c \<longrightarrow> py_lt grace (ts (now - c)))"
  by (auto simp: rollup_status_def seconds_since_def Let_def split: option.splits)

lemma nat_digits_eval:
  "nat_digits (numeral k) = (if (numeral k :: nat) < 10 then [char_of (48 + numeral k :: nat)]
     else nat_digits (numeral k div 10) @ [char_of (48 + numeral k mod 10 :: nat)])"
  "nat_digits (Suc 0) = ''1''" "nat_digits 0 = ''0''"
  "char_of (numeral m :: nat) = Char (odd (numeral m :: nat)) (bit (numeral m :: nat) 1) (bit (numeral m :: nat) 2)
     (bit (numeral m :: nat) 3) (bit (numeral m :: nat) 4) (bit (numeral m :: nat) 5) (bit (numeral m :: nat) 6)
     (bit (numeral m :: nat) 7)"
  by (subst nat_digits.simps, simp add: char_of_def bit_0)+ (simp add: char_of_def bit_0)

lemma format_age_units:
  "format_age None = ''never''" "format_age (Some (Fin 12)) = ''12s ago''"
  "format_age (Some (Fin 120)) = ''2m ago''" "format_age (Some (Fin 7200)) = ''2.0h ago''"
  by (simp_all add: format_age_def fixed_def point_digits_def py_lt_def less_pyfloat_def rhe_def Let_def
      SECONDS_PER_MINUTE_def SECONDS_PER_HOUR_def nat_digits_eval bit_0 rnd_double is_double_numeral)

end
