(* ===== verification/DashUi.thy ===== *)
theory DashUi
  imports DashStatus PyEnv
begin

text \<open>
  The dashboard's settings and the markup it builds itself (dashboard/ui.py): colours, the status
  pill, and \<open>to_html\<close>, which escapes a text and turns its backtick spans into code elements.
\<close>

section \<open>Settings\<close>

record ui_settings =
  API_BASE_URL :: string
  REDIS_URL :: string
  API_TIMEOUT_SECONDS :: pyfloat
  STALE_AFTER_SECONDS :: pyfloat

definition read_ui_settings :: "env \<Rightarrow> ui_settings result" where
  "read_ui_settings e =
     rbind (float_of_str (env_get e ''API_TIMEOUT_SECONDS'' ''10'')) (\<lambda>timeout.
     rbind (float_of_str (env_get e ''STALE_AFTER_SECONDS'' ''90'')) (\<lambda>stale.
       Inr \<lparr> API_BASE_URL = env_get e ''API_BASE_URL'' ''http://api:8000'',
         REDIS_URL = env_get e ''REDIS_URL'' ''redis://redis:6379/0'',
         API_TIMEOUT_SECONDS = timeout, STALE_AFTER_SECONDS = stale \<rparr>))"

definition CANDLE_LAG_GRACE_SECONDS :: pyfloat where "CANDLE_LAG_GRACE_SECONDS = Fin 300"

definition UP_COLOR :: string where "UP_COLOR = ''#16A34A''"

definition DOWN_COLOR :: string where "DOWN_COLOR = ''#DC2626''"

definition MUTED_COLOR :: string where "MUTED_COLOR = ''#64748B''"

definition LEVEL_COLORS :: "level \<Rightarrow> string" where
  "LEVEL_COLORS l = (case l of OK \<Rightarrow> UP_COLOR | WARN \<Rightarrow> ''#D97706'' | ERR \<Rightarrow> DOWN_COLOR | IDLE \<Rightarrow> MUTED_COLOR)"

section \<open>Markup\<close>

text \<open>\<open>html.escape\<close> with quotes: the five replacements, the ampersand first, act on each character
  on its own.\<close>

abbreviation quote_char :: char where "quote_char \<equiv> CHR 0x27"

definition escape_char :: "char \<Rightarrow> string" where
  "escape_char c = (if c = CHR ''&'' then ''&amp;'' else if c = CHR ''<'' then ''&lt;''
     else if c = CHR ''>'' then ''&gt;'' else if c = CHR 0x22 then ''&quot;''
     else if c = quote_char then ''&#x27;'' else [c])"

definition html_escape :: "string \<Rightarrow> string" where
  "html_escape text = concat (map escape_char text)"

abbreviation tick :: char where "tick \<equiv> CHR 0x60"

text \<open>\<open>INLINE_CODE.sub\<close>: from the left, a backtick, a longest run of at least one other character,
  and the backtick after it.\<close>

function inline_code :: "string \<Rightarrow> string" where
  "inline_code [] = []"
| "inline_code (c # cs) =
     (let run = takeWhile (\<lambda>x. x \<noteq> tick) cs; rest = dropWhile (\<lambda>x. x \<noteq> tick) cs
      in if c = tick \<and> run \<noteq> [] \<and> rest \<noteq> []
         then ''<code>'' @ run @ ''</code>'' @ inline_code (tl rest)
         else c # inline_code cs)"
  by pat_completeness auto
termination
proof (relation "measure length")
  fix c :: char and cs :: string and run rest
  assume "rest = dropWhile (\<lambda>x. x \<noteq> tick) cs"
  then have "length rest \<le> length cs" by (simp add: length_dropWhile_le)
  then show "(tl rest, c # cs) \<in> measure length" by simp
qed simp_all

definition to_html :: "string \<Rightarrow> string" where
  "to_html text = inline_code (html_escape text)"

definition level_dot :: "level \<Rightarrow> string" where
  "level_dot l = ''<span class=\"dot\" style=\"background:'' @ LEVEL_COLORS l @ ''\"></span>''"

definition status_pill :: "status \<Rightarrow> string" where
  "status_pill state = ''<div class=\"pill\">'' @ level_dot (st_level state) @
     ''<span class=\"label\">'' @ html_escape (st_label state) @ ''</span>'' @
     ''<span class=\"detail\">'' @ to_html (st_detail state) @ ''</span></div>''"

section \<open>Reading the markup back\<close>

text \<open>What a browser makes of the escaped text.\<close>

definition entities :: "(string \<times> char) list" where
  "entities = [(''&amp;'', CHR ''&''), (''&lt;'', CHR ''<''), (''&gt;'', CHR ''>''),
     (''&quot;'', CHR 0x22), (''&#x27;'', quote_char)]"

function html_unescape :: "string \<Rightarrow> string" where
  "html_unescape [] = []"
| "html_unescape (c # cs) = (case List.find (\<lambda>(e, x). take (length e) (c # cs) = e \<and> e \<noteq> []) entities of
       Some (e, x) \<Rightarrow> x # html_unescape (drop (length e) (c # cs))
     | None \<Rightarrow> c # html_unescape cs)"
  by pat_completeness auto
termination
  by (relation "measure length") (auto simp: find_Some_iff)

lemma unescape_plain: "c \<noteq> CHR ''&'' \<Longrightarrow> html_unescape (c # cs) = c # html_unescape cs"
  by (simp add: entities_def)

lemma unescape_entity:
  "html_unescape (''&amp;'' @ t) = CHR ''&'' # html_unescape t"
  "html_unescape (''&lt;'' @ t) = CHR ''<'' # html_unescape t"
  "html_unescape (''&gt;'' @ t) = CHR ''>'' # html_unescape t"
  "html_unescape (''&quot;'' @ t) = CHR 0x22 # html_unescape t"
  "html_unescape (''&#x27;'' @ t) = quote_char # html_unescape t"
  by (simp_all add: entities_def)

lemma unescape_escape_char: "html_unescape (escape_char c @ t) = c # html_unescape t"
  using unescape_entity unescape_plain by (simp add: escape_char_def del: html_unescape.simps)

lemma html_unescape_escape: "html_unescape (html_escape t) = t"
  by (induction t) (simp_all add: html_escape_def unescape_escape_char)

definition markup :: "char set" where
  "markup = {CHR ''<'', CHR ''>'', CHR 0x22, quote_char}"

lemma escaped_has_no_markup: "set (html_escape text) \<inter> markup = {}"
  by (auto simp: html_escape_def escape_char_def markup_def split: if_splits)

section \<open>Code spans\<close>

text \<open>The pieces of a text: what it is made of and what the page shows for it.\<close>

datatype piece = Plain string | Code string

fun source_of :: "piece \<Rightarrow> string" where
  "source_of (Plain s) = s"
| "source_of (Code s) = tick # s @ [tick]"

fun shown_as :: "piece \<Rightarrow> string" where
  "shown_as (Plain s) = html_escape s"
| "shown_as (Code s) = ''<code>'' @ html_escape s @ ''</code>''"

text \<open>A span: a backtick, at least one other character, and the next backtick.\<close>

fun has_span :: "string \<Rightarrow> bool" where
  "has_span [] = False"
| "has_span (c # cs) = (c = tick \<and> takeWhile (\<lambda>x. x \<noteq> tick) cs \<noteq> [] \<and> dropWhile (\<lambda>x. x \<noteq> tick) cs \<noteq> [] \<or> has_span cs)"

text \<open>The cutting of a text at its spans, the leftmost first: no span lies within a plain piece, nor ends
  with the backtick that opens the code after it.\<close>

fun pieces_ok :: "piece list \<Rightarrow> bool" where
  "pieces_ok [] = True"
| "pieces_ok (Code s # ps) = (s \<noteq> [] \<and> tick \<notin> set s \<and> pieces_ok ps)"
| "pieces_ok [Plain p] = (p \<noteq> [] \<and> \<not> has_span p)"
| "pieces_ok (Plain p # Code s # ps) = (p \<noteq> [] \<and> \<not> has_span (p @ [tick]) \<and> pieces_ok (Code s # ps))"
| "pieces_ok (Plain p # Plain q # ps) = False"

fun more_plain :: "char \<Rightarrow> piece list \<Rightarrow> piece list" where
  "more_plain c (Plain p # ps) = Plain (c # p) # ps"
| "more_plain c ps = Plain [c] # ps"

function pieces_of :: "string \<Rightarrow> piece list" where
  "pieces_of [] = []"
| "pieces_of (c # cs) =
     (let run = takeWhile (\<lambda>x. x \<noteq> tick) cs; rest = dropWhile (\<lambda>x. x \<noteq> tick) cs
      in if c = tick \<and> run \<noteq> [] \<and> rest \<noteq> [] then Code run # pieces_of (tl rest)
         else more_plain c (pieces_of cs))"
  by pat_completeness auto
termination
proof (relation "measure length")
  fix c :: char and cs :: string and run rest
  assume "rest = dropWhile (\<lambda>x. x \<noteq> tick) cs"
  then have "length rest \<le> length cs" by (simp add: length_dropWhile_le)
  then show "(tl rest, c # cs) \<in> measure length" by simp
qed simp_all

lemma span_cut:
  assumes "dropWhile (\<lambda>x. x \<noteq> tick) cs \<noteq> []"
  obtains rest where "cs = takeWhile (\<lambda>x. x \<noteq> tick) cs @ tick # rest" "dropWhile (\<lambda>x. x \<noteq> tick) cs = tick # rest"
  using assms hd_dropWhile [of "\<lambda>x. x \<noteq> tick" cs] takeWhile_dropWhile_id [of "\<lambda>x. x \<noteq> tick" cs]
  by (cases "dropWhile (\<lambda>x. x \<noteq> tick) cs") (auto intro: that)

lemma more_plain_source: "concat (map source_of (more_plain c ps)) = c # concat (map source_of ps)"
  by (cases "(c, ps)" rule: more_plain.cases) simp_all

lemma pieces_of_source: "concat (map source_of (pieces_of t)) = t"
proof (induction t rule: pieces_of.induct)
  case (2 c cs)
  show ?case
  proof (cases "c = tick \<and> takeWhile (\<lambda>x. x \<noteq> tick) cs \<noteq> [] \<and> dropWhile (\<lambda>x. x \<noteq> tick) cs \<noteq> []")
    case True
    then obtain rest where rest: "cs = takeWhile (\<lambda>x. x \<noteq> tick) cs @ tick # rest" "dropWhile (\<lambda>x. x \<noteq> tick) cs = tick # rest"
      using span_cut by blast
    with 2(1) True have "concat (map source_of (pieces_of (c # cs))) = tick # takeWhile (\<lambda>x. x \<noteq> tick) cs @ tick # rest"
      by simp
    with True rest(1) show ?thesis by simp
  next
    case False
    with 2(2) show ?thesis by (auto simp: more_plain_source)
  qed
qed simp

text \<open>A backtick that opens no span of the whole text opens none of a beginning of it.\<close>

lemma no_span_prefix:
  assumes "\<not> (takeWhile (\<lambda>x. x \<noteq> tick) (p @ q) \<noteq> [] \<and> dropWhile (\<lambda>x. x \<noteq> tick) (p @ q) \<noteq> [])"
  shows "\<not> (takeWhile (\<lambda>x. x \<noteq> tick) p \<noteq> [] \<and> dropWhile (\<lambda>x. x \<noteq> tick) p \<noteq> [])"
  using assms by (cases p) (auto simp: takeWhile_append dropWhile_append split: if_splits)

lemma pieces_ok_more_plain:
  assumes "pieces_ok ps"
    and "\<not> (c = tick \<and> takeWhile (\<lambda>x. x \<noteq> tick) (concat (map source_of ps)) \<noteq> [] \<and>
      dropWhile (\<lambda>x. x \<noteq> tick) (concat (map source_of ps)) \<noteq> [])"
  shows "pieces_ok (more_plain c ps)"
  using assms
proof (cases ps rule: pieces_ok.cases)
  case (4 p s qs)
  with assms no_span_prefix [of "p @ [tick]" "s @ tick # concat (map source_of qs)"] show ?thesis by auto
qed auto

lemma pieces_of_ok: "pieces_ok (pieces_of t)"
proof (induction t rule: pieces_of.induct)
  case (2 c cs)
  show ?case
  proof (cases "c = tick \<and> takeWhile (\<lambda>x. x \<noteq> tick) cs \<noteq> [] \<and> dropWhile (\<lambda>x. x \<noteq> tick) cs \<noteq> []")
    case True
    with 2(1) show ?thesis by (auto dest: set_takeWhileD)
  next
    case False
    with 2(2) have "pieces_ok (more_plain c (pieces_of cs))"
      by (intro pieces_ok_more_plain) (simp_all add: pieces_of_source)
    with False show ?thesis by auto
  qed
qed simp

text \<open>Reading a plain piece before the end, or before a code.\<close>

lemma pieces_of_plain:
  assumes "p \<noteq> []" "\<not> has_span (p @ u)" "u = [] \<and> r = [] \<or> u = [tick] \<and> (\<exists>s ps. pieces_of r = Code s # ps \<and> hd r = tick \<and> r \<noteq> [])"
  shows "pieces_of (p @ r) = Plain p # pieces_of r"
  using assms(1,2)
proof (induction p)
  case (Cons c p)
  have no: "\<not> (c = tick \<and> takeWhile (\<lambda>x. x \<noteq> tick) (p @ r) \<noteq> [] \<and> dropWhile (\<lambda>x. x \<noteq> tick) (p @ r) \<noteq> [])"
    using Cons.prems(2) assms(3) by (cases r) (auto simp: takeWhile_append dropWhile_append split: if_splits)
  have "more_plain c (pieces_of (p @ r)) = Plain (c # p) # pieces_of r"
  proof (cases "p = []")
    case True
    with assms(3) show ?thesis by (cases "u = []") auto
  next
    case False
    with Cons show ?thesis by simp
  qed
  with no show ?case by auto
qed simp

lemma pieces_of_code:
  assumes "s \<noteq> []" "tick \<notin> set s"
  shows "pieces_of (tick # s @ tick # r) = Code s # pieces_of r"
proof -
  have "takeWhile (\<lambda>x. x \<noteq> tick) (s @ tick # r) = s" "dropWhile (\<lambda>x. x \<noteq> tick) (s @ tick # r) = tick # r"
    using assms(2) by (induction s) auto
  with assms(1) show ?thesis by simp
qed

lemma pieces_of_unique: "pieces_ok ps \<Longrightarrow> pieces_of (concat (map source_of ps)) = ps"
proof (induction ps rule: pieces_ok.induct)
  case (2 s ps)
  then show ?case using pieces_of_code [of s "concat (map source_of ps)"] by simp
next
  case (3 p)
  then show ?case using pieces_of_plain [of p "[]" "[]"] by simp
next
  case (4 p s ps)
  let ?r = "tick # s @ tick # concat (map source_of ps)"
  from 4 have r: "pieces_of ?r = Code s # ps" by simp
  with 4 pieces_of_plain [of p "[tick]" ?r] show ?case by simp
qed simp_all

lemma html_escape_simps [simp]:
  "html_escape [] = []" "html_escape (c # cs) = escape_char c @ html_escape cs"
  by (simp_all add: html_escape_def)

lemma tick_escape_char [simp]: "escape_char tick = [tick]" "tick \<in> set (escape_char c) \<longleftrightarrow> c = tick"
  by (auto simp: escape_char_def)

lemma escape_char_not_Nil [simp]: "escape_char c \<noteq> []"
  by (simp add: escape_char_def)

lemma html_escape_Nil_iff [simp]: "html_escape s = [] \<longleftrightarrow> s = []"
  by (cases s) simp_all

lemma takeWhile_escape: "takeWhile (\<lambda>x. x \<noteq> tick) (html_escape s) = html_escape (takeWhile (\<lambda>x. x \<noteq> tick) s)"
  and dropWhile_escape: "dropWhile (\<lambda>x. x \<noteq> tick) (html_escape s) = html_escape (dropWhile (\<lambda>x. x \<noteq> tick) s)"
  by (induction s) (auto simp: takeWhile_append dropWhile_append)

lemma inline_code_plain: "tick \<notin> set u \<Longrightarrow> inline_code (u @ r) = u @ inline_code r"
  by (induction u) auto

text \<open>What the page shows is made piece by piece.\<close>

lemma shown_more_plain: "concat (map shown_as (more_plain c ps)) = escape_char c @ concat (map shown_as ps)"
  by (cases "(c, ps)" rule: more_plain.cases) simp_all

lemma inline_code_pieces: "inline_code (html_escape t) = concat (map shown_as (pieces_of t))"
proof (induction t rule: pieces_of.induct)
  case (2 c cs)
  let ?run = "takeWhile (\<lambda>x. x \<noteq> tick) cs"
  show ?case
  proof (cases "c = tick \<and> ?run \<noteq> [] \<and> dropWhile (\<lambda>x. x \<noteq> tick) cs \<noteq> []")
    case True
    then obtain rest where rest: "dropWhile (\<lambda>x. x \<noteq> tick) cs = tick # rest" using span_cut by blast
    with 2(1) True show ?thesis by (simp add: takeWhile_escape dropWhile_escape)
  next
    case False
    then have "inline_code (html_escape (c # cs)) = escape_char c @ inline_code (html_escape cs)"
      by (cases "c = tick") (auto simp: takeWhile_escape dropWhile_escape inline_code_plain)
    also have "\<dots> = concat (map shown_as (more_plain c (pieces_of cs)))"
      using 2(2) False by (simp add: shown_more_plain)
    finally show ?thesis using False by auto
  qed
qed simp

text \<open>
  C29: The pill's text is safe to put into the page as raw HTML. There is exactly one way to cut a text
  into pieces so that the code pieces are the spans between a pair of backticks, found from the
  left (never empty, never holding a backtick), and no span is left in the plain text between; and the page shows
  these pieces, each escaped, a code element around each code piece and around nothing else. An escaped piece
  has no angle bracket and no quote, and reads back as the piece: an error message from the
  database is shown as it is and adds no element.
\<close>

theorem to_html_safe:
  "\<exists>ps. (\<forall>qs. t = concat (map source_of qs) \<and> pieces_ok qs \<longleftrightarrow> qs = ps) \<and> to_html t = concat (map shown_as ps) \<and>
     (\<forall>s. html_unescape (html_escape s) = s \<and> set (html_escape s) \<inter> markup = {})"
  using pieces_of_source pieces_of_ok pieces_of_unique inline_code_pieces html_unescape_escape escaped_has_no_markup
  unfolding to_html_def by metis

lemma to_html_values:
  "to_html ''Start the `stream` service.'' = ''Start the <code>stream</code> service.''"
  "to_html ''`<b>` & ``'' = ''<code>&lt;b&gt;</code> &amp; ``''"
  by code_simp+

end
