(* ===== verification/DashMarkets.thy ===== *)
theory DashMarkets
  imports DashLive DashUi
begin

text \<open>
  The markets page (dashboard/views/markets.py): the price cards with their change and sparkline,
  and the candlestick chart with the minutes cut out of its axis. A function gives what it puts on
  the page; the plotting library is given the figure.
\<close>

section \<open>Numbers\<close>

text \<open>Division; a zero divisor raises.\<close>

fun fdiv :: "pyfloat \<Rightarrow> pyfloat \<Rightarrow> pyfloat result" where
  "fdiv x (Fin q) = (if q = 0 then Inl ZeroDivisionError else Inr (case x of
       Fin p \<Rightarrow> rnd (p / q) | PosInf \<Rightarrow> finf q | NegInf \<Rightarrow> finf (- q) | NaN \<Rightarrow> NaN))"
| "fdiv x y = Inr (case x of Fin p \<Rightarrow> (if y = NaN then NaN else Fin 0) | _ \<Rightarrow> NaN)"

definition isna :: "pyfloat option \<Rightarrow> bool" where
  "isna v \<longleftrightarrow> v = None \<or> v = Some NaN"

text \<open>Digits in groups of three.\<close>

fun group_reversed :: "string \<Rightarrow> string" where
  "group_reversed (a # b # c # d # ds) = a # b # c # CHR '','' # group_reversed (d # ds)"
| "group_reversed ds = ds"

definition group_digits :: "string \<Rightarrow> string" where
  "group_digits ds = rev (group_reversed (rev ds))"

text \<open>\<open>f"{n:,}"\<close>, \<open>f"{x:,.2f}"\<close> and \<open>f"{x:+.2f}"\<close>.\<close>

definition grouped_int :: "int \<Rightarrow> string" where
  "grouped_int n = (if n < 0 then ''-'' else []) @ group_digits (nat_digits (nat \<bar>n\<bar>))"

definition grouped_fixed :: "nat \<Rightarrow> pyfloat \<Rightarrow> string" where
  "grouped_fixed n x = (case x of
       Fin q \<Rightarrow> let ds = point_digits n (nat (rhe (\<bar>q\<bar> * 10 ^ n)))
         in (if q < 0 then ''-'' else []) @ group_digits (takeWhile (\<lambda>c. c \<noteq> CHR ''.'') ds) @
            dropWhile (\<lambda>c. c \<noteq> CHR ''.'') ds
     | _ \<Rightarrow> fixed n x)"

definition signed_fixed :: "nat \<Rightarrow> pyfloat \<Rightarrow> string" where
  "signed_fixed n x = (if py_lt x (Fin 0) then [] else ''+'') @ fixed n x"

section \<open>Cards\<close>

definition CARDS_PER_ROW :: nat where "CARDS_PER_ROW = 4"

definition SPARKLINE_POINTS :: nat where "SPARKLINE_POINTS = 120"

definition SPARKLINE_WIDTH :: rat where "SPARKLINE_WIDTH = 200"

definition SPARKLINE_HEIGHT :: rat where "SPARKLINE_HEIGHT = 36"

definition SPARKLINE_PADDING :: rat where "SPARKLINE_PADDING = 2"

definition percent_change :: "pyfloat option \<Rightarrow> pyfloat option \<Rightarrow> pyfloat option result" where
  "percent_change p day_open =
     (if isna p \<or> isna day_open \<or> day_open = Some (Fin 0) then Inr None
      else rbind (fdiv (the p) (the day_open)) (\<lambda>ratio.
        Inr (Some (fmul (fsub ratio (Fin 1)) (Fin 100)))))"

definition money :: "pyfloat option \<Rightarrow> string" where
  "money v = (if isna v then ''-'' else CHR ''$'' # grouped_fixed 2 (the v))"

definition closes_for :: "candle_row list \<Rightarrow> string \<Rightarrow> pyfloat list" where
  "closes_for frame s = (let closes = filter (\<lambda>x. x \<noteq> NaN) (map cd_close (filter (\<lambda>c. cd_symbol c = s) frame))
     in drop (length closes - SPARKLINE_POINTS) closes)"

definition usable :: rat where
  "usable = SPARKLINE_HEIGHT - 2 * SPARKLINE_PADDING"

text \<open>The points of the line before they are printed.\<close>

definition spark_y :: "pyfloat \<Rightarrow> pyfloat \<Rightarrow> pyfloat \<Rightarrow> pyfloat result" where
  "spark_y low reach v = rbind (fdiv (fsub v low) reach) (\<lambda>ratio.
     Inr (fsub (Fin (SPARKLINE_PADDING + usable)) (fmul ratio (Fin usable))))"

definition spark_points :: "pyfloat list \<Rightarrow> (pyfloat \<times> pyfloat) list result" where
  "spark_points values =
     rbind (fmin_list values) (\<lambda>low. rbind (fmax_list values) (\<lambda>high.
     let reach = (if fsub high low = Fin 0 then Fin 1 else fsub high low) in
     rbind (fdiv (Fin SPARKLINE_WIDTH) (Fin (of_int (int (length values) - 1)))) (\<lambda>step.
       map_result (\<lambda>(index, v). rbind (spark_y low reach v) (\<lambda>y. Inr (fmul (Fin (of_nat index)) step, y)))
         (enumerate 0 values))))"

definition sparkline :: "pyfloat list \<Rightarrow> string \<Rightarrow> string result" where
  "sparkline values color = rbind (spark_points values) (\<lambda>points.
     Inr (''<svg viewBox=\"0 0 200 36\" width=\"100%\" height=\"36\" preserveAspectRatio=\"none\">'' @
       ''<polyline points=\"'' @ join_with '' '' (map (\<lambda>(x, y). fixed 1 x @ '','' @ fixed 1 y) points) @
       ''\" fill=\"none\" stroke=\"'' @ color @
       ''\" stroke-width=\"1.5\" vector-effect=\"non-scaling-stroke\"/></svg>''))"

record card =
  mc_label :: string
  mc_value :: string
  mc_delta :: "string option"
  mc_line :: "string option"
  mc_caption :: string

definition render_card :: "board_row \<Rightarrow> pyfloat list \<Rightarrow> card result" where
  "render_card row closes =
     rbind (percent_change (Some (bd_price row)) (bd_day_open row)) (\<lambda>change.
     let rising = (case change of None \<Rightarrow> True | Some c \<Rightarrow> py_le (Fin 0) c) in
     rbind (if length closes > 1
            then map_sum id Some (sparkline closes (if rising then UP_COLOR else DOWN_COLOR))
            else Inr None) (\<lambda>line.
     let trades = (case bd_trades_today row of None \<Rightarrow> 0 | Some n \<Rightarrow> n) in
       Inr \<lparr> mc_label = bd_symbol row, mc_value = money (Some (bd_price row)),
         mc_delta = map_option (\<lambda>c. signed_fixed 2 c @ ''%'') change, mc_line = line,
         mc_caption = ''H '' @ money (bd_day_high row) @ dot_sep @ ''L '' @ money (bd_day_low row) @
           dot_sep @ grouped_int trades @ '' trades today'' \<rparr>))"

function rows_of :: "nat \<Rightarrow> 'a list \<Rightarrow> 'a list list" where
  "rows_of n xs = (if xs = [] \<or> n = 0 then [] else take n xs # rows_of n (drop n xs))"
  by pat_completeness auto
termination
  by (relation "measure (\<lambda>(n, xs). length xs)") auto

definition render_cards :: "board_row list \<Rightarrow> candle_row list \<Rightarrow> card list list result" where
  "render_cards board frame = map_result
     (map_result (\<lambda>row. render_card row (closes_for frame (bd_symbol row)))) (rows_of CARDS_PER_ROW board)"

text \<open>The status pill, then the cards or a note.\<close>

definition live_board_view ::
  "(int \<Rightarrow> pyfloat) \<Rightarrow> pyfloat \<Rightarrow> int \<Rightarrow> session_row list \<Rightarrow> board_row list \<Rightarrow> candle_row list \<Rightarrow>
     (status \<times> (string + card list list)) result" where
  "live_board_view total_seconds stale_after now recent board frame =
     (let pill = stream_status total_seconds (newest recent) stale_after now in
      if board = [] then Inr (pill, Inl ''No trades stored yet. Nothing arrives while the market is closed.'')
      else rbind (render_cards board frame) (\<lambda>cards. Inr (pill, Inr cards)))"

section \<open>The chart\<close>

definition MINUTE_MILLISECONDS :: int where "MINUTE_MILLISECONDS = 60000"

text \<open>\<open>date_range(min, max, freq="1min").difference(present)\<close> of a non-empty window.\<close>

definition missing_minutes :: "int list \<Rightarrow> int list" where
  "missing_minutes minutes = (let low = Min (set minutes); high = Max (set minutes);
     whole_window = map (\<lambda>k. low + int k * microseconds_per_minute)
       [0..<Suc (nat ((high - low) div microseconds_per_minute))]
     in filter (\<lambda>m. m \<notin> set minutes) whole_window)"

record candle_figure =
  fg_x :: "int list"
  fg_open :: "pyfloat list"
  fg_high :: "pyfloat list"
  fg_low :: "pyfloat list"
  fg_close :: "pyfloat list"
  fg_breaks :: "int list"
  fg_dvalue :: int

definition build_figure :: "candle_row list \<Rightarrow> candle_figure" where
  "build_figure frame = \<lparr> fg_x = map cd_minute frame, fg_open = map cd_open frame,
     fg_high = map cd_high frame, fg_low = map cd_low frame, fg_close = map cd_close frame,
     fg_breaks = missing_minutes (map cd_minute frame), fg_dvalue = MINUTE_MILLISECONDS \<rparr>"

definition chart :: "candle_row list \<Rightarrow> int \<Rightarrow> string \<Rightarrow> int \<Rightarrow> string + candle_figure" where
  "chart frame now s hours =
     (let cutoff = now - hours * 3600000000;
          window = filter (\<lambda>c. cd_symbol c = s \<and> cutoff \<le> cd_minute c) frame
      in if window = [] then Inl (''No '' @ s @ '' candles in the last '' @ str_of_int hours @ ''h.'')
         else Inr (build_figure (sort_key cd_minute window)))"

definition RANGE_HOURS :: "int \<Rightarrow> int list" where
  "RANGE_HOURS history = sort (remdups [1, 6, history])"

text \<open>The two pickers: the symbols, the ranges and the range chosen at first.\<close>

definition render_history :: "candle_row list \<Rightarrow> int \<Rightarrow> string + (string list \<times> int list \<times> nat)" where
  "render_history frame history =
     (if frame = [] then Inl ''No candles yet - the `rollup` service builds them once a minute.''
      else Inr (sort (remdups (map cd_symbol frame)), RANGE_HOURS history, length (RANGE_HOURS history) - 1))"

section \<open>Lemmas\<close>

lemma digits_values: "nat_digits 1234567 = ''1234567''" "nat_digits 999 = ''999''"
    "nat_digits 1000 = ''1000''" "nat_digits 125 = ''125''"
  by (simp_all add: nat_digits_eval bit_0)

lemma number_texts:
  "money (Some (Fin (1234567 / 100))) = ''$12,345.67''" "money (Some NaN) = ''-''"
  "grouped_int 1234567 = ''1,234,567''" "grouped_int 999 = ''999''" "grouped_int (- 1000) = ''-1,000''"
  "signed_fixed 2 (Fin (5 / 4)) = ''+1.25''" "signed_fixed 2 (Fin (- (5 / 4))) = ''-1.25''"
  by (simp_all add: money_def isna_def grouped_int_def grouped_fixed_def signed_fixed_def fixed_def
      point_digits_def group_digits_def rhe_def py_lt_def less_pyfloat_def Let_def digits_values)

lemma concat_rows_of: "0 < n \<Longrightarrow> concat (rows_of n xs) = xs"
proof (induction n xs rule: rows_of.induct)
  case (1 n xs)
  show ?case
  proof (cases "xs = []")
    case False
    with 1 have "concat (rows_of n (drop n xs)) = drop n xs" by blast
    with False 1(2) show ?thesis by (subst rows_of.simps) simp
  qed (subst rows_of.simps, simp)
qed

text \<open>The axis cuts out exactly the minutes of the window that have no candle.\<close>

lemma missing_minutes_iff:
  assumes "minutes \<noteq> []"
  shows "m \<in> set (missing_minutes minutes) \<longleftrightarrow> m \<notin> set minutes \<and> Min (set minutes) \<le> m \<and> m \<le> Max (set minutes) \<and>
    (m - Min (set minutes)) mod microseconds_per_minute = 0"
proof -
  let ?lo = "Min (set minutes)" and ?hi = "Max (set minutes)"
  have le: "?lo \<le> ?hi" using assms by (simp add: Min_le_iff Max_ge_iff)
  have "(\<exists>k < Suc (nat ((?hi - ?lo) div microseconds_per_minute)). m = ?lo + int k * microseconds_per_minute) \<longleftrightarrow>
      ?lo \<le> m \<and> m \<le> ?hi \<and> (m - ?lo) mod microseconds_per_minute = 0" (is "?l = ?r")
  proof
    assume ?l
    then obtain k where k: "int k \<le> (?hi - ?lo) div microseconds_per_minute" "m = ?lo + int k * microseconds_per_minute"
      using le by (auto simp: less_Suc_eq_le le_nat_iff)
    have "int k * microseconds_per_minute \<le> ?hi - ?lo" using k(1) by linarith
    with k(2) show ?r by simp
  next
    assume r: ?r
    then have "m = ?lo + (m - ?lo) div microseconds_per_minute * microseconds_per_minute"
      using div_mult_mod_eq [of "m - ?lo" microseconds_per_minute] by simp
    moreover have "(m - ?lo) div microseconds_per_minute \<le> (?hi - ?lo) div microseconds_per_minute"
      using r by (intro zdiv_mono1) auto
    moreover have "0 \<le> (m - ?lo) div microseconds_per_minute"
      using r by (simp add: pos_imp_zdiv_nonneg_iff)
    ultimately show ?l
      by (intro exI [of _ "nat ((m - ?lo) div microseconds_per_minute)"]) (simp add: less_Suc_eq_le nat_mono)
  qed
  then show ?thesis unfolding missing_minutes_def Let_def by (auto simp del: upt_Suc)
qed

section \<open>The sparkline\<close>

lemma rnd_fin_between: "is_double a \<Longrightarrow> is_double b \<Longrightarrow> a \<le> x \<Longrightarrow> x \<le> b \<Longrightarrow> a \<le> rnd_fin x \<and> rnd_fin x \<le> b"
  using rnd_fin_mono [of a x] rnd_fin_mono [of x b] by (auto simp: is_double_def rnd_def Let_def split: if_splits)

lemma rnd_Fin:
  assumes "0 \<le> x" "rnd x \<noteq> PosInf"
  shows "rnd x = Fin (rnd_fin x)"
proof -
  have "- (2 ^ 1024) < (0 :: rat)" by (simp only: neg_less_0_iff_less zero_less_power zero_less_numeral)
  then have "\<not> rnd_fin x \<le> - (2 ^ 1024)" using rnd_fin_nonneg [OF assms(1)] by (meson less_le_trans not_le)
  with assms(2) show ?thesis unfolding rnd_def Let_def by presburger
qed

lemma rnd_of_bounded:
  assumes "0 \<le> rnd_fin x" "rnd_fin x \<le> b" "is_double b"
  shows "rnd x = Fin (rnd_fin x)"
proof -
  have "rnd_fin x < 2 ^ 1024" using assms(2) is_double_less [OF assms(3)] by (rule le_less_trans)
  then have "\<not> 2 ^ 1024 \<le> rnd_fin x" by (simp only: not_le)
  moreover have "- (2 ^ 1024) < (0 :: rat)" by (simp only: neg_less_0_iff_less zero_less_power zero_less_numeral)
  then have "\<not> rnd_fin x \<le> - (2 ^ 1024)" using assms(1) by (meson less_le_trans not_le)
  ultimately show ?thesis by (simp only: rnd_def Let_def if_False)
qed

lemma rnd_small:
  assumes "0 \<le> x" "x \<le> b" "is_double b"
  shows "rnd x = Fin (rnd_fin x)" "0 \<le> rnd_fin x" "rnd_fin x \<le> b"
proof -
  from rnd_fin_between [OF is_double_0 assms(3,1,2)] show b: "0 \<le> rnd_fin x" "rnd_fin x \<le> b" by simp_all
  from rnd_of_bounded [OF this assms(3)] show "rnd x = Fin (rnd_fin x)" .
qed

definition height_of :: "rat \<Rightarrow> rat \<Rightarrow> rat" where
  "height_of sp d = rnd_fin (34 - rnd_fin (rnd_fin (d / sp) * 32))"

lemma height_of_mono:
  assumes "0 < sp" "d \<le> e"
  shows "height_of sp e \<le> height_of sp d"
proof -
  have "rnd_fin (d / sp) \<le> rnd_fin (e / sp)" using assms by (intro rnd_fin_mono divide_right_mono) auto
  then have "rnd_fin (rnd_fin (d / sp) * 32) \<le> rnd_fin (rnd_fin (e / sp) * 32)" by (intro rnd_fin_mono) simp
  then show ?thesis unfolding height_of_def by (intro rnd_fin_mono) simp
qed

lemma spark_y_value:
  assumes "fsub (Fin q) (Fin lo) = Fin d" "0 \<le> d" "d \<le> sp" "0 < sp"
  shows "spark_y (Fin lo) (Fin sp) (Fin q) = Inr (Fin (height_of sp d))" "2 \<le> height_of sp d" "height_of sp d \<le> 34"
proof -
  have r: "rnd (d / sp) = Fin (rnd_fin (d / sp))" "0 \<le> rnd_fin (d / sp)" "rnd_fin (d / sp) \<le> 1"
    using assms rnd_small [of "d / sp" 1] by simp_all
  then have u: "rnd (rnd_fin (d / sp) * 32) = Fin (rnd_fin (rnd_fin (d / sp) * 32))"
    "0 \<le> rnd_fin (rnd_fin (d / sp) * 32)" "rnd_fin (rnd_fin (d / sp) * 32) \<le> 32"
    using rnd_small [of "rnd_fin (d / sp) * 32" 32]
    by (simp_all add: is_double_numeral)
  have b: "2 \<le> height_of sp d \<and> height_of sp d \<le> 34" unfolding height_of_def
    using u(2,3) by (intro rnd_fin_between) (simp_all add: is_double_numeral)
  then show "2 \<le> height_of sp d" "height_of sp d \<le> 34" by simp_all
  have "rnd (34 - rnd_fin (rnd_fin (d / sp) * 32)) = Fin (height_of sp d)"
    unfolding height_of_def by (rule rnd_of_bounded [of _ 34])
      (use b in \<open>simp_all add: height_of_def is_double_numeral\<close>)
  with r(1) u(1) assms(1,4) show "spark_y (Fin lo) (Fin sp) (Fin q) = Inr (Fin (height_of sp d))"
    by (simp add: spark_y_def usable_def SPARKLINE_PADDING_def SPARKLINE_HEIGHT_def fsub_def)
qed

lemma spark_step:
  assumes "2 \<le> n" "n \<le> SPARKLINE_POINTS" "i < n"
  obtains step where "fdiv (Fin SPARKLINE_WIDTH) (Fin (of_int (int n - 1))) = Inr (Fin step)"
    "\<exists>x. fmul (Fin (of_nat i)) (Fin step) = Fin x \<and> 0 \<le> x \<and> x \<le> 200 + 1 / 32"
proof -
  let ?w = "200 / (of_nat n - 1) :: rat"
  have n: "1 \<le> (of_nat n - 1 :: rat)" "(of_nat i :: rat) \<le> of_nat n - 1" "(of_nat n :: rat) \<le> 120"
    using assms by (simp_all add: SPARKLINE_POINTS_def algebra_simps flip: of_nat_Suc)
  then have w: "0 < ?w" "?w \<le> 200" "of_nat i * ?w \<le> 200" by (simp_all add: divide_simps)
  have s: "rnd ?w = Fin (rnd_fin ?w)" "0 \<le> rnd_fin ?w"
    using rnd_small [of ?w 200] w by (simp_all add: is_double_numeral)
  have "\<bar>rnd_fin ?w - ?w\<bar> \<le> 2 powi (8 - 53) / 2" using w by (intro rnd_fin_close) auto
  moreover have "(2 :: rat) powi (8 - 53) / 2 = 1 / 2 ^ 46" by (simp add: power_int_def power_divide)
  ultimately have close: "rnd_fin ?w \<le> ?w + 1 / 2 ^ 46" by linarith
  have "of_nat i * rnd_fin ?w \<le> of_nat i * (?w + 1 / 2 ^ 46)" using close by (intro mult_left_mono) simp_all
  also have "\<dots> = of_nat i * ?w + of_nat i * (1 / 2 ^ 46)" by (rule distrib_left)
  also have "\<dots> \<le> 200 + 120 * (1 / 2 ^ 46)" using w(3) n by (intro add_mono mult_right_mono) simp_all
  also have "\<dots> \<le> 200 + 1 / 32" by simp
  finally have up: "of_nat i * rnd_fin ?w \<le> 200 + 1 / 32" .
  have "is_double (of_int 6401 * 2 powi (- 5))" by (rule grid_double) (simp_all add: power_int_minus)
  then have dbl: "is_double (200 + 1 / 32)" by (simp add: power_int_minus)
  with up s(2) have b: "0 \<le> rnd_fin (of_nat i * rnd_fin ?w) \<and> rnd_fin (of_nat i * rnd_fin ?w) \<le> 200 + 1 / 32"
    using dbl by (intro rnd_fin_between) simp_all
  then have "rnd (of_nat i * rnd_fin ?w) = Fin (rnd_fin (of_nat i * rnd_fin ?w))"
    using dbl by (intro rnd_of_bounded) simp_all
  with b s(1) n(1) that [of "rnd_fin ?w"] show thesis by (simp add: SPARKLINE_WIDTH_def)
qed

text \<open>
  C39: A card's line stays inside its picture. For two to 120 finite prices (whose range does not
  overflow) the sparkline has one point per price, in order; every point lies in the box of 200 by
  36 with the padding kept at the top and the bottom (a rounding slack of 1/32, which one printed
  decimal removes, on the right), and a higher price is never drawn lower.
\<close>

theorem sparkline_in_box:
  assumes "2 \<le> length qs" "length qs \<le> SPARKLINE_POINTS" "list_all is_double qs"
    "fsub (Fin (Max (set qs))) (Fin (Min (set qs))) \<noteq> PosInf"
  shows "\<exists>xs ys. spark_points (map Fin qs) = Inr (zip (map Fin xs) (map Fin ys)) \<and>
    length xs = length qs \<and> length ys = length qs \<and>
    (\<forall>i < length qs. 0 \<le> xs ! i \<and> xs ! i \<le> 200 + 1 / 32 \<and> 2 \<le> ys ! i \<and> ys ! i \<le> 34 \<and>
       (\<forall>j < length qs. qs ! i \<le> qs ! j \<longrightarrow> ys ! j \<le> ys ! i))"
proof -
  let ?lo = "Min (set qs)" and ?hi = "Max (set qs)" and ?n = "length qs"
  have ne: "set qs \<noteq> {}" "finite (set qs)" using assms(1) by auto
  have mm: "Min (Fin ` set qs) = Fin ?lo" "Max (Fin ` set qs) = Fin ?hi"
    using ne mono_Min_commute [of Fin "set qs"] mono_Max_commute [of Fin "set qs"] by (auto simp: mono_def)
  have lists: "fmin_list (map Fin qs) = Inr (Fin ?lo)" "fmax_list (map Fin qs) = Inr (Fin ?hi)"
    using fmin_list_Min [of "map Fin qs"] fmax_list_Max [of "map Fin qs"] mm ne by auto
  let ?d = "\<lambda>q. rnd_fin (q - ?lo)"
  have hi: "rnd (?hi - ?lo) = Fin (?d ?hi)" using assms(4) ne
    by (intro rnd_Fin) (auto simp: fsub_def Min_le_iff)
  have d: "fsub (Fin q) (Fin ?lo) = Fin (?d q)" "0 \<le> ?d q" "?d q \<le> ?d ?hi" if "q \<in> set qs" for q
  proof -
    have q: "?lo \<le> q" "q \<le> ?hi" using that by simp_all
    then have "rnd (q - ?lo) \<le> rnd (?hi - ?lo)" by (intro rnd_mono) simp
    with hi have "rnd (q - ?lo) \<noteq> PosInf" by auto
    with q show "fsub (Fin q) (Fin ?lo) = Fin (?d q)" by (simp add: fsub_def rnd_Fin)
    show "0 \<le> ?d q" "?d q \<le> ?d ?hi" using q by (simp_all add: rnd_fin_nonneg rnd_fin_mono)
  qed
  define sp where "sp = (if ?d ?hi = 0 then 1 else ?d ?hi)"
  have sp: "0 < sp" "?d ?hi \<le> sp" using d(2) [of ?hi] ne by (auto simp: sp_def)
  define y where "y q = height_of sp (?d q)" for q
  have y: "spark_y (Fin ?lo) (Fin sp) (Fin q) = Inr (Fin (y q))" "2 \<le> y q" "y q \<le> 34" if "q \<in> set qs" for q
    using spark_y_value [OF d(1) [OF that] d(2) [OF that] _ sp(1)] d(3) [OF that] sp(2) by (auto simp: y_def)
  have mono: "y q' \<le> y q" if "q \<le> q'" for q q'
    unfolding y_def using that by (intro height_of_mono sp(1) rnd_fin_mono) simp
  obtain step where step: "fdiv (Fin SPARKLINE_WIDTH) (Fin (of_int (int ?n - 1))) = Inr (Fin step)"
    by (rule spark_step [OF assms(1,2), of 0]) (use assms(1) in auto)
  have "\<exists>x. fmul (Fin (of_nat i)) (Fin step) = Fin x \<and> 0 \<le> x \<and> x \<le> 200 + 1 / 32" if "i < ?n" for i
    using spark_step [OF assms(1,2) that] step by (metis Inr_inject pyfloat.inject)
  then obtain x where x: "\<And>i. i < ?n \<Longrightarrow> fmul (Fin (of_nat i)) (Fin step) = Fin (x i) \<and> 0 \<le> x i \<and> x i \<le> 200 + 1 / 32"
    by metis
  let ?xs = "map x [0..<?n]" and ?ys = "map y qs"
  have "map_result (\<lambda>(index, v). rbind (spark_y (Fin ?lo) (Fin sp) v)
      (\<lambda>y. Inr (fmul (Fin (of_nat index)) (Fin step), y))) (enumerate 0 (map Fin qs)) =
    Inr (map (\<lambda>(i, v). (Fin (x i), case v of Fin q \<Rightarrow> Fin (y q))) (enumerate 0 (map Fin qs)))"
    by (rule map_result_all_ok) (auto simp: in_set_enumerate_eq y x simp del: fmul.simps)
  moreover have "map (\<lambda>(i, v). (Fin (x i), case v of Fin q \<Rightarrow> Fin (y q))) (enumerate 0 (map Fin qs)) =
      zip (map Fin ?xs) (map Fin ?ys)"
    by (rule nth_equalityI) (simp_all add: nth_enumerate_eq)
  moreover have "fsub (Fin ?hi) (Fin ?lo) = Fin (?d ?hi)" using hi by (simp add: fsub_def)
  then have "(if fsub (Fin ?hi) (Fin ?lo) = Fin 0 then Fin 1 else fsub (Fin ?hi) (Fin ?lo)) = Fin sp"
    by (simp add: sp_def)
  ultimately have "spark_points (map Fin qs) = Inr (zip (map Fin ?xs) (map Fin ?ys))"
    using step lists by (simp only: spark_points_def rbind_simps Let_def length_map)
  then show ?thesis using x y mono by (intro exI [of _ ?xs] exI [of _ ?ys]) simp
qed

theorem sparkline_in_box_witness:
  "\<exists>xs ys. spark_points [Fin 5, Fin 7, Fin 6] = Inr (zip (map Fin xs) (map Fin ys)) \<and>
     length ys = 3 \<and> ys ! 1 \<le> ys ! 2 \<and> ys ! 2 \<le> ys ! 0 \<and> 2 \<le> ys ! 1 \<and> ys ! 0 \<le> 34"
proof -
  have "Max (set [5, 7, 6]) = (7 :: rat)" "Min (set [5, 7, 6]) = (5 :: rat)" by (simp_all add: max_def min_def)
  then have f: "fsub (Fin (Max (set [5, 7, 6]))) (Fin (Min (set [5, 7, 6]))) \<noteq> PosInf"
    using rnd_double [of 2] by (simp add: fsub_def is_double_numeral del: set_simps)
  have dbl: "list_all is_double [5, 7, 6]" by (simp add: is_double_numeral)
  from sparkline_in_box [OF _ _ dbl f] obtain xs ys where
    s: "spark_points (map Fin [5, 7, 6]) = Inr (zip (map Fin xs) (map Fin ys))" "length ys = 3"
    and y: "\<And>i. i < 3 \<Longrightarrow> 2 \<le> ys ! i \<and> ys ! i \<le> 34 \<and>
      (\<forall>j < 3. [5, 7, 6 :: rat] ! i \<le> [5, 7, 6] ! j \<longrightarrow> ys ! j \<le> ys ! i)"
    by (auto simp: SPARKLINE_POINTS_def)
  have "ys ! 1 \<le> ys ! 2" "ys ! 2 \<le> ys ! 0" "2 \<le> ys ! 1" "ys ! 0 \<le> 34"
    using y [of 2] y [of 0] y [of 1] by (simp_all add: eval_nat_numeral)
  with s show ?thesis by (intro exI [of _ xs] exI [of _ ys]) simp
qed

end
