(* ===== verification/DashAuth.thy ===== *)
theory DashAuth
  imports SocketClient Emails
begin

text \<open>
  The dashboard's client of the API (dashboard/auth.py). The HTTP library is an argument:
  \<open>send\<close> answers a request or raises (a refused connection, a timeout), and
  \<open>raise_for_status\<close> turns an error status into an exception, and \<open>text_of\<close> is \<open>str\<close> of
  a JSON value that is not a string.
\<close>

datatype http_method = GET | POST | DELETE

record http_request =
  rq_method :: http_method
  rq_url :: string
  rq_json :: json
  rq_authorization :: "string option"
  rq_timeout :: pyfloat

record http_response =
  status_code :: nat
  response_json :: "json result"

record http =
  send :: "http_request \<Rightarrow> http_response result"
  raise_for_status :: "nat \<Rightarrow> unit result"
  text_of :: "json \<Rightarrow> string"

definition LOGIN_PATH :: string where "LOGIN_PATH = ''/auth/login''"

definition REGISTER_PATH :: string where "REGISTER_PATH = ''/auth/register''"

definition ALERTS_PATH :: string where "ALERTS_PATH = ''/alerts''"

record credentials =
  cr_token :: json
  cr_role :: json

definition api_url :: "string \<Rightarrow> string \<Rightarrow> string" where
  "api_url base path = rstrip (\<lambda>c. c = CHR ''/'') base @ path"

definition dash_is_email :: "string \<Rightarrow> bool" where
  "dash_is_email value = (let email = strip value
     in length email \<le> 254 \<and> matches end_or_newline EMAIL_PATTERN email)"

definition bearer :: "http \<Rightarrow> json \<Rightarrow> string option" where
  "bearer H token = Some (''Bearer '' @ (case token of JStr t \<Rightarrow> t | j \<Rightarrow> text_of H j))"

section \<open>Calls\<close>

definition credentials_request :: "string \<Rightarrow> string \<Rightarrow> string \<Rightarrow> string \<Rightarrow> pyfloat \<Rightarrow> http_request" where
  "credentials_request base path email password timeout = \<lparr> rq_method = POST, rq_url = api_url base path,
     rq_json = JObj [(''email'', JStr email), (''password'', JStr password)],
     rq_authorization = None, rq_timeout = timeout \<rparr>"

definition dash_login :: "http \<Rightarrow> string \<Rightarrow> string \<Rightarrow> string \<Rightarrow> pyfloat \<Rightarrow> credentials result" where
  "dash_login H base email password timeout =
     rbind (send H (credentials_request base LOGIN_PATH email password timeout)) (\<lambda>response.
     if status_code response = 401 then Inl (AuthError ''Wrong email or password.'')
     else rbind (raise_for_status H (status_code response)) (\<lambda>_.
          rbind (response_json response) (\<lambda>payload.
          rbind (json_index payload ''access_token'') (\<lambda>token.
          rbind (json_index payload ''role'') (\<lambda>role.
            Inr \<lparr> cr_token = token, cr_role = role \<rparr>)))))"

definition dash_register :: "http \<Rightarrow> string \<Rightarrow> string \<Rightarrow> string \<Rightarrow> pyfloat \<Rightarrow> bool result" where
  "dash_register H base email password timeout =
     rbind (send H (credentials_request base REGISTER_PATH email password timeout)) (\<lambda>response.
     if status_code response = 409 then Inr False
     else rbind (raise_for_status H (status_code response)) (\<lambda>_. Inr True))"

definition alert_request_of :: "http \<Rightarrow> string \<Rightarrow> json \<Rightarrow> string \<Rightarrow> string \<Rightarrow> pyfloat \<Rightarrow> pyfloat \<Rightarrow> http_request" where
  "alert_request_of H base token sy direction threshold timeout = \<lparr> rq_method = POST,
     rq_url = api_url base ALERTS_PATH,
     rq_json = JObj [(''symbol'', JStr sy), (''direction'', JStr direction), (''threshold'', JFloat threshold)],
     rq_authorization = bearer H token, rq_timeout = timeout \<rparr>"

definition session_expired :: exn where
  "session_expired = AuthError ''Your session has expired.''"

definition dash_create_alert ::
  "http \<Rightarrow> string \<Rightarrow> json \<Rightarrow> string \<Rightarrow> string \<Rightarrow> pyfloat \<Rightarrow> pyfloat \<Rightarrow> json result" where
  "dash_create_alert H base token sy direction threshold timeout =
     rbind (send H (alert_request_of H base token sy direction threshold timeout)) (\<lambda>response.
     if status_code response = 401 then Inl session_expired
     else rbind (raise_for_status H (status_code response)) (\<lambda>_.
          rbind (response_json response) (\<lambda>payload. json_index payload ''alert_id'')))"

definition list_request :: "http \<Rightarrow> string \<Rightarrow> json \<Rightarrow> pyfloat \<Rightarrow> http_request" where
  "list_request H base token timeout = \<lparr> rq_method = GET, rq_url = api_url base ALERTS_PATH,
     rq_json = JNull, rq_authorization = bearer H token, rq_timeout = timeout \<rparr>"

definition dash_list_alerts :: "http \<Rightarrow> string \<Rightarrow> json \<Rightarrow> pyfloat \<Rightarrow> json result" where
  "dash_list_alerts H base token timeout =
     rbind (send H (list_request H base token timeout)) (\<lambda>response.
     if status_code response = 401 then Inl session_expired
     else rbind (raise_for_status H (status_code response)) (\<lambda>_. response_json response))"

definition delete_request :: "http \<Rightarrow> string \<Rightarrow> json \<Rightarrow> int \<Rightarrow> pyfloat \<Rightarrow> http_request" where
  "delete_request H base token alert_id timeout = \<lparr> rq_method = DELETE,
     rq_url = api_url base (ALERTS_PATH @ ''/'' @ str_of_int alert_id),
     rq_json = JNull, rq_authorization = bearer H token, rq_timeout = timeout \<rparr>"

definition dash_delete_alert :: "http \<Rightarrow> string \<Rightarrow> json \<Rightarrow> int \<Rightarrow> pyfloat \<Rightarrow> bool result" where
  "dash_delete_alert H base token alert_id timeout =
     rbind (send H (delete_request H base token alert_id timeout)) (\<lambda>response.
     if status_code response = 403 then Inl (NotAllowedError ''Only an admin can delete an alert.'')
     else if status_code response = 401 then Inl session_expired
     else if status_code response = 404 then Inr False
     else rbind (raise_for_status H (status_code response)) (\<lambda>_. Inr True))"

text \<open>\<open>NotAllowedError\<close> is a subclass of \<open>AuthError\<close>.\<close>

definition is_auth_error :: "exn \<Rightarrow> bool" where
  "is_auth_error e = (case e of AuthError _ \<Rightarrow> True | NotAllowedError _ \<Rightarrow> True | _ \<Rightarrow> False)"

text \<open>What the client relies on: the statuses 400 to 599 raise, and no others; and the library
  does not raise the client's own exceptions.\<close>

definition http_ok :: "http \<Rightarrow> bool" where
  "http_ok H \<longleftrightarrow>
     (\<forall>n. raise_for_status H n = (if 400 \<le> n \<and> n < 600 then Inl (HTTPError n) else Inr ())) \<and>
     (\<forall>q e. send H q = Inl e \<longrightarrow> \<not> is_auth_error e) \<and>
     (\<forall>q r e. send H q = Inr r \<and> response_json r = Inl e \<longrightarrow> \<not> is_auth_error e)"

section \<open>Lemmas\<close>

lemma json_index_error: "json_index j k = Inl e \<Longrightarrow> \<not> is_auth_error e"
  by (cases j) (auto simp: is_auth_error_def split: option.splits)

text \<open>The session is only ever blamed for a response of 401, and 403 is told apart.\<close>

lemma auth_error_means_401:
  assumes "http_ok H"
  shows "dash_list_alerts H base token timeout = Inl e \<Longrightarrow> is_auth_error e \<Longrightarrow>
      \<exists>r. send H (list_request H base token timeout) = Inr r \<and> status_code r = 401"
    and "dash_create_alert H base token sy direction threshold timeout = Inl e \<Longrightarrow> is_auth_error e \<Longrightarrow>
      \<exists>r. send H (alert_request_of H base token sy direction threshold timeout) = Inr r \<and> status_code r = 401"
    and "dash_delete_alert H base token n timeout = Inl (AuthError m) \<Longrightarrow>
      \<exists>r. send H (delete_request H base token n timeout) = Inr r \<and> status_code r = 401"
proof -
  have ok: "\<And>q e. send H q = Inl e \<Longrightarrow> \<not> is_auth_error e"
    "\<And>q r e. send H q = Inr r \<Longrightarrow> response_json r = Inl e \<Longrightarrow> \<not> is_auth_error e"
    "\<And>n e. raise_for_status H n = Inl e \<Longrightarrow> \<not> is_auth_error e"
    using assms by (auto simp: http_ok_def is_auth_error_def split: if_splits)
  have no: "is_auth_error (AuthError m)" by (simp add: is_auth_error_def)
  show "dash_list_alerts H base token timeout = Inl e \<Longrightarrow> is_auth_error e \<Longrightarrow>
      \<exists>r. send H (list_request H base token timeout) = Inr r \<and> status_code r = 401"
    using ok by (auto simp: dash_list_alerts_def rbind_eq_Inl split: if_splits)
  show "dash_create_alert H base token sy direction threshold timeout = Inl e \<Longrightarrow> is_auth_error e \<Longrightarrow>
      \<exists>r. send H (alert_request_of H base token sy direction threshold timeout) = Inr r \<and> status_code r = 401"
    using ok json_index_error by (auto simp: dash_create_alert_def rbind_eq_Inl split: if_splits)
  show "dash_delete_alert H base token n timeout = Inl (AuthError m) \<Longrightarrow>
      \<exists>r. send H (delete_request H base token n timeout) = Inr r \<and> status_code r = 401"
    using ok no by (auto simp: dash_delete_alert_def rbind_eq_Inl split: if_splits)
qed

lemma delete_by_status:
  assumes "http_ok H" "send H (delete_request H base token n timeout) = Inr \<lparr> status_code = code, response_json = j \<rparr>"
  shows "dash_delete_alert H base token n timeout =
    (if code = 403 then Inl (NotAllowedError ''Only an admin can delete an alert.'')
     else if code = 401 then Inl session_expired else if code = 404 then Inr False
     else if 400 \<le> code \<and> code < 600 then Inl (HTTPError code) else Inr True)"
  using assms by (simp add: dash_delete_alert_def http_ok_def)

end
