(* ===== verification/DashPages.thy ===== *)
theory DashPages
  imports DashAuth
begin

text \<open>
  The dashboard's session and the actions of its pages (dashboard/ui.py, dashboard/app.py,
  dashboard/views/alerts.py). The state is Streamlit's session state with what the running script
  has put on the screen; an action either lets the script go on or restarts it
  (\<open>st.rerun()\<close>), which clears the screen. The API is reached through the client of
  \<open>auth.py\<close>; \<open>show\<close> is the text of an exception and \<open>dollars\<close> the formatting of a price.
\<close>

section \<open>Session state\<close>

datatype drawn = Shown_error string | Shown_warning string | Shown_success string | Toast string

record ui_state =
  ui_token :: "json option"
  ui_role :: "json option"
  ui_email :: "string option"
  ui_feedback :: "(string \<times> string) option"
  screen :: "drawn list"

datatype flow = Continue | Rerun

definition draw :: "drawn \<Rightarrow> ui_state \<Rightarrow> ui_state" where
  "draw d s = s\<lparr> screen := screen s @ [d] \<rparr>"

definition rerun :: "ui_state \<Rightarrow> flow \<times> ui_state" where
  "rerun s = (Rerun, s\<lparr> screen := [] \<rparr>)"

definition is_admin :: "ui_state \<Rightarrow> bool" where
  "is_admin s \<longleftrightarrow> ui_role s = Some (JStr ''admin'')"

definition sign_out :: "ui_state \<Rightarrow> ui_state" where
  "sign_out s = s\<lparr> ui_token := None, ui_role := None, ui_email := None \<rparr>"

definition remember_feedback :: "string \<Rightarrow> string \<Rightarrow> ui_state \<Rightarrow> ui_state" where
  "remember_feedback kind message s = s\<lparr> ui_feedback := Some (kind, message) \<rparr>"

definition render_feedback :: "ui_state \<Rightarrow> ui_state" where
  "render_feedback s = (case ui_feedback s of
       None \<Rightarrow> s
     | Some (kind, message) \<Rightarrow>
         draw (if kind = ''success'' \<or> kind = ''info'' then Toast message else Shown_error message)
           (s\<lparr> ui_feedback := None \<rparr>))"

definition end_dead_session :: "string \<Rightarrow> ui_state \<Rightarrow> flow \<times> ui_state" where
  "end_dead_session error s =
     rerun (sign_out (remember_feedback ''error'' (error @ '' You have been signed out.'') s))"

section \<open>Signing in\<close>

definition INVALID_EMAIL :: string where
  "INVALID_EMAIL = ''Enter a valid email address, like you@example.com.''"

text \<open>What a page knows: the HTTP library, the API's address, the timeout and the two texts.\<close>

record site =
  http_of :: http
  base_url_of :: string
  api_timeout :: pyfloat
  show_error :: "exn \<Rightarrow> string"
  dollars :: "pyfloat \<Rightarrow> string"

definition render_login :: "site \<Rightarrow> (string \<times> string) option \<Rightarrow> ui_state \<Rightarrow> flow \<times> ui_state" where
  "render_login w submitted s = (case submitted of
       None \<Rightarrow> (Continue, s)
     | Some (email, password) \<Rightarrow>
         if \<not> dash_is_email email then (Continue, draw (Shown_error INVALID_EMAIL) s)
         else case dash_login (http_of w) (base_url_of w) email password (api_timeout w) of
             Inl e \<Rightarrow> (Continue, draw (Shown_error
               (if is_auth_error e then show_error w e else ''Cannot reach the api - '' @ show_error w e)) s)
           | Inr c \<Rightarrow> rerun (s\<lparr> ui_token := Some (cr_token c), ui_role := Some (cr_role c),
               ui_email := Some (lower (strip email)) \<rparr>))"

definition render_register :: "site \<Rightarrow> (string \<times> string) option \<Rightarrow> ui_state \<Rightarrow> flow \<times> ui_state" where
  "render_register w submitted s = (case submitted of
       None \<Rightarrow> (Continue, s)
     | Some (email, password) \<Rightarrow>
         if \<not> dash_is_email email then (Continue, draw (Shown_error INVALID_EMAIL) s)
         else if password = [] then (Continue, draw (Shown_error ''Enter a password.'') s)
         else case dash_register (http_of w) (base_url_of w) email password (api_timeout w) of
             Inl e \<Rightarrow> (Continue, draw (Shown_error (''Cannot reach the api - '' @ show_error w e)) s)
           | Inr created \<Rightarrow> (Continue, draw (if created then Shown_success ''Account created. Sign in on the other tab.''
               else Shown_error ''An account with that email already exists. Sign in instead.'') s))"

definition log_out :: "ui_state \<Rightarrow> flow \<times> ui_state" where
  "log_out s = rerun (sign_out s)"

text \<open>The top of the script, once the database answers and \<open>raw_trades\<close> exists: the feedback is
  drawn, then a page is reached only with a token.\<close>

definition enter :: "ui_state \<Rightarrow> bool \<times> ui_state" where
  "enter s = (let s' = render_feedback s in (ui_token s' \<noteq> None, s'))"

text \<open>The whole start of the script: a database that does not answer, or one without \<open>raw_trades\<close>,
  stops it before the feedback is taken.\<close>

datatype reached = Stopped | Sign_in_page | Pages

definition app_start :: "site \<Rightarrow> exn option \<Rightarrow> bool \<Rightarrow> ui_state \<Rightarrow> reached \<times> ui_state" where
  "app_start w failure raw_trades_exists s = (case failure of
       Some e \<Rightarrow> (Stopped, draw (Shown_error (''Cannot reach destination_postgres - '' @ show_error w e)) s)
     | None \<Rightarrow> if \<not> raw_trades_exists
         then (Stopped, draw (Shown_warning ''`raw_trades` does not exist yet - start the `stream` service.'') s)
         else let (signed_in, s') = enter s in (if signed_in then Pages else Sign_in_page, s'))"

section \<open>The alerts page\<close>

text \<open>The actions run on a page, so the session has a token; \<open>None\<close> stands for the
  \<open>KeyError\<close> of a session without one.\<close>

definition page_fetch_alerts :: "site \<Rightarrow> ui_state \<Rightarrow> (json option \<times> flow \<times> ui_state) option" where
  "page_fetch_alerts w s = (case ui_token s of
       None \<Rightarrow> None
     | Some token \<Rightarrow> Some (case dash_list_alerts (http_of w) (base_url_of w) token (api_timeout w) of
           Inl e \<Rightarrow> if is_auth_error e then (None, end_dead_session (show_error w e) s)
             else (None, Continue, draw (Shown_error (''Cannot load alerts - '' @ show_error w e)) s)
         | Inr rows \<Rightarrow> (Some rows, Continue, s)))"

definition page_create_alert ::
  "site \<Rightarrow> string \<Rightarrow> string \<Rightarrow> pyfloat option \<Rightarrow> ui_state \<Rightarrow> (flow \<times> ui_state) option" where
  "page_create_alert w sy direction threshold s =
     (let wanted = upper (strip sy) in
      if wanted = [] then Some (Continue, draw (Shown_error ''Enter a symbol.'') s)
      else case threshold of
          None \<Rightarrow> Some (Continue, draw (Shown_error ''Enter a price to watch for.'') s)
        | Some t \<Rightarrow> (case ui_token s of
            None \<Rightarrow> None
          | Some token \<Rightarrow> Some (case dash_create_alert (http_of w) (base_url_of w) token wanted direction t (api_timeout w) of
                Inl e \<Rightarrow> if is_auth_error e then end_dead_session (show_error w e) s
                  else (Continue, draw (Shown_error (''Could not add the alert - '' @ show_error w e)) s)
              | Inr _ \<Rightarrow> rerun (remember_feedback ''success''
                  (''Watching '' @ wanted @ '' for '' @ direction @ '' $'' @ dollars w t @ ''.'') s))))"

definition page_delete_alert :: "site \<Rightarrow> int \<Rightarrow> ui_state \<Rightarrow> (flow \<times> ui_state) option" where
  "page_delete_alert w alert_id s = (case ui_token s of
       None \<Rightarrow> None
     | Some token \<Rightarrow> Some (case dash_delete_alert (http_of w) (base_url_of w) token alert_id (api_timeout w) of
           Inl e \<Rightarrow> (case e of
               NotAllowedError m \<Rightarrow> (Continue, draw (Shown_error (show_error w e)) s)
             | AuthError m \<Rightarrow> end_dead_session (show_error w e) s
             | _ \<Rightarrow> (Continue, draw (Shown_error (''Could not delete alert #'' @ str_of_int alert_id @ '' - '' @ show_error w e)) s))
         | Inr removed \<Rightarrow> rerun (if removed
             then remember_feedback ''success'' (''Alert #'' @ str_of_int alert_id @ '' deleted.'') s
             else remember_feedback ''info'' (''Alert #'' @ str_of_int alert_id @ '' was already gone.'') s)))"

section \<open>The session as a state machine\<close>

text \<open>A user's actions. A page's action runs only behind the token gate, the forms only in front
  of it; the site (the server's answers) may change from step to step.\<close>

datatype action =
    Start
  | Login "(string \<times> string) option"
  | Register "(string \<times> string) option"
  | Logout
  | Fetch
  | Create string string "pyfloat option"
  | Delete int

inductive page_step :: "site \<Rightarrow> ui_state \<Rightarrow> action \<Rightarrow> ui_state \<Rightarrow> bool" where
  start: "page_step w s Start (snd (app_start w failure raw_trades_exists (s\<lparr> screen := [] \<rparr>)))"
| login: "ui_token s = None \<Longrightarrow> page_step w s (Login f) (snd (render_login w f s))"
| register: "ui_token s = None \<Longrightarrow> page_step w s (Register f) (snd (render_register w f s))"
| logout: "ui_token s \<noteq> None \<Longrightarrow> page_step w s Logout (snd (log_out s))"
| fetch: "page_fetch_alerts w s = Some (rows, f, s') \<Longrightarrow> page_step w s Fetch s'"
| create: "ui_token s \<noteq> None \<Longrightarrow> page_create_alert w sy d t s = Some (f, s') \<Longrightarrow> page_step w s (Create sy d t) s'"
| delete: "page_delete_alert w n s = Some (f, s') \<Longrightarrow> page_step w s (Delete n) s'"

inductive_cases page_stepE: "page_step w s a s'"

definition new_session :: ui_state where
  "new_session = \<lparr> ui_token = None, ui_role = None, ui_email = None, ui_feedback = None, screen = [] \<rparr>"

inductive visited :: "ui_state \<Rightarrow> bool" where
  new: "visited new_session"
| step: "visited s \<Longrightarrow> page_step w s a s' \<Longrightarrow> visited s'"

text \<open>Token, role and address are set and cleared together, and the address is in the form the
  accounts have.\<close>

definition session_ok :: "ui_state \<Rightarrow> bool" where
  "session_ok s \<longleftrightarrow> (ui_token s = None) = (ui_role s = None) \<and> (ui_token s = None) = (ui_email s = None) \<and>
     (\<forall>e. ui_email s = Some e \<longrightarrow> strip e = e \<and> lower e = e)"

lemma session_ok_screen [simp]: "session_ok (s\<lparr> screen := x \<rparr>) = session_ok s"
  "session_ok (draw d s) = session_ok s" "session_ok (remember_feedback k m s) = session_ok s"
  "session_ok (s\<lparr> ui_feedback := f \<rparr>) = session_ok s" "session_ok (sign_out s)"
  by (simp_all add: session_ok_def draw_def remember_feedback_def sign_out_def)

lemma rerun_simps [simp]: "snd (rerun s) = s\<lparr> screen := [] \<rparr>" "fst (rerun s) = Rerun"
  by (simp_all add: rerun_def)

lemma session_ok_feedback [simp]: "session_ok (render_feedback s) = session_ok s"
  by (simp add: render_feedback_def split: option.splits prod.splits)

lemma session_ok_dead [simp]: "session_ok (snd (end_dead_session m s))"
  by (simp add: end_dead_session_def)

lemma app_start_keeps [simp]:
  "session_ok (snd (app_start w failure raw_trades_exists s)) = session_ok s"
  "ui_token (snd (app_start w failure raw_trades_exists s)) = ui_token s"
  by (simp_all add: app_start_def enter_def Let_def draw_def render_feedback_def session_ok_def
      split: option.splits prod.splits)

lemma session_ok_signed_in:
  "session_ok (s\<lparr> ui_token := Some t, ui_role := Some r, ui_email := Some (lower (strip e)) \<rparr>)"
  by (simp add: session_ok_def strip_lower)

lemma page_step_session_ok: "page_step w s a s' \<Longrightarrow> session_ok s \<Longrightarrow> session_ok s'"
proof (induction rule: page_step.induct)
  case (login s w f)
  then show ?case
    by (auto simp: render_login_def session_ok_signed_in split: option.splits sum.splits)
next
  case (register s w f)
  then show ?case by (auto simp: render_register_def split: option.splits sum.splits)
next
  case (fetch w s rows f s')
  then show ?case
    by (auto simp: page_fetch_alerts_def split: option.splits sum.splits if_splits)
      (metis session_ok_dead snd_conv)
next
  case (create s w sy d t f s')
  then show ?case
    by (auto simp: page_create_alert_def Let_def rerun_def split: option.splits sum.splits if_splits)
      (metis session_ok_dead snd_conv)
next
  case (delete w n s f s')
  then show ?case
    by (auto simp: page_delete_alert_def rerun_def split: option.splits sum.splits if_splits exn.splits)
      (metis session_ok_dead snd_conv)
qed (simp_all add: log_out_def)

lemma dead_session_simps [simp]:
  "ui_token (snd (end_dead_session m s)) = None"
  "ui_feedback (snd (end_dead_session m s)) = Some (''error'', m @ '' You have been signed out.'')"
  by (simp_all add: end_dead_session_def sign_out_def remember_feedback_def)

lemma kept_token [simp]:
  "ui_token (draw d s) = ui_token s" "ui_token (render_feedback s) = ui_token s"
  "ui_token (remember_feedback k m s) = ui_token s"
  by (simp_all add: draw_def remember_feedback_def render_feedback_def split: option.splits prod.splits)

text \<open>How a signed-in session can end.\<close>

lemma signed_out_by:
  assumes "page_step w s a s'" "http_ok (http_of w)" "ui_token s \<noteq> None" "ui_token s' = None"
  shows "a = Logout \<or> (\<exists>q r m. send (http_of w) q = Inr r \<and> status_code r = 401 \<and>
    s' = snd (end_dead_session m s))"
  using assms(1)
proof cases
  case (fetch rows f)
  then obtain t e where t: "ui_token s = Some t"
    "dash_list_alerts (http_of w) (base_url_of w) t (api_timeout w) = Inl e" "is_auth_error e"
    "s' = snd (end_dead_session (show_error w e) s)"
    using assms(3,4) by (auto simp: page_fetch_alerts_def split: option.splits sum.splits if_splits)
  with auth_error_means_401(1) [OF assms(2) t(2,3)] show ?thesis by blast
next
  case (create sy d t f)
  then obtain k x e where t: "ui_token s = Some k"
    "dash_create_alert (http_of w) (base_url_of w) k (upper (strip sy)) d x (api_timeout w) = Inl e" "is_auth_error e"
    "s' = snd (end_dead_session (show_error w e) s)"
    using assms(3,4)
    by (auto simp: page_create_alert_def Let_def rerun_def split: option.splits sum.splits if_splits)
  with auth_error_means_401(2) [OF assms(2) t(2,3)] show ?thesis by blast
next
  case (delete n f)
  then obtain k m where t: "ui_token s = Some k"
    "dash_delete_alert (http_of w) (base_url_of w) k n (api_timeout w) = Inl (AuthError m)"
    "s' = snd (end_dead_session (show_error w (AuthError m)) s)"
    using assms(3,4)
    by (auto simp: page_delete_alert_def rerun_def split: option.splits sum.splits if_splits exn.splits)
  with auth_error_means_401(3) [OF assms(2) t(2)] show ?thesis by blast
qed (use assms(3,4) in auto)

section \<open>Properties\<close>

text \<open>
  C30: Whatever a user does and whatever the API answers, the session's token, role and address
  are there together or not at all, and the address is trimmed and in lower case, as the accounts
  store it.
\<close>

theorem session_consistent:
  assumes "visited s"
  shows "(ui_token s = None) = (ui_role s = None) \<and> (ui_token s = None) = (ui_email s = None) \<and>
    (\<forall>e. ui_email s = Some e \<longrightarrow> strip e = e \<and> lower e = e)"
proof -
  from assms have "session_ok s"
  proof induction
    case new
    show ?case by (simp add: new_session_def session_ok_def)
  next
    case (step s w a s')
    show ?case by (rule page_step_session_ok [OF step(2) step(3)])
  qed
  then show ?thesis unfolding session_ok_def .
qed

text \<open>
  C16: A signed-in user is signed out by logging out or by a response of 401, never by a refusal
  (403), a missing alert, a server error or an API that cannot be reached; and after a 401 the
  next run of the script shows why, once.
\<close>

theorem signed_out_only_on_401:
  assumes "page_step w s a s'" "http_ok (http_of w)" "ui_token s \<noteq> None" "ui_token s' = None"
  shows "a = Logout \<or>
    (\<exists>q r m. send (http_of w) q = Inr r \<and> status_code r = 401 \<and>
       (let s1 = snd (enter (s'\<lparr> screen := [] \<rparr>))
        in screen s1 = [Shown_error (m @ '' You have been signed out.'')] \<and> ui_feedback s1 = None \<and>
           screen (snd (enter (s1\<lparr> screen := [] \<rparr>))) = []))"
  using signed_out_by [OF assms]
  by (auto simp: enter_def Let_def render_feedback_def draw_def end_dead_session_def sign_out_def
      remember_feedback_def rerun_def)

text \<open>A server that accepts one password and then forgets the session.\<close>

definition forgetful :: http where
  "forgetful = \<lparr> send = (\<lambda>q. if rq_method q = POST \<and> rq_authorization q = None
       then Inr \<lparr> status_code = 200, response_json = Inr (JObj [(''access_token'', JStr ''t''), (''role'', JStr ''user'')]) \<rparr>
       else Inr \<lparr> status_code = 401, response_json = Inr JNull \<rparr>),
     raise_for_status = (\<lambda>n. if 400 \<le> n \<and> n < 600 then Inl (HTTPError n) else Inr ()), text_of = (\<lambda>_. []) \<rparr>"

definition small_site :: site where
  "small_site = \<lparr> http_of = forgetful, base_url_of = ''http://api:8000'', api_timeout = Fin 10,
     show_error = (\<lambda>_. ''Your session has expired.''), dollars = (\<lambda>_. []) \<rparr>"

lemma forgetful_ok: "http_ok forgetful"
  by (auto simp: http_ok_def forgetful_def split: if_splits)

definition signed_in :: ui_state where
  "signed_in = snd (render_login small_site (Some ('' Ada@X.io'', ''pw'')) new_session)"

lemma signed_in_visited: "visited signed_in"
  unfolding signed_in_def by (rule visited.step [OF visited.new page_step.login]) (simp add: new_session_def)

lemma signed_in_values: "ui_token signed_in = Some (JStr ''t'')" "ui_email signed_in = Some ''ada@x.io''"
proof -
  have "dash_is_email '' Ada@X.io''" "lower (strip '' Ada@X.io'') = ''ada@x.io''" by code_simp+
  then show "ui_token signed_in = Some (JStr ''t'')" "ui_email signed_in = Some ''ada@x.io''"
    by (simp_all add: signed_in_def render_login_def dash_login_def small_site_def forgetful_def
        credentials_request_def)
qed

theorem session_consistent_witness: "ui_email signed_in = Some ''ada@x.io'' \<and> ui_role signed_in \<noteq> None"
proof -
  have "(ui_token signed_in = None) = (ui_role signed_in = None)"
    using session_consistent [OF signed_in_visited] by (rule conjunct1)
  then show ?thesis using signed_in_values by simp
qed

theorem signed_out_only_on_401_witness:
  "\<exists>s'. page_step small_site signed_in (Delete 4) s' \<and> ui_token s' = None \<and>
     (\<exists>q r. send (http_of small_site) q = Inr r \<and> status_code r = 401)"
proof -
  have "dash_delete_alert forgetful b t n x = Inl session_expired" for b t n x
    by (simp add: dash_delete_alert_def forgetful_def delete_request_def)
  then have p: "page_delete_alert small_site 4 signed_in =
      Some (end_dead_session ''Your session has expired.'' signed_in)"
    by (simp add: page_delete_alert_def signed_in_values small_site_def session_expired_def)
  let ?s = "snd (end_dead_session ''Your session has expired.'' signed_in)"
  have st: "page_step small_site signed_in (Delete 4) ?s"
    by (rule page_step.delete [of _ _ _ "fst (end_dead_session ''Your session has expired.'' signed_in)"]) (simp add: p)
  have "http_ok (http_of small_site)" by (simp add: small_site_def forgetful_ok)
  from signed_out_only_on_401 [OF st this] signed_in_values have
    "\<exists>q r. send (http_of small_site) q = Inr r \<and> status_code r = 401" by auto
  with st show ?thesis by (intro exI [of _ ?s]) simp
qed

end
