(* ===== verification/DashAlerts.thy ===== *)
theory DashAlerts
  imports DashMarkets DashPages ApiDb
begin

text \<open>
  What the alerts page shows of the API's list (dashboard/views/alerts.py): the readable columns,
  the two counts, and the choices of the delete control. A row of the frame is the API's
  \<open>alert_dict\<close>. The page's two emoji are arguments, and so is \<open>to_datetime\<close> of the dataframe
  library, which converts the whole column at once.
\<close>

definition ALERT_DIRECTIONS :: "string list" where
  "ALERT_DIRECTIONS = [''above'', ''below'']"

definition ALERT_MIN_THRESHOLD :: pyfloat where
  "ALERT_MIN_THRESHOLD = rnd (1 / 100)"

definition TABLE_COLUMNS :: "string list" where
  "TABLE_COLUMNS = [''alert_id'', ''symbol'', ''condition'', ''status'', ''created_at'']"

definition capitalize :: "string \<Rightarrow> string" where
  "capitalize s = (case s of [] \<Rightarrow> [] | c # cs \<Rightarrow> to_upper c # lower cs)"

definition condition_text :: "alert_dict \<Rightarrow> string" where
  "condition_text row = capitalize (aj_direction row) @ '' $'' @ grouped_fixed 2 (aj_threshold row)"

text \<open>A fired alert has a price; a missing one would not format.\<close>

definition alert_status :: "string \<Rightarrow> string \<Rightarrow> alert_dict \<Rightarrow> string result" where
  "alert_status hourglass bell row = (case aj_triggered_at row of
       None \<Rightarrow> Inr (hourglass @ '' Waiting'')
     | Some t \<Rightarrow> (case aj_triggered_price row of
         None \<Rightarrow> Inl TypeError
       | Some p \<Rightarrow> Inr (bell @ '' Fired at $'' @ grouped_fixed 2 p)))"

definition alert_label :: "alert_dict \<Rightarrow> string" where
  "alert_label row = CHR ''#'' # str_of_int (int (aj_alert_id row)) @ dot_sep @ aj_symbol row @ '' '' @
     aj_direction row @ '' $'' @ grouped_fixed 2 (aj_threshold row)"

record described =
  ds_row :: alert_dict
  ds_condition :: string
  ds_status :: string
  ds_created_at :: int

definition describe ::
  "string \<Rightarrow> string \<Rightarrow> (string list \<Rightarrow> int list result) \<Rightarrow> alert_dict list \<Rightarrow> described list result" where
  "describe hourglass bell to_datetime alerts =
     rbind (map_result (alert_status hourglass bell) alerts) (\<lambda>statuses.
     rbind (to_datetime (map aj_created_at alerts)) (\<lambda>created.
       Inr (map (\<lambda>(row, st, t). \<lparr> ds_row = row, ds_condition = condition_text row, ds_status = st, ds_created_at = t \<rparr>)
         (zip alerts (zip statuses created)))))"

record board_view =
  bv_watching :: int
  bv_fired :: int
  bv_columns :: "string list"
  bv_table :: "described list"

definition alert_board ::
  "string \<Rightarrow> string \<Rightarrow> (string list \<Rightarrow> int list result) \<Rightarrow> ui_state \<Rightarrow> alert_dict list \<Rightarrow> (string + board_view) result" where
  "alert_board hourglass bell to_datetime s alerts =
     (if alerts = [] then Inr (Inl ''No alerts yet. Add one above and the stream checks every trade.'')
      else let fired = int (length (filter (\<lambda>a. aj_triggered_at a \<noteq> None) alerts));
               columns = (if is_admin s then [''alert_id'', ''email''] @ tl TABLE_COLUMNS else TABLE_COLUMNS)
      in rbind (describe hourglass bell to_datetime alerts) (\<lambda>table.
           Inr (Inr \<lparr> bv_watching = int (length alerts) - fired, bv_fired = fired, bv_columns = columns,
             bv_table = table \<rparr>)))"

text \<open>The delete control: the alerts to choose from, by id, with their labels.\<close>

definition delete_choices :: "alert_dict list \<Rightarrow> string + (nat \<times> string) list" where
  "delete_choices alerts = (if alerts = [] then Inl ''Nothing to remove yet.''
     else Inr (map (\<lambda>row. (aj_alert_id row, alert_label row)) alerts))"

definition confirm_text :: "string \<Rightarrow> string" where
  "confirm_text l = ''Delete **'' @ l @ ''**? The stream stops watching for it.''"

section \<open>The API's rows can be shown\<close>

text \<open>An alert that carries its trade carries its time and its price together, so every row the
  API lists has a status.\<close>

lemma listed_row_has_status:
  assumes "(la_triggered_at a = None) = (la_triggered_price a = None)"
  shows "\<exists>t. alert_status h b (alert_to_dict a) = Inr t"
  using assms by (auto simp: alert_status_def alert_to_dict_def iso_or_none_def split: option.splits)

text \<open>\<open>isoformat\<close> writes the fraction of a second only when there is one, and the dataframe library
  guesses the format of a column from its first text and holds every other to it; its times
  are counted in nanoseconds in 64 bits. A column it converts: all times on a full second, or none.\<close>

definition whole_second :: "int \<Rightarrow> bool" where
  "whole_second t \<longleftrightarrow> t mod 1000000 = 0"

definition column_times :: "int list \<Rightarrow> bool" where
  "column_times ts \<longleftrightarrow> list_all (\<lambda>t. \<bar>t\<bar> \<le> 9223372036854775) ts \<and>
     (list_all whole_second ts \<or> list_all (\<lambda>t. \<not> whole_second t) ts)"

definition to_datetime_ok :: "(string list \<Rightarrow> int list result) \<Rightarrow> bool" where
  "to_datetime_ok td \<longleftrightarrow> (\<forall>ts. column_times ts \<longrightarrow> td (map iso_time ts) = Inr ts)"

lemma column_times_subset: "column_times ts \<Longrightarrow> set us \<subseteq> set ts \<Longrightarrow> column_times us"
  by (auto simp: column_times_def list_all_iff)

lemma map_result_total: "list_all (\<lambda>x. is_ok (f x)) xs \<Longrightarrow> \<exists>ys. map_result f xs = Inr ys"
  by (induction xs) (auto simp: is_ok_iff)

lemma zip_columns:
  assumes "length ys = length xs" "length zs = length xs"
  shows "map fst (zip xs (zip ys zs)) = xs" "map (\<lambda>x. snd (snd x)) (zip xs (zip ys zs)) = zs"
proof -
  show "map fst (zip xs (zip ys zs)) = xs" using assms by (intro map_fst_zip) simp
  have "map (\<lambda>x. snd (snd x)) (zip xs (zip ys zs)) = map snd (map snd (zip xs (zip ys zs)))" by simp
  also have "map snd (zip xs (zip ys zs)) = zip ys zs" using assms by (intro map_snd_zip) simp
  also have "map snd (zip ys zs) = zs" using assms by (intro map_snd_zip) simp
  finally show "map (\<lambda>x. snd (snd x)) (zip xs (zip ys zs)) = zs" .
qed

lemma describe_all:
  assumes "list_all (\<lambda>a. (la_triggered_at a = None) = (la_triggered_price a = None)) rows"
    "to_datetime_ok to_datetime" "column_times (map la_created_at rows)"
  obtains table where "describe h b to_datetime (map alert_to_dict rows) = Inr table"
    "map ds_row table = map alert_to_dict rows" "map ds_created_at table = map la_created_at rows"
proof -
  have "list_all (\<lambda>a. is_ok (alert_status h b a)) (map alert_to_dict rows)"
    using listed_row_has_status assms(1) unfolding is_ok_iff list_all_iff by fastforce
  then obtain sts where sts: "map_result (alert_status h b) (map alert_to_dict rows) = Inr sts"
    using map_result_total by blast
  then have len: "length sts = length rows" by (auto simp: map_result_Inr_iff dest: list_all2_lengthD)
  have "map aj_created_at (map alert_to_dict rows) = map iso_time (map la_created_at rows)"
    by (simp add: alert_to_dict_def)
  then have td: "to_datetime (map aj_created_at (map alert_to_dict rows)) = Inr (map la_created_at rows)"
    using assms(2,3) unfolding to_datetime_ok_def by metis
  let ?z = "zip (map alert_to_dict rows) (zip sts (map la_created_at rows))"
  let ?f = "\<lambda>(row, st, t). \<lparr> ds_row = row, ds_condition = condition_text row, ds_status = st, ds_created_at = t \<rparr>"
  have z: "map fst ?z = map alert_to_dict rows" "map (\<lambda>x. snd (snd x)) ?z = map la_created_at rows"
    using len by (simp_all only: zip_columns length_map)
  have columns: "map ds_row (map ?f zs) = map fst zs" "map ds_created_at (map ?f zs) = map (\<lambda>x. snd (snd x)) zs" for zs
    by (simp_all add: case_prod_beta)
  show thesis
  proof (rule that)
    show "describe h b to_datetime (map alert_to_dict rows) = Inr (map ?f ?z)"
      unfolding describe_def sts td by simp
    show "map ds_row (map ?f ?z) = map alert_to_dict rows" unfolding columns z ..
    show "map ds_created_at (map ?f ?z) = map la_created_at rows" unfolding columns z ..
  qed
qed

lemma board_view_Inr:
  assumes "alert_board h b td s alerts = Inr (Inr v)"
  shows "describe h b td alerts = Inr (bv_table v)" "bv_watching v + bv_fired v = int (length alerts)"
    "bv_fired v = int (length (filter (\<lambda>a. aj_triggered_at a \<noteq> None) alerts))"
    "''email'' \<in> set (bv_columns v) \<longleftrightarrow> ui_role s = Some (JStr ''admin'')"
  using assms by (auto simp: alert_board_def is_admin_def TABLE_COLUMNS_def rbind_eq_Inr Let_def split: if_splits)

end
