(* ===== verification/AlertsPage.thy ===== *)
theory AlertsPage
  imports DashAlerts ApiAlerts
begin

text \<open>
  The alerts page from top to bottom (dashboard/views/alerts.py): the form, the delete control with
  its dialog, and the board. The visitor's answers to the widgets are the input of a run of the
  script; a run that calls \<open>st.rerun()\<close> shows nothing more. The dialog is a run of its own. The rows
  of the list travel as JSON: \<open>alert_json\<close> is the object the API answers with, \<open>row_of_json\<close> the
  row the page's frame has for it; a payload of another shape ends the script with an exception.
\<close>

section \<open>The rows\<close>

definition json_or_null :: "('a \<Rightarrow> json) \<Rightarrow> 'a option \<Rightarrow> json" where
  "json_or_null f v = (case v of None \<Rightarrow> JNull | Some x \<Rightarrow> f x)"

definition alert_json :: "alert_dict \<Rightarrow> json" where
  "alert_json a = JObj [(''alert_id'', JInt (int (aj_alert_id a))), (''email'', JStr (aj_email a)),
     (''symbol'', JStr (aj_symbol a)), (''direction'', JStr (aj_direction a)),
     (''threshold'', JFloat (aj_threshold a)), (''created_at'', JStr (aj_created_at a)),
     (''triggered_at'', json_or_null JStr (aj_triggered_at a)),
     (''triggered_price'', json_or_null JFloat (aj_triggered_price a))]"

fun as_id :: "json \<Rightarrow> nat result" where
  "as_id (JInt n) = (if 0 \<le> n then Inr (nat n) else Inl TypeError)"
| "as_id _ = Inl TypeError"

fun as_str :: "json \<Rightarrow> string result" where
  "as_str (JStr s) = Inr s"
| "as_str _ = Inl TypeError"

fun as_price :: "json \<Rightarrow> pyfloat result" where
  "as_price (JFloat x) = Inr x"
| "as_price _ = Inl TypeError"

definition null_or :: "(json \<Rightarrow> 'a result) \<Rightarrow> json \<Rightarrow> 'a option result" where
  "null_or f j = (if j = JNull then Inr None else rbind (f j) (\<lambda>x. Inr (Some x)))"

definition row_of_json :: "json \<Rightarrow> alert_dict result" where
  "row_of_json j =
     rbind (rbind (json_index j ''alert_id'') as_id) (\<lambda>n.
     rbind (rbind (json_index j ''email'') as_str) (\<lambda>email.
     rbind (rbind (json_index j ''symbol'') as_str) (\<lambda>sy.
     rbind (rbind (json_index j ''direction'') as_str) (\<lambda>direction.
     rbind (rbind (json_index j ''threshold'') as_price) (\<lambda>threshold.
     rbind (rbind (json_index j ''created_at'') as_str) (\<lambda>created.
     rbind (rbind (json_index j ''triggered_at'') (null_or as_str)) (\<lambda>t.
     rbind (rbind (json_index j ''triggered_price'') (null_or as_price)) (\<lambda>p.
       Inr \<lparr> aj_alert_id = n, aj_email = email, aj_symbol = sy, aj_direction = direction,
         aj_threshold = threshold, aj_created_at = created, aj_triggered_at = t, aj_triggered_price = p \<rparr>))))))))"

definition frame_of_rows :: "json \<Rightarrow> alert_dict list result" where
  "frame_of_rows rows = (case rows of JArr js \<Rightarrow> map_result row_of_json js | _ \<Rightarrow> Inl TypeError)"

lemma row_roundtrip [simp]: "row_of_json (alert_json a) = Inr a"
  by (cases "aj_triggered_at a"; cases "aj_triggered_price a")
    (simp_all add: row_of_json_def alert_json_def json_or_null_def null_or_def)

lemma frame_roundtrip [simp]: "frame_of_rows (JArr (map alert_json rows)) = Inr rows"
  unfolding frame_of_rows_def json.case by (induction rows) simp_all

section \<open>The page\<close>

text \<open>\<open>fetch_alerts\<close>: the frame, or nothing once the problem is on the screen or the session has ended.\<close>

definition fetch_alerts :: "site \<Rightarrow> ui_state \<Rightarrow> (alert_dict list option \<times> flow \<times> ui_state) result" where
  "fetch_alerts w s = (case page_fetch_alerts w s of
       None \<Rightarrow> Inl KeyError
     | Some (None, f, s') \<Rightarrow> Inr (None, f, s')
     | Some (Some rows, f, s') \<Rightarrow> rbind (frame_of_rows rows) (\<lambda>alerts. Inr (Some alerts, f, s')))"

record alert_form =
  af_symbol :: string
  af_direction :: string
  af_threshold :: "pyfloat option"
  af_submitted :: bool

definition render_alert_form :: "site \<Rightarrow> alert_form \<Rightarrow> ui_state \<Rightarrow> (flow \<times> ui_state) result" where
  "render_alert_form w form s = (if af_submitted form
     then (case page_create_alert w (af_symbol form) (af_direction form) (af_threshold form) s of
         None \<Rightarrow> Inl KeyError | Some r \<Rightarrow> Inr r)
     else Inr (Continue, s))"

text \<open>The control: what it says when there is nothing to choose, or its choices with the alert whose
  dialog it opens.\<close>

type_synonym control = "string + (nat \<times> string) list \<times> (nat \<times> string) option"

definition render_delete_control ::
  "site \<Rightarrow> nat \<Rightarrow> bool \<Rightarrow> ui_state \<Rightarrow> (control option \<times> flow \<times> ui_state) result" where
  "render_delete_control w chosen pressed s =
     rbind (fetch_alerts w s) (\<lambda>(alerts, f, s').
       case alerts of
         None \<Rightarrow> Inr (None, f, s')
       | Some rows \<Rightarrow> (case delete_choices rows of
           Inl nothing \<Rightarrow> Inr (Some (Inl nothing), f, s')
         | Inr labels \<Rightarrow>
             if \<not> pressed then Inr (Some (Inr (labels, None)), f, s')
             else (case map_of (rev labels) chosen of
                 None \<Rightarrow> Inl KeyError
               | Some label \<Rightarrow> Inr (Some (Inr (labels, Some (chosen, confirm_text label))), f, s'))))"

datatype dialog_press = Cancel_pressed | Delete_pressed | Nothing_pressed

definition confirm_delete :: "site \<Rightarrow> nat \<Rightarrow> dialog_press \<Rightarrow> ui_state \<Rightarrow> (flow \<times> ui_state) result" where
  "confirm_delete w alert_id press s = (case press of
       Cancel_pressed \<Rightarrow> Inr (rerun s)
     | Delete_pressed \<Rightarrow> (case page_delete_alert w (int alert_id) s of None \<Rightarrow> Inl KeyError | Some r \<Rightarrow> Inr r)
     | Nothing_pressed \<Rightarrow> Inr (Continue, s))"

text \<open>The three texts and calls of the table library the board needs.\<close>

record marks =
  hourglass :: string
  bell :: string
  to_datetime :: "string list \<Rightarrow> int list result"

definition render_board ::
  "site \<Rightarrow> marks \<Rightarrow> ui_state \<Rightarrow> ((string + board_view) option \<times> flow \<times> ui_state) result" where
  "render_board w m s =
     rbind (fetch_alerts w s) (\<lambda>(alerts, f, s').
       case alerts of
         None \<Rightarrow> Inr (None, f, s')
       | Some rows \<Rightarrow> rbind (alert_board (hourglass m) (bell m) (to_datetime m) s' rows)
           (\<lambda>view. Inr (Some view, f, s')))"

record alerts_view =
  av_control :: "control option"
  av_board :: "(string + board_view) option"

definition alerts_page ::
  "site \<Rightarrow> marks \<Rightarrow> alert_form \<Rightarrow> nat \<Rightarrow> bool \<Rightarrow> ui_state \<Rightarrow> (alerts_view option \<times> ui_state) result" where
  "alerts_page w m form chosen pressed s =
     rbind (render_alert_form w form s) (\<lambda>(f, s).
     if f = Rerun then Inr (None, s)
     else rbind (render_delete_control w chosen pressed s) (\<lambda>(control, f, s).
       if f = Rerun then Inr (None, s)
       else rbind (render_board w m s) (\<lambda>(board, f, s).
         if f = Rerun then Inr (None, s)
         else Inr (Some \<lparr> av_control = control, av_board = board \<rparr>, s))))"

section \<open>Properties\<close>

text \<open>What the API lists comes from the table.\<close>

lemma listed_from_db:
  assumes "list_alerts J config now None header db = Inr rows"
    "list_all (\<lambda>a. (al_triggered_at a = None) = (al_triggered_price a = None)) (price_alerts db)"
  shows "\<exists>ls. rows = map alert_to_dict ls \<and>
    list_all (\<lambda>a. (la_triggered_at a = None) = (la_triggered_price a = None)) ls \<and>
    la_created_at ` set ls \<subseteq> al_created_at ` set (price_alerts db)"
proof -
  obtain email ls where ls: "read_alerts None email db = Inr ls" "rows = map alert_to_dict ls"
    using assms(1) by (auto simp: list_alerts_def Let_def rbind_eq_Inr)
  have "set ls \<subseteq> set (alerts_with_owner db)"
    using ls(1) by (auto simp: read_alerts_def select_alerts_def rbind_eq_Inr dest: in_set_takeD split: option.splits)
  then have "\<exists>a \<in> set (price_alerts db). la_triggered_at l = al_triggered_at a \<and>
      la_triggered_price l = al_triggered_price a \<and> la_created_at l = al_created_at a"
    if "l \<in> set ls" for l
    using that by (fastforce simp: alerts_with_owner_def listed_def)
  with assms(2) ls(2) show ?thesis by (intro exI [of _ ls]) (fastforce simp: list_all_iff)
qed

text \<open>
  C21: The page shows what the API lists. For a visitor whose token the API accepts, with a list of alerts
  that is not empty, the control offers exactly the listed alerts, in order, by id, and the board has
  one row for each, with the time it was created, whose counts of waiting and fired add up to their number; the admin alone sees
  the owner's column. Two conditions: a fired alert of the table has its price, and the times at which the
  table's alerts were created make a column the dataframe library converts (within its 64 bits, and
  all on a full second or none, since \<open>isoformat\<close> leaves out a fraction of zero).
\<close>

theorem alerts_page_shows_listing:
  assumes "http_ok (http_of w)" "ui_token s = Some (JStr token)" "\<not> af_submitted form"
    and list: "list_alerts J config now None (bearer (http_of w) (JStr token)) db = Inr rows" "rows \<noteq> []"
    and send: "send (http_of w) (list_request (http_of w) (base_url_of w) (JStr token) (api_timeout w)) =
      Inr \<lparr> status_code = 200, response_json = Inr (JArr (map alert_json rows)) \<rparr>"
    and fired: "list_all (\<lambda>a. (al_triggered_at a = None) = (al_triggered_price a = None)) (price_alerts db)"
    and times: "to_datetime_ok (to_datetime m)" "column_times (map al_created_at (price_alerts db))"
  shows "\<exists>v board. alerts_page w m form chosen False s = Inr (Some v, s) \<and>
    av_control v = Some (Inr (map (\<lambda>row. (aj_alert_id row, alert_label row)) rows, None)) \<and>
    av_board v = Some (Inr board) \<and> map ds_row (bv_table board) = rows \<and>
    map (iso_time \<circ> ds_created_at) (bv_table board) = map aj_created_at rows \<and>
    bv_watching board + bv_fired board = int (length rows) \<and>
    bv_fired board = int (length (filter (\<lambda>row. aj_triggered_at row \<noteq> None) rows)) \<and>
    (''email'' \<in> set (bv_columns board) \<longleftrightarrow> ui_role s = Some (JStr ''admin''))"
proof -
  let ?rows = "JArr (map alert_json rows)"
  have "page_fetch_alerts w s = Some (Some ?rows, Continue, s)"
    using assms(1,2) send by (simp add: page_fetch_alerts_def dash_list_alerts_def http_ok_def)
  then have fetch: "fetch_alerts w s = Inr (Some rows, Continue, s)" by (simp add: fetch_alerts_def)
  obtain ls where ls: "rows = map alert_to_dict ls"
    "list_all (\<lambda>a. (la_triggered_at a = None) = (la_triggered_price a = None)) ls"
    "la_created_at ` set ls \<subseteq> al_created_at ` set (price_alerts db)"
    using listed_from_db [OF list(1) fired] by blast
  have "column_times (map la_created_at ls)" using ls(3) by (intro column_times_subset [OF times(2)]) auto
  then obtain table where table: "describe (hourglass m) (bell m) (to_datetime m) rows = Inr table"
    "map ds_row table = rows" "map ds_created_at table = map la_created_at ls"
    using describe_all [OF ls(2) times(1), of "hourglass m" "bell m"] unfolding ls(1) by metis
  with list(2) obtain board where board: "alert_board (hourglass m) (bell m) (to_datetime m) s rows = Inr (Inr board)"
    by (simp add: alert_board_def Let_def)
  note v = board_view_Inr [OF board]
  have t: "bv_table board = table" using v(1) table(1) by simp
  have "alerts_page w m form chosen False s = Inr (Some \<lparr> av_control =
      Some (Inr (map (\<lambda>row. (aj_alert_id row, alert_label row)) rows, None)), av_board = Some (Inr board) \<rparr>, s)"
    using assms(3) list(2) board
    by (simp add: alerts_page_def render_alert_form_def render_delete_control_def fetch delete_choices_def
        render_board_def)
  moreover have "map (iso_time \<circ> ds_created_at) table = map aj_created_at rows"
    using arg_cong [OF table(3), of "map iso_time"] by (simp add: ls(1) alert_to_dict_def comp_def)
  ultimately show ?thesis using v(2-) table(2) t by auto
qed

text \<open>The page of Ada's alerts, served by the model of the API.\<close>

definition listing_site :: "alert_dict list \<Rightarrow> site" where
  "listing_site rows = small_site\<lparr> http_of := forgetful\<lparr> send := (\<lambda>q. Inr \<lparr> status_code = 200,
     response_json = Inr (JArr (map alert_json rows)) \<rparr>) \<rparr> \<rparr>"

definition quiet_marks :: marks where
  "quiet_marks = \<lparr> hourglass = [], bell = [], to_datetime = map_result time_of_iso \<rparr>"

lemma quiet_marks_times: "to_datetime_ok (to_datetime quiet_marks)"
proof -
  have "map_result time_of_iso (map iso_time ts) = Inr ts" if "list_all (\<lambda>t. \<bar>t\<bar> \<le> 9223372036854775) ts" for ts
    using that
  proof (induction ts)
    case (Cons t ts)
    then have "time_in_range t" by (auto simp: time_in_range_def abs_le_iff)
    with Cons show ?case by (simp add: time_of_iso_iso)
  qed simp
  then show ?thesis by (simp add: to_datetime_ok_def column_times_def quiet_marks_def)
qed

definition empty_form :: alert_form where
  "empty_form = \<lparr> af_symbol = [], af_direction = ''above'', af_threshold = None, af_submitted = False \<rparr>"

lemma listing_site_ok: "http_ok (http_of (listing_site rows))"
  using forgetful_ok by (simp add: listing_site_def http_ok_def small_site_def forgetful_def)

lemma ada_lists: "\<exists>rows. list_alerts toy_jwt demo_config 9000000 None ada_header ada_db = Inr rows \<and> map aj_alert_id rows = [8, 4]"
  by (simp add: list_alerts_def ada_calls read_alerts_def select_alerts_def alerts_with_owner_def ada_db_def listed_def
      text_error_def ADMIN_ROLE_def ALERT_LIST_LIMIT_def alert_to_dict_def)

definition ada_token :: string where
  "ada_token = create_token toy_jwt (jwt_secret demo_config) ''ada@x.io'' ''user'' 7000000 3600"

theorem alerts_page_shows_listing_witness:
  "\<exists>rows v board s. alerts_page (listing_site rows) quiet_marks empty_form 4 False s = Inr (Some v, s) \<and>
     av_board v = Some (Inr board) \<and> map aj_alert_id (map ds_row (bv_table board)) = [8, 4] \<and>
     bv_watching board + bv_fired board = 2"
proof -
  let ?s = "new_session\<lparr> ui_token := Some (JStr ada_token) \<rparr>"
  obtain rows where rows: "list_alerts toy_jwt demo_config 9000000 None ada_header ada_db = Inr rows"
    "map aj_alert_id rows = [8, 4]" using ada_lists by (elim exE conjE)
  let ?w = "listing_site rows"
  have list: "list_alerts toy_jwt demo_config 9000000 None (bearer (http_of ?w) (JStr ada_token)) ada_db = Inr rows"
    using rows(1) by (simp add: bearer_def ada_header_def ada_token_def del: append.simps)
  have send: "send (http_of ?w) (list_request (http_of ?w) (base_url_of ?w) (JStr ada_token) (api_timeout ?w)) =
      Inr \<lparr> status_code = 200, response_json = Inr (JArr (map alert_json rows)) \<rparr>" by (simp add: listing_site_def)
  have two: "rows \<noteq> []" "length rows = 2" using rows(2) arg_cong [OF rows(2), of length] by auto
  have fired: "list_all (\<lambda>a. (al_triggered_at a = None) = (al_triggered_price a = None)) (price_alerts ada_db)"
    by (simp add: ada_db_def)
  have times: "column_times (map al_created_at (price_alerts ada_db))" and form: "\<not> af_submitted empty_form"
    by (simp_all add: ada_db_def column_times_def whole_second_def empty_form_def)
  have token: "ui_token ?s = Some (JStr ada_token)" by simp
  obtain v board where v: "alerts_page ?w quiet_marks empty_form 4 False ?s = Inr (Some v, ?s)"
    "av_board v = Some (Inr board)" "map ds_row (bv_table board) = rows"
    "bv_watching board + bv_fired board = int (length rows)"
    using alerts_page_shows_listing [OF listing_site_ok token form list two(1) send fired quiet_marks_times times, of 4] by blast
  have "bv_watching board + bv_fired board = 2" "map aj_alert_id (map ds_row (bv_table board)) = [8, 4]"
    using v(3,4) two(2) rows(2) by simp_all
  with v(1,2) show ?thesis by (intro exI [of _ rows] exI [of _ v] exI [of _ board] exI [of _ ?s] conjI)
qed

end
