(* ===== verification/DashApp.thy ===== *)
theory DashApp
  imports DashPages
begin

text \<open>
  A whole run of the dashboard's script (dashboard/app.py): the checks of the database, the sign-in
  page or the sidebar, and the page the visitor picked, which is an argument. What the visitor
  enters is the input of the run.
\<close>

record visit =
  vi_login :: "(string \<times> string) option"
  vi_register :: "(string \<times> string) option"
  vi_log_out :: bool

text \<open>Both tabs are drawn in every run; a sign-in that succeeds restarts the script before the
  second.\<close>

definition render_sign_in_page :: "site \<Rightarrow> visit \<Rightarrow> ui_state \<Rightarrow> flow \<times> ui_state" where
  "render_sign_in_page w v s = (case render_login w (vi_login v) s of
       (Rerun, s') \<Rightarrow> (Rerun, s')
     | (Continue, s') \<Rightarrow> render_register w (vi_register v) s')"

text \<open>The sidebar names the account; it reads the address and the role without a default.\<close>

definition render_sidebar :: "visit \<Rightarrow> ui_state \<Rightarrow> ((string \<times> json) \<times> flow \<times> ui_state) result" where
  "render_sidebar v s = (case (ui_email s, ui_role s) of
       (Some email, Some role) \<Rightarrow> Inr ((email, role), if vi_log_out v then log_out s else (Continue, s))
     | _ \<Rightarrow> Inl KeyError)"

definition app_run :: "site \<Rightarrow> exn option \<Rightarrow> bool \<Rightarrow> visit \<Rightarrow> (ui_state \<Rightarrow> ui_state result) \<Rightarrow> ui_state \<Rightarrow> ui_state result" where
  "app_run w failure raw_trades_exists v page s =
     (case app_start w failure raw_trades_exists (s\<lparr> screen := [] \<rparr>) of
        (Stopped, s') \<Rightarrow> Inr s'
      | (Sign_in_page, s') \<Rightarrow> Inr (snd (render_sign_in_page w v s'))
      | (Pages, s') \<Rightarrow> rbind (render_sidebar v s') (\<lambda>(who, f, s'').
          if f = Rerun then Inr s'' else page s''))"

lemma app_start_pages: "app_start w failure ok s = (Pages, s') \<Longrightarrow> ui_token s' \<noteq> None"
  by (auto simp: app_start_def enter_def Let_def split: option.splits if_splits)

lemma login_ok: "session_ok s \<Longrightarrow> session_ok (snd (render_login w f s))"
  by (auto simp: render_login_def session_ok_signed_in split: option.splits sum.splits)

lemma register_keeps_session: "session_ok (snd (render_register w f s)) = session_ok s"
  by (auto simp: render_register_def split: option.splits sum.splits)

lemma sign_in_page_ok:
  assumes "session_ok s"
  shows "session_ok (snd (render_sign_in_page w v s))"
proof (cases "render_login w (vi_login v) s")
  case (Pair f s')
  with login_ok [OF assms, of w "vi_login v"] have "session_ok s'" by simp
  with Pair show ?thesis by (cases f) (simp_all add: render_sign_in_page_def register_keeps_session)
qed

lemma sidebar_ok:
  assumes "session_ok s" "ui_token s \<noteq> None"
  shows "\<exists>email role. render_sidebar v s = Inr ((email, role), if vi_log_out v then log_out s else (Continue, s))"
  using assms by (auto simp: render_sidebar_def session_ok_def split: option.splits)

text \<open>A run never fails but in the picked page, which it reaches only signed in; and it keeps the
  session consistent when the page does.\<close>

lemma app_run_consistent:
  assumes "session_ok s" "\<And>t t'. page t = Inr t' \<Longrightarrow> session_ok t \<Longrightarrow> ui_token t \<noteq> None \<Longrightarrow> session_ok t'"
  shows "case app_run w failure ok v page s of
      Inl e \<Rightarrow> (\<exists>t. session_ok t \<and> ui_token t \<noteq> None \<and> page t = Inl e)
    | Inr s' \<Rightarrow> session_ok s'"
proof (cases "app_start w failure ok (s\<lparr> screen := [] \<rparr>)")
  case (Pair gate t)
  have t: "session_ok t" using assms(1) app_start_keeps(1) [of w failure ok "s\<lparr> screen := [] \<rparr>"] Pair by simp
  show ?thesis
  proof (cases gate)
    case Stopped
    with Pair t show ?thesis by (simp add: app_run_def)
  next
    case Sign_in_page
    with Pair sign_in_page_ok [OF t] show ?thesis by (simp add: app_run_def)
  next
    case Pages
    with Pair app_start_pages have token: "ui_token t \<noteq> None" by simp
    obtain email role where bar: "render_sidebar v t = Inr ((email, role), if vi_log_out v then log_out t else (Continue, t))"
      using sidebar_ok [OF t token] by blast
    show ?thesis
    proof (cases "vi_log_out v")
      case True
      with Pair Pages bar show ?thesis by (simp add: app_run_def log_out_def rerun_def)
    next
      case False
      with Pair Pages bar have "app_run w failure ok v page s = page t" by (simp add: app_run_def)
      with t token assms(2) [of t] show ?thesis by (cases "page t") auto
    qed
  qed
qed

end
