(* ===== verification/DashPipeline.thy ===== *)
theory DashPipeline
  imports DashMarkets
begin

text \<open>
  The pipeline page (dashboard/views/pipeline.py): the state of every stage from the newest row of
  each frame. \<open>arrow\<close> is the arrow character between two stages; a missing cell is \<open>None\<close>.
\<close>

section \<open>Cells\<close>

definition row_field :: "'r option \<Rightarrow> ('r \<Rightarrow> 'v option) \<Rightarrow> 'v option" where
  "row_field row name = (case row of None \<Rightarrow> None | Some r \<Rightarrow> name r)"

lemma row_field_Some [simp]: "row_field (Some r) name = name r"
  by (simp add: row_field_def)

definition count_of :: "int option \<Rightarrow> int" where
  "count_of v = (case v of None \<Rightarrow> 0 | Some n \<Rightarrow> max n 0)"

definition age_of :: "(int \<Rightarrow> pyfloat) \<Rightarrow> int \<Rightarrow> int option \<Rightarrow> string" where
  "age_of total_seconds now v = format_age (seconds_since total_seconds now v)"

definition ARROW :: "string \<Rightarrow> string" where
  "ARROW arrow = ''<div class=\"arrow\">'' @ arrow @ ''</div>''"

definition flow_node :: "level \<Rightarrow> string \<Rightarrow> string \<Rightarrow> string" where
  "flow_node l name what = ''<div class=\"node\">'' @ level_dot l @ '' '' @
     ''<span class=\"name\">'' @ html_escape name @ ''</span>'' @
     ''<div class=\"what\">'' @ html_escape what @ ''</div></div>''"

section \<open>The page\<close>

text \<open>The newest row of each frame.\<close>

record stages =
  sg_session :: "session_row option"
  sg_run :: "run_row option"
  sg_storage :: "(string option \<times> int option) option"
  sg_candles :: "(int option \<times> int) option"

definition render_flow ::
  "(int \<Rightarrow> pyfloat) \<Rightarrow> string \<Rightarrow> int \<Rightarrow> status \<Rightarrow> status \<Rightarrow> stages \<Rightarrow> string" where
  "render_flow total_seconds arrow now stream rollup g =
     (let raw_rows = count_of (row_field (sg_storage g) snd);
          on_disk = or_text (text_or_none (row_field (sg_storage g) fst)) ''empty'';
          age = age_of total_seconds now;
          nodes =
            [flow_node (st_level stream) ''Finnhub''
               (''last message '' @ age (row_field (sg_session g) ss_last_message_at)),
             flow_node (st_level stream) ''stream''
               (grouped_int (count_of (row_field (sg_session g) (\<lambda>r. Some (ss_trades_received r)))) @ '' trades received''),
             flow_node (if raw_rows \<noteq> 0 then OK else IDLE) ''raw_trades''
               (on_disk @ dot_sep @ ''~'' @ grouped_int raw_rows @ '' rows''),
             flow_node (st_level rollup) ''rollup''
               (''last run '' @ age (row_field (sg_run g) (\<lambda>r. Some (rr_started_at r)))),
             flow_node (st_level rollup) ''candles''
               (''newest '' @ age (row_field (sg_candles g) fst)),
             flow_node OK ''dashboard'' ''you are here'']
      in ''<div class=\"flow\">'' @ join_with (ARROW arrow) nodes @ ''</div>'')"

definition render_stream :: "session_row option \<Rightarrow> (string \<times> string) list" where
  "render_stream session =
     (let received = count_of (row_field session (\<lambda>r. Some (ss_trades_received r)));
          written = count_of (row_field session (\<lambda>r. Some (ss_rows_written r)))
      in [(''Trades received'', grouped_int received), (''Rows written'', grouped_int written),
          (''Writer backlog'', grouped_int (received - written)),
          (''Reconnects'', str_of_int (count_of (row_field session (\<lambda>r. Some (int (ss_reconnects r))))))])"

definition render_rollup ::
  "(int \<Rightarrow> pyfloat) \<Rightarrow> int \<Rightarrow> run_row option \<Rightarrow> (int option \<times> int) option \<Rightarrow> (string \<times> string) list" where
  "render_rollup total_seconds now run newest_candles =
     [(''Candles stored'', ''~'' @ grouped_int (count_of (row_field newest_candles (\<lambda>c. Some (snd c))))),
      (''Newest candle'', age_of total_seconds now (row_field newest_candles fst)),
      (''Trades read'', grouped_int (count_of (row_field run (\<lambda>r. Some (int (rr_trades_read r)))))),
      (''Minutes written'', grouped_int (count_of (row_field run (\<lambda>r. Some (int (rr_minutes_written r))))))]"

record health_page =
  hp_stream :: status
  hp_rollup :: status
  hp_flow :: string
  hp_stream_metrics :: "(string \<times> string) list"
  hp_rollup_metrics :: "(string \<times> string) list"

definition health_view ::
  "(int \<Rightarrow> pyfloat) \<Rightarrow> string \<Rightarrow> pyfloat \<Rightarrow> int \<Rightarrow> session_row list \<Rightarrow> run_row list \<Rightarrow>
     (string option \<times> int option) list \<Rightarrow> (int option \<times> int) list \<Rightarrow> health_page" where
  "health_view total_seconds arrow stale_after now recent runs storage candle_status =
     (let g = \<lparr> sg_session = newest recent, sg_run = newest runs, sg_storage = newest storage,
            sg_candles = newest candle_status \<rparr>;
          stream = stream_status total_seconds (sg_session g) stale_after now;
          rollup = rollup_status total_seconds (sg_run g) (row_field (sg_candles g) fst)
            (row_field (sg_session g) ss_last_trade_at) CANDLE_LAG_GRACE_SECONDS now
      in \<lparr> hp_stream = stream, hp_rollup = rollup,
        hp_flow = render_flow total_seconds arrow now stream rollup g,
        hp_stream_metrics = render_stream (sg_session g),
        hp_rollup_metrics = render_rollup total_seconds now (sg_run g) (sg_candles g) \<rparr>)"

section \<open>The page and the tables\<close>

lemma newest_by_id:
  assumes "newest (take 20 (rev (sort_key k xs))) = Some x" "y \<in> set xs"
  shows "x \<in> set xs \<and> k y \<le> k x"
proof -
  have ne: "sort_key k xs \<noteq> []" using assms by (cases xs) auto
  then have x: "x = last (sort_key k xs)"
    using assms(1) by (cases "sort_key k xs" rule: rev_cases) (auto simp: newest_def)
  have "k z \<le> k (last zs)" if "z \<in> set zs" "sorted (map k zs)" for z zs
    using that by (induction zs) (auto simp: last_map)
  moreover have "y \<in> set (sort_key k xs)" using assms(2) by simp
  moreover have "x \<in> set (sort_key k xs)" unfolding x using ne by (rule last_in_set)
  ultimately show ?thesis using sorted_sort_key [of k xs] x by auto
qed

lemma newest_None_iff: "newest xs = None \<longleftrightarrow> xs = []"
  by (cases xs) (simp_all add: newest_def)

lemma sessions_frame_newest:
  assumes "r \<in> set (stream_sessions db)" "\<forall>q \<in> set (stream_sessions db). q = r \<or> ss_id q < ss_id r"
  shows "newest (sessions_frame True db) = Some r"
proof -
  let ?f = "take 20 (rev (sort_key ss_id (stream_sessions db)))"
  have "newest ?f \<noteq> None" using assms(1) by (simp add: newest_None_iff) (metis empty_iff set_empty set_sort)
  then obtain x where "newest ?f = Some x" by blast
  moreover from newest_by_id [OF this assms(1)] assms(2) have "x = r" by fastforce
  ultimately show ?thesis by (simp add: sessions_frame_def read_if_exists_def)
qed

lemma runs_frame_newest:
  assumes "u \<in> set (rollup_runs db)" "\<forall>q \<in> set (rollup_runs db). q = u \<or> rr_id q < rr_id u"
  shows "newest (rollup_runs_frame True db) = Some u"
proof -
  let ?f = "take 20 (rev (sort_key rr_id (rollup_runs db)))"
  have "newest ?f \<noteq> None" using assms(1) by (simp add: newest_None_iff) (metis empty_iff set_empty set_sort)
  then obtain x where "newest ?f = Some x" by blast
  moreover from newest_by_id [OF this assms(1)] assms(2) have "x = u" by fastforce
  ultimately show ?thesis by (simp add: rollup_runs_frame_def read_if_exists_def)
qed

text \<open>The documented behaviour of \<open>Timedelta.total_seconds\<close> the page relies on.\<close>

definition seconds_ok :: "(int \<Rightarrow> pyfloat) \<Rightarrow> bool" where
  "seconds_ok total_seconds \<longleftrightarrow> mono total_seconds \<and> (\<forall>t. total_seconds t \<noteq> NaN)"

definition rounded_seconds :: "int \<Rightarrow> pyfloat" where
  "rounded_seconds t = rnd (of_int t / 1000000)"

lemma rounded_seconds_ok: "seconds_ok rounded_seconds"
  by (auto simp: seconds_ok_def rounded_seconds_def mono_def intro!: rnd_mono divide_right_mono)

lemma newest_candle_behind:
  assumes "seconds_ok ts" "grace \<noteq> NaN"
  shows "(case row_field (newest (candle_status_frame True est db)) fst of
       None \<Rightarrow> True | Some c \<Rightarrow> py_lt grace (ts (now - c))) \<longleftrightarrow>
     (\<forall>c \<in> set (candles db). py_lt grace (ts (now - cd_minute c)))"
proof (cases "candles db = []")
  case False
  let ?M = "Max (cd_minute ` set (candles db))"
  have M: "?M \<in> cd_minute ` set (candles db)" using False by (intro Max_in) auto
  have lt: "py_lt grace (ts i) \<longleftrightarrow> grace < ts i" for i using assms by (simp add: seconds_ok_def)
  have "grace < ts (now - ?M) \<longleftrightarrow> (\<forall>c \<in> set (candles db). grace < ts (now - cd_minute c))"
  proof
    assume g: "grace < ts (now - ?M)"
    show "\<forall>c \<in> set (candles db). grace < ts (now - cd_minute c)"
    proof
      fix c assume "c \<in> set (candles db)"
      then have "now - ?M \<le> now - cd_minute c" by simp
      then have "ts (now - ?M) \<le> ts (now - cd_minute c)" using assms(1) by (auto simp: seconds_ok_def mono_def)
      with g show "grace < ts (now - cd_minute c)" by (rule less_le_trans)
    qed
  qed (use M in auto)
  with False show ?thesis
    by (simp add: candle_status_frame_def read_if_exists_def newest_def row_field_def lt)
qed (simp add: candle_status_frame_def read_if_exists_def newest_def row_field_def)

section \<open>Properties\<close>

text \<open>
  C25: The pipeline page judges the newest session and the newest run, and rightly: the stream is
  shown as a fault exactly when the session with the highest id failed or its last message is older
  than the limit, the rollup exactly when the newest run failed, and as behind exactly when that
  run did not fail, a trade is younger than the grace period and no stored candle is. (A run that
  was never closed is no fault.)
\<close>

theorem health_sees_faults:
  assumes "seconds_ok ts" "r \<in> set (stream_sessions db)" "u \<in> set (rollup_runs db)"
    "\<forall>q \<in> set (stream_sessions db). q = r \<or> ss_id q < ss_id r"
    "\<forall>q \<in> set (rollup_runs db). q = u \<or> rr_id q < rr_id u"
    "page = health_view ts arrow stale now (sessions_frame True db) (rollup_runs_frame True db) storage
       (candle_status_frame True est db)"
  shows "(st_level (hp_stream page) = ERR \<longleftrightarrow> ss_status r = ''failed'' \<or>
       (\<exists>t. ss_last_message_at r = Some t \<and> py_lt stale (ts (now - t)))) \<and>
    (st_level (hp_rollup page) = ERR \<longleftrightarrow> rr_status u = ''failed'') \<and>
    (st_level (hp_rollup page) = WARN \<longleftrightarrow> rr_status u \<noteq> ''failed'' \<and>
       (\<exists>t. ss_last_trade_at r = Some t \<and> py_lt (ts (now - t)) CANDLE_LAG_GRACE_SECONDS) \<and>
       (\<forall>c \<in> set (candles db). py_lt CANDLE_LAG_GRACE_SECONDS (ts (now - cd_minute c))))"
proof -
  have n: "newest (sessions_frame True db) = Some r" "newest (rollup_runs_frame True db) = Some u"
    using sessions_frame_newest [OF assms(2,4)] runs_frame_newest [OF assms(3,5)] by simp_all
  have "CANDLE_LAG_GRACE_SECONDS \<noteq> NaN" by (simp add: CANDLE_LAG_GRACE_SECONDS_def)
  from newest_candle_behind [OF assms(1) this, where est = est and db = db and now = now]
  have "(\<forall>c. row_field (newest (candle_status_frame True est db)) fst = Some c \<longrightarrow>
        py_lt CANDLE_LAG_GRACE_SECONDS (ts (now - c))) \<longleftrightarrow>
      (\<forall>c \<in> set (candles db). py_lt CANDLE_LAG_GRACE_SECONDS (ts (now - cd_minute c)))"
    by (auto split: option.splits)
  then show ?thesis unfolding assms(6)
    by (simp add: health_view_def Let_def n stream_fault_iff rollup_fault_iff rollup_behind_iff)
qed

definition quiet_db :: pg where
  "quiet_db = empty_pg\<lparr> stream_sessions := [\<lparr> ss_id = 1, ss_connected_at = 0, ss_disconnected_at = None,
       ss_symbols = ''NVDA'', ss_trades_received = 5, ss_rows_written = 5, ss_last_message_at = Some 0,
       ss_last_trade_at = Some 0, ss_reconnects = 0, ss_market_open = None, ss_market_session = None,
       ss_status = ''streaming'', ss_error_message = None \<rparr>],
     rollup_runs := [\<lparr> rr_id = 1, rr_started_at = 0, rr_finished_at = None, rr_window_start = 0,
       rr_window_end = 0, rr_trades_read = 0, rr_minutes_written = 0, rr_status = ''failed'',
       rr_error_message = Some ''boom'' \<rparr>] \<rparr>"

theorem health_sees_faults_witness:
  "st_level (hp_stream (health_view rounded_seconds [] (Fin 90) 91000000 (sessions_frame True quiet_db)
       (rollup_runs_frame True quiet_db) [] (candle_status_frame True 0 quiet_db))) = ERR \<and>
   st_level (hp_rollup (health_view rounded_seconds [] (Fin 90) 91000000 (sessions_frame True quiet_db)
       (rollup_runs_frame True quiet_db) [] (candle_status_frame True 0 quiet_db))) = ERR"
proof -
  let ?r = "hd (stream_sessions quiet_db)" and ?u = "hd (rollup_runs quiet_db)"
  have m: "?r \<in> set (stream_sessions quiet_db)" "?u \<in> set (rollup_runs quiet_db)"
    "\<forall>q \<in> set (stream_sessions quiet_db). q = ?r \<or> ss_id q < ss_id ?r"
    "\<forall>q \<in> set (rollup_runs quiet_db). q = ?u \<or> rr_id q < rr_id ?u"
    by (simp_all add: quiet_db_def empty_pg_def)
  have "py_lt (Fin 90) (rounded_seconds 91000000)"
    using rnd_double [of 91] by (simp add: rounded_seconds_def is_double_numeral)
  with health_sees_faults [OF rounded_seconds_ok m refl, of "[]" "Fin 90" 91000000 "[]" 0]
  show ?thesis by (simp add: quiet_db_def)
qed

end
