(* ===== verification/DashViews.thy ===== *)
theory DashViews
  imports DashPipeline Processes
begin

text \<open>
  The reading pages over the database (dashboard/data.py, views/markets.py, views/pipeline.py):
  the frames a page asks for, each empty while its table does not exist, and what the page makes
  of them. What the server reports of its storage is an argument; the 30-second cache of the
  candles is the time \<open>cached_at\<close> at which they were read.
\<close>

section \<open>The frames\<close>

definition data_sessions :: "(string \<Rightarrow> bool) \<Rightarrow> pg \<Rightarrow> session_row list" where
  "data_sessions tables db = sessions_frame (tables ''stream_sessions'') db"

definition data_rollup_runs :: "(string \<Rightarrow> bool) \<Rightarrow> pg \<Rightarrow> run_row list" where
  "data_rollup_runs tables db = rollup_runs_frame (tables ''rollup_runs'') db"

definition data_storage :: "(string \<Rightarrow> bool) \<Rightarrow> (string option \<times> int option) list \<Rightarrow> (string option \<times> int option) list" where
  "data_storage tables sizes = read_if_exists (tables ''raw_trades'') sizes"

definition data_candle_status :: "(string \<Rightarrow> bool) \<Rightarrow> int \<Rightarrow> pg \<Rightarrow> (int option \<times> int) list" where
  "data_candle_status tables estimate db = candle_status_frame (tables ''candles'') estimate db"

definition data_candles :: "pandas \<Rightarrow> (string \<Rightarrow> bool) \<Rightarrow> int \<Rightarrow> int \<Rightarrow> pg \<Rightarrow> candle_row list" where
  "data_candles D tables now hours db = candles_frame D (tables ''candles'') now hours db"

section \<open>The pipeline page\<close>

definition STREAM_NOTE :: string where
  "STREAM_NOTE = ''`trades_received` counts what came off the socket, `rows_written` '' @
     ''what reached Postgres. A widening gap means the writer is behind. '' @
     ''`reconnects` is how many times the socket had to come back.''"

definition ROLLUP_NOTE :: string where
  "ROLLUP_NOTE = ''`trades_read` is how many raw trades the window pulled, '' @
     ''`minutes_written` how many candles it wrote. The same minutes get '' @
     ''rewritten every run on purpose - that is how late trades correct '' @ ''themselves.''"

record pipeline_tables =
  pt_sessions :: "string \<times> string \<times> session_row list"
  pt_runs :: "string \<times> string \<times> run_row list"
  pt_latest :: "string \<times> board_row list"

definition render_tables :: "session_row list \<Rightarrow> run_row list \<Rightarrow> board_row list \<Rightarrow> pipeline_tables" where
  "render_tables sessions runs latest = \<lparr>
     pt_sessions = (''Stream sessions ('' @ str_of_int (int (length sessions)) @ '')'', STREAM_NOTE, sessions),
     pt_runs = (''Rollup runs ('' @ str_of_int (int (length runs)) @ '')'', ROLLUP_NOTE, runs),
     pt_latest = (''Latest trade per symbol'', latest) \<rparr>"

definition pipeline_page ::
  "(int \<Rightarrow> pyfloat) \<Rightarrow> string \<Rightarrow> pyfloat \<Rightarrow> pandas \<Rightarrow> (string \<Rightarrow> bool) \<Rightarrow> int \<Rightarrow>
     (string option \<times> int option) list \<Rightarrow> int \<Rightarrow> pg \<Rightarrow> health_page \<times> pipeline_tables" where
  "pipeline_page total_seconds arrow stale_after D tables now sizes estimate db =
     (let sessions = data_sessions tables db; runs = data_rollup_runs tables db
      in (health_view total_seconds arrow stale_after now sessions runs (data_storage tables sizes)
            (data_candle_status tables estimate db),
          render_tables sessions runs (latest_frame D (tables ''raw_trades'') now db)))"

section \<open>The markets page\<close>

record markets_view =
  mv_board :: "status \<times> (string + card list list)"
  mv_pickers :: "string + (string list \<times> int list \<times> nat)"
  mv_chart :: "(string + candle_figure) option"

text \<open>The visitor's choice of symbol and range is the input; without candles there is no picker.\<close>

definition markets_page ::
  "(int \<Rightarrow> pyfloat) \<Rightarrow> pyfloat \<Rightarrow> pandas \<Rightarrow> (string \<Rightarrow> bool) \<Rightarrow> exn option \<Rightarrow> redis \<Rightarrow> int \<Rightarrow> int \<Rightarrow> int \<Rightarrow>
     string \<times> int \<Rightarrow> pg \<Rightarrow> pg \<Rightarrow> markets_view result" where
  "markets_page total_seconds stale_after D tables failure client now cached_at history choice cached_db db =
     (let frame = data_candles D tables cached_at history cached_db in
      rbind (live_board_view total_seconds stale_after now (data_sessions tables db)
          (live_board_frame D failure client (tables ''raw_trades'') now db) frame) (\<lambda>board.
        let pickers = render_history frame history
        in Inr \<lparr> mv_board = board, mv_pickers = pickers,
          mv_chart = (case pickers of Inl nothing \<Rightarrow> None | Inr p \<Rightarrow> Some (chart frame now (fst choice) (snd choice))) \<rparr>))"

section \<open>What the chart shows\<close>

lemma rollup_keeps_keys: "pandas_ok D \<Longrightarrow> pg_keys_ok db \<Longrightarrow> run_once shown D config p db = (Inr w, db') \<Longrightarrow> pg_keys_ok db'"
  using rollup_ok_run_once [of D db shown config p] by (simp add: rollup_ok_def)

lemma candles_frame_plain: "pandas_ok D \<Longrightarrow> candles_frame D e now hours db = read_candle_frame e now hours db"
  by (simp add: candles_frame_def pandas_ok_def map_idI)

lemma candle_map_Some:
  "candle_map db (s, m) = Some c \<Longrightarrow> \<exists>r \<in> set (candles db). cd_symbol r = s \<and> cd_minute r = m \<and> candle_values r = c"
  by (auto simp: candle_map_def table_map_def candle_key_def find_Some_iff intro!: bexI [OF _ nth_mem])

lemma present_not_missing: "m \<in> set ms \<Longrightarrow> m \<notin> set (missing_minutes ms)"
  unfolding missing_minutes_def Let_def set_filter by blast

definition chart_window :: "candle_row list \<Rightarrow> int \<Rightarrow> string \<Rightarrow> int \<Rightarrow> candle_row list" where
  "chart_window frame now s hours =
     sort_key cd_minute (filter (\<lambda>c. cd_symbol c = s \<and> now - hours * 3600000000 \<le> cd_minute c) frame)"

lemma chart_of_window: "chart frame now s hours = (if chart_window frame now s hours = []
    then Inl (''No '' @ s @ '' candles in the last '' @ str_of_int hours @ ''h.'')
    else Inr (build_figure (chart_window frame now s hours)))"
proof -
  have "sort_key k xs = [] \<longleftrightarrow> xs = []" for k :: "candle_row \<Rightarrow> int" and xs by (metis length_0_conv length_sort)
  then show ?thesis by (simp add: chart_def chart_window_def Let_def)
qed

lemma chart_window_rows:
  assumes "pandas_ok D"
  shows "set (chart_window (data_candles D (\<lambda>_. True) cached history db) now s hours) =
    {r \<in> set (candles db). cd_symbol r = s \<and> now - hours * 3600000000 \<le> cd_minute r \<and>
       cached - history * 3600000000 \<le> cd_minute r}"
  by (auto simp: chart_window_def data_candles_def candles_frame_plain [OF assms] read_candle_frame_def read_if_exists_def)

lemma chart_window_distinct:
  assumes "pandas_ok D" "pg_keys_ok db"
  shows "distinct (map cd_minute (chart_window (data_candles D (\<lambda>_. True) cached history db) now s hours))"
proof -
  let ?w = "chart_window (data_candles D (\<lambda>_. True) cached history db) now s hours"
  have keys: "distinct (candles db)" "inj_on (\<lambda>c. (cd_symbol c, cd_minute c)) (set (candles db))"
    using assms(2) by (simp_all add: pg_keys_ok_def distinct_map)
  have "inj_on cd_minute (set ?w)"
    unfolding chart_window_rows [OF assms(1)] using keys(2) by (auto simp: inj_on_def)
  moreover have "distinct ?w" using keys(1)
    by (simp add: chart_window_def data_candles_def candles_frame_plain [OF assms(1)] read_candle_frame_def read_if_exists_def)
  ultimately show ?thesis by (simp add: distinct_map)
qed

section \<open>Properties\<close>

text \<open>
  C7: The chart shows the trades. After a pass of the rollup that reports ok and whose window fits its
  row limit, for every symbol and every minute that lies in the pass's window and in the range the visitor
  chose, if the stream has stored a trade of the symbol in that minute, the chart has exactly one candle there:
  its open, high, low and close are those of all the trades stored for the minute, the minutes of the chart
  increase, and the minute is not among those cut out of the axis.
\<close>

theorem chart_shows_trades:
  assumes "pandas_ok D" "pg_keys_ok db" "run_once shown D config p db = (Inr w, db')"
    "rr_status (last (rollup_runs db')) = ''ok''"
    "length (in_window (window_start_of config p) db) \<le> nat (max_rows config)"
    and m: "window_start_of config p \<le> m" "stored_trades s m db \<noteq> []"
    and range: "now - hours * 3600000000 \<le> m" "cached - history * 3600000000 \<le> m"
  shows "\<exists>fig i c. chart (data_candles D (\<lambda>_. True) cached history db') now s hours = Inr fig \<and>
    sorted_wrt (<) (fg_x fig) \<and> i < length (fg_x fig) \<and> fg_x fig ! i = m \<and> m \<notin> set (fg_breaks fig) \<and>
    summarises D (stored_trades s m db) c \<and> fg_open fig ! i = cn_open c \<and> fg_high fig ! i = cn_high c \<and>
    fg_low fig ! i = cn_low c \<and> fg_close fig ! i = cn_close c"
proof -
  let ?w = "chart_window (data_candles D (\<lambda>_. True) cached history db') now s hours"
  have all: "filter (\<lambda>t. window_start_of config p \<le> rc_trade_ts t) (stored_trades s m db) = stored_trades s m db"
    using m(1) by (intro filter_True) (auto simp: trades_of_def minute_of_def intro: order_trans)
  obtain c where c: "candle_map db' (s, m) = Some c" "summarises D (stored_trades s m db) c"
    using candles_after_pass [OF assms(1-5), of s m] m(2) unfolding all by auto
  obtain r where r: "r \<in> set (candles db')" "cd_symbol r = s" "cd_minute r = m" "candle_values r = c"
    using candle_map_Some [OF c(1)] by blast
  have keys: "pg_keys_ok db'" using rollup_keeps_keys [OF assms(1-3)] .
  have "r \<in> set ?w" unfolding chart_window_rows [OF assms(1)] using r range by simp
  then obtain i where i: "i < length ?w" "?w ! i = r" by (auto simp: in_set_conv_nth)
  let ?fig = "build_figure ?w"
  have "chart (data_candles D (\<lambda>_. True) cached history db') now s hours = Inr ?fig"
    using i(1) by (auto simp: chart_of_window)
  moreover have "sorted_wrt (<) (fg_x ?fig)"
    using chart_window_distinct [OF assms(1) keys, of cached history now s hours]
    by (simp add: build_figure_def chart_window_def strict_sorted_iff)
  moreover have "i < length (fg_x ?fig)" "fg_x ?fig ! i = m" using i r(3) by (simp_all add: build_figure_def)
  moreover have "m \<notin> set (fg_breaks ?fig)"
    using i r(3) nth_mem [of i ?w] by (auto simp: build_figure_def intro!: present_not_missing)
  moreover have "fg_open ?fig ! i = cn_open c" "fg_high ?fig ! i = cn_high c" "fg_low ?fig ! i = cn_low c"
    "fg_close ?fig ! i = cn_close c"
    using i r(4) by (auto simp: build_figure_def candle_values_def)
  ultimately show ?thesis using c(2) by blast
qed

theorem chart_shows_trades_witness:
  "\<exists>db' fig i. chart (data_candles toy_pandas (\<lambda>_. True) 180000000 24 db') 180000000 ''NVDA'' 1 = Inr fig \<and>
     i < length (fg_x fig) \<and> fg_x fig ! i = 120000000"
proof -
  obtain w db' where r: "run_once (\<lambda>_. []) toy_pandas ten_minutes half_past traded_db = (Inr w, db')"
    "rr_status (last (rollup_runs db')) = ''ok''"
    "length (in_window (window_start_of ten_minutes half_past) traded_db) \<le> nat (max_rows ten_minutes)"
    by (rule half_past_runs)
  have g: "stored_trades ''NVDA'' 120000000 traded_db \<noteq> []"
    by (simp add: trades_of_def traded_db_def RollupMain.nvda_trade_def recent_of_def minute_of_def)
  have m: "window_start_of ten_minutes half_past \<le> 120000000" by simp
  from chart_shows_trades [OF toy_pandas_ok traded_db_ok r m g, of 180000000 1 180000000 24] show ?thesis by auto
qed

end
