(* ===== verification/Spec2Isabelle.thy ===== *)
theory Spec2Isabelle
  imports Processes AlertsPage DashApp DashViews
begin

text \<open>
  \<^bold>\<open>The program.\<close> Four Python services around one PostgreSQL database and one Redis. The
  \<^bold>\<open>stream\<close> (src/stream) reads trades from the Finnhub websocket on one thread, puts them on a
  queue, and on the main thread once a second inserts them into \<open>raw_trades\<close>, fires the price
  alerts they cross, merges them into the live prices in Redis and reports its session. The
  \<^bold>\<open>rollup\<close> (src/rollup) rewrites the one-minute candles of a trailing window, pass after pass.
  The \<^bold>\<open>API\<close> (src/api) registers and signs in users and adds, lists and deletes alerts. The
  \<^bold>\<open>dashboard\<close> (src/dashboard) shows the live board, the chart, the pipeline's state and the
  alerts; it reads the database and Redis itself and reaches the alerts through the API. They
  interact only through the tables, the Redis hashes and HTTP: those three are the shared state of
  the model (\<open>pg\<close> in Tables, \<open>redis\<close> in LivePrices, \<open>http\<close> in DashAuth).

  \<^bold>\<open>Conventions.\<close> A function that may raise returns \<open>'a result\<close> (Prelude): the exception or the
  value. Code that changes state takes it and returns it changed; a database transaction keeps
  the old tables when its body raises (\<open>transaction\<close> in Tables). Anything outside the repository
  is an argument: the outcome of a call to Redis, PostgreSQL or the network (an \<open>exn option\<close> or
  \<open>redis_outcome\<close>), the password hash, the token library, the request validation, the dataframe
  library, the HTTP library; what the code relies on of them is a predicate \<open>..._ok\<close>, and a toy
  instance shows it can hold. A time is its microseconds since 1970, a day its number; a float is
  a binary64 with its rounding (\<open>pyfloat\<close>); a string holds characters below 256, and changing
  case and trimming is exact on ASCII.

  \<^bold>\<open>Shared theories.\<close>
  \<^item> Prelude: exceptions, results, list functions of Python (\<open>max\<close> and \<open>min\<close> with a key, dedup).
  \<^item> PyFloat, PyFloatText, PyText: floats with rounding to even, \<open>repr\<close> and \<open>float(...)\<close> and their
    round trip, string methods, \<open>int(...)\<close>. Isotime: dates and ISO times and their round trip.
  \<^item> PyEnv: the environment and the helpers of the three configuration modules.
  \<^item> Tables: \<open>Trade\<close>, the rows of the six tables (the three schema.sql), keys, transactions, and
    the UPDATE locale \<open>row_update\<close>, interpreted for every UPDATE the services issue.

  \<^bold>\<open>The stream.\<close>
  \<^item> SocketClient (socket_client.py): parsing a message, the four callbacks. Buffer (buffer.py):
    the queue and \<open>drain\<close>. Backoff (backoff.py). MarketStatus (market_status.py). StreamConfig
    (config.py). Alerts (alerts.py): which alerts a batch crosses.
  \<^item> LivePrices (live_prices.py): \<open>merge\<close>, the strings in Redis, the pipeline; the hash commands are
    the locale \<open>hash_store\<close>, interpreted on the store of the model.
  \<^item> StreamWriter (writer.py, db.py): the statements. StreamFlush (main.py): one flush - alerts, live
    prices, their seeding. StreamMain (main.py): \<open>SocketEvents\<close>, the socket thread and the main
    thread as an inductive step relation with an arbitrary interleaving, \<open>run_once\<close> with the two ways
    it ends (the stages \<open>Finished\<close> and \<open>Raised\<close>) and the reconnect loop; invariants by rule induction.
  \<^item> StreamSocket (socket_client.py, \<open>run_forever\<close>): the events of a connection handed to the
    callbacks, those that raise included, and why that is a run of the socket thread.

  \<^bold>\<open>The API.\<close> Emails (emails.py), Passwords (passwords.py), Tokens (tokens.py), ApiConfig
  (config.py), ApiAuth (auth.py), ApiDb (db.py, queries.py, serialize.py, with the locale
  \<open>accounts\<close>), ApiMain (main.py: every endpoint and the startup); ApiAccounts and ApiAlerts hold
  its properties.

  \<^bold>\<open>The rollup.\<close> RollupConfig (config.py), Candles (candles.py, over the dataframe library),
  RollupWriter (writer.py, db.py, with the locale \<open>upsert_table\<close>), RollupMain (main.py).

  \<^bold>\<open>The dashboard.\<close> DashAuth (auth.py, the client of the API), DashPages (app.py, the session part
  of ui.py, the actions of views/alerts.py, as a step relation), DashStatus (status.py), DashLive
  (live_prices.py, data.py, queries.py, db.py), DashUi (the markup of ui.py), DashMarkets
  (views/markets.py), DashPipeline (views/pipeline.py), DashAlerts (the table of views/alerts.py).
  Whole runs of a script: DashApp (app.py, the page an argument), AlertsPage (views/alerts.py from
  the form to the board, over the JSON the API answers with), DashViews (data.py and the two reading
  pages over the tables).

  \<^bold>\<open>The services together.\<close> Services: a step of the system is a step of a stream thread, a request
  or a startup of the API, a pass of the rollup, or a restart of the stream; the locale \<open>evolution\<close>
  lifts what every step does to the tables to every run. Processes: the two background processes
  from their settings to their exit status, with the reconnect loop.

  \<^bold>\<open>What the lemmas show.\<close> Within the stream: no trade is lost or counted twice on the way from
  the queue to its insert, whatever fails; the session row's counters are true; once the socket is
  closed the main thread reaches the closing statement of the session within nine steps, and that
  statement alone decides how the session ends; alerts fire exactly once and exactly when crossed;
  Redis keeps in step with PostgreSQL. Within the API: accounts, tokens and alerts do what a caller
  sees; every request keeps the keys. Within the rollup: a full minute's candle is that of all its
  trades; a pass closes its run. Within the dashboard: the session's state, and what makes it end;
  the markup of a text is safe; the sparkline stays in its box. Across services: an alert added
  through the API is watched by the stream; the board read from Redis shows what the query over the
  stream's table shows; a press of Delete has the effect its token allows; the pipeline page sees
  the faults the stream and the rollup record; a chart shows for every minute a pass covered the
  prices of the trades the stream stored for it; the alerts page shows the API's list.
  For the system as a whole, whatever the order of the services'
  steps: an alert fires at most once, and on a trade the stream received; rows of trades are never
  changed; a session's run in the company of the other services is a run of the stream's own model;
  every session the stream process has run has one row, numbered, and ended unless its closing
  statement failed, which ends the process too. The theorems that state a defect are named so:
  \<open>rollup_cuts_oldest_minute\<close>, \<open>reconnect_delay_never_grows\<close>, \<open>long_password_fails\<close>,
  \<open>reseed_skips_other_symbols\<close>, \<open>nan_price_forgets_high\<close>, \<open>infinite_threshold_fails\<close>,
  \<open>nan_interval_loads\<close>, \<open>huge_window_raises\<close>.

  \<^bold>\<open>Bounds.\<close> No model takes fuel: every recursion is structural or has a measure. The endless loops
  (the stream's reconnect loop, the rollup's passes) are step relations or recursion over the list
  of what each round meets, so a statement about any such list is one about every finite run. In the
  system's steps a request of the API and a pass of the rollup are one step each: the tables they
  write are not those another service writes, and each reads another's table in one statement.

  \<^bold>\<open>Not modelled.\<close> The libraries themselves (websocket-client, SQLAlchemy, redis-py, FastAPI,
  pydantic, bcrypt, PyJWT, pandas, Streamlit, Plotly); Streamlit's layout, the timers of its
  fragments, its cached clients, and the style sheet; what the server answers to STORAGE_SQL, which
  asks it for sizes (an argument of the pages); \<open>time.sleep\<close> (it refuses an interval that is no number
  or too long, and the stream then leaves \<open>flush_loop\<close> by an exception); a commit whose outcome is
  unknown; the limit of 4300 digits on integers outside the settings; the statements of the schema files, signals and
  printing; containers, workflows, tests and scripts/test_summary.py.
\<close>

section \<open>Properties that span the services\<close>

text \<open>
  C13: An alert added through the API is watched by the stream: it appears, not yet triggered, in
  what the stream reads as pending, under the symbol of the request, stripped and in upper case (a
  symbol that is not ASCII text is stripped and in upper case too, but what the library
  makes of its letters is not said), and the listing shows its owner
  the very threshold the request carried, although the column stores a decimal. The threshold is
  a float, as the validation library delivers it.
\<close>

theorem added_alert_is_pending:
  assumes "pg_keys_ok db" "pydantic_ok P" "float_ok (req_threshold req)"
    and add: "add_alert P J config now failure header req db = (Inr (n, alert), db')"
  shows "\<exists>a user. price_alerts db' = price_alerts db @ [a] \<and> al_id a = n \<and>
    read_pending_alerts db' = read_pending_alerts db @ [pending_of a] \<and>
    get_current_user J config now header = Inr user \<and> owner_email db' a = Some (user_email user) \<and>
    upper (al_symbol a) = al_symbol a \<and> trim (al_symbol a) = al_symbol a \<and>
    (ascii (req_symbol req) \<longrightarrow> al_symbol a = upper (trim (req_symbol req))) \<and> al_direction a = req_direction req \<and>
    aj_threshold (alert_to_dict (listing db' a)) = req_threshold req"
proof -
  from add_alert_Inr [OF pg_users_ok [OF assms(1)] add] obtain user :: authenticated_user and u t where
    g: "get_current_user J config now header = Inr user" "read_alert_request P req = Inr alert"
      "find_user (user_email user) db = Some u" "exact_decimal (req_threshold alert) = Inr t" "n = next_alert_id db"
    and db': "db' = db\<lparr> next_alert_id := Suc n,
      price_alerts := price_alerts db @ [new_alert n u now (req_symbol alert) (req_direction alert) t] \<rparr>" by blast
  let ?a = "new_alert n u now (req_symbol alert) (req_direction alert) t"
  note r = read_alert_request_Inr [OF g(2)]
  have "upper (req_symbol alert) = req_symbol alert" "trim (req_symbol alert) = req_symbol alert"
    "ascii (req_symbol req) \<longrightarrow> req_symbol alert = upper (trim (req_symbol req))"
    using pydantic_value [OF assms(2) conjunct1 [OF r]] by (simp_all add: AlertSymbol_def cased_def trimmed_def)
  moreover have "rnd t = req_threshold req" using exact_decimal_reads [OF assms(3)] g(4) r by simp
  moreover have "List.find (\<lambda>v. us_id v = us_id u) (users db) = Some u"
  proof -
    have "distinct (map us_id (users db))" using assms(1) by (simp add: pg_keys_ok_def serial_ok_def)
    with find_user_Some [OF g(3)] show ?thesis
      by (auto simp: find_Some_iff distinct_conv_nth in_set_conv_nth)
  qed
  moreover from this find_user_Some [OF g(3)] have "owner_email db' ?a = Some (user_email user)"
    by (simp add: owner_email_def db')
  ultimately show ?thesis using g(1) r
    by (intro exI [of _ ?a] exI [of _ user])
      (simp add: db' read_pending_alerts_def alert_to_dict_def listing_def listed_def)
qed

theorem added_alert_is_pending_witness:
  "\<exists>alert db' a. add_alert toy_pydantic toy_jwt demo_config 9000000 None ada_header
       \<lparr> req_symbol = '' nvda'', req_direction = ''above'', req_threshold = Fin 1 \<rparr> ada_db = (Inr (9, alert), db') \<and>
     read_pending_alerts db' = read_pending_alerts ada_db @ [pending_of a]"
proof -
  let ?req = "\<lparr> req_symbol = '' nvda'', req_direction = ''above'', req_threshold = Fin 1 \<rparr> :: alert_request"
  have "conform toy_pydantic AlertSymbol (req_symbol ?req) = Some ''NVDA''" by code_simp
  then have r: "read_alert_request toy_pydantic ?req = Inr (?req\<lparr> req_symbol := ''NVDA'' \<rparr>)"
    by (simp add: read_alert_request_def)
  obtain t where t: "exact_decimal (Fin 1) = Inr t" using exact_decimal_pos [of 1] by auto
  have f: "filter (\<lambda>u. us_email u = ''ada@x.io'') (users ada_db) = [hd (users ada_db)]"
    by (simp add: ada_db_def)
  have n: "next_alert_id ada_db = 9" by (simp add: ada_db_def)
  obtain db' where "insert_alert 9000000 ''ada@x.io'' ''NVDA'' ''above'' (Fin 1) ada_db = Inr (Some 9, db')"
    by (simp add: insert_alert_def text_error_def t f n DIRECTIONS_def Let_def)
  then have add: "add_alert toy_pydantic toy_jwt demo_config 9000000 None ada_header ?req ada_db =
      (Inr (9, ?req\<lparr> req_symbol := ''NVDA'' \<rparr>), db')"
    by (simp add: add_alert_def ada_calls r create_alert_def transaction_None)
  have "float_ok (req_threshold ?req)" by simp
  from added_alert_is_pending [OF ada_db_ok toy_pydantic_ok this add] add show ?thesis by blast
qed

text \<open>
  C10: Pressing Delete does, from the button to the table, what the caller may do. When the page's
  request reaches the API, the page and the database agree with the token: without a valid token
  the session ends and nothing is deleted; a user who is not an admin stays signed in, is told so,
  and nothing is deleted; an admin loses exactly that alert and is told it is deleted, or is told
  it was already gone and nothing changes.
\<close>

theorem delete_end_to_end:
  assumes "http_ok (http_of w)" "ui_token s = Some (JStr token)"
    "remove_alert J config now None (bearer (http_of w) (JStr token)) n db = (answer, db')"
    "send (http_of w) (delete_request (http_of w) (base_url_of w) (JStr token) n (api_timeout w)) =
       Inr \<lparr> status_code = status_of 204 answer, response_json = body \<rparr>"
  shows "(page_delete_alert w n s, db') = (case get_current_user J config now (bearer (http_of w) (JStr token)) of
      Inl e \<Rightarrow> (Some (end_dead_session (show_error w session_expired) s), db)
    | Inr u \<Rightarrow>
        if user_role u \<noteq> ''admin''
        then (Some (Continue, draw (Shown_error (show_error w
               (NotAllowedError ''Only an admin can delete an alert.''))) s), db)
        else if \<exists>a \<in> set (price_alerts db). int (al_id a) = n
        then (Some (rerun (remember_feedback ''success'' (''Alert #'' @ str_of_int n @ '' deleted.'') s)),
              db\<lparr> price_alerts := filter (\<lambda>a. int (al_id a) \<noteq> n) (price_alerts db) \<rparr>)
        else (Some (rerun (remember_feedback ''info'' (''Alert #'' @ str_of_int n @ '' was already gone.'') s)), db))"
proof (cases "get_current_user J config now (bearer (http_of w) (JStr token))")
  case (Inl e)
  with assms(3) have "answer = Inl unauthenticated" "db' = db" by (simp_all add: remove_alert_value)
  with Inl assms(2) delete_by_status [OF assms(1,4)] show ?thesis
    by (simp add: page_delete_alert_def unauthenticated_def session_expired_def)
next
  case (Inr u)
  with assms(2,3) delete_by_status [OF assms(1,4)] show ?thesis
    by (cases "user_role u = ''admin''"; cases "\<exists>a \<in> set (price_alerts db). int (al_id a) = n")
      (auto simp: remove_alert_value page_delete_alert_def)
qed

definition admin_token :: string where
  "admin_token = create_token toy_jwt (jwt_secret demo_config) ''ada@x.io'' ''admin'' 7000000 3600"

text \<open>A site whose requests the model of the API answers.\<close>

definition served_site :: site where
  "served_site = small_site\<lparr> http_of := forgetful\<lparr> send := (\<lambda>q. Inr \<lparr> status_code = status_of 204
     (fst (remove_alert toy_jwt demo_config 9000000 None (rq_authorization q) 7 ada_db)), response_json = Inr JNull \<rparr>) \<rparr> \<rparr>"

theorem delete_end_to_end_witness:
  "\<exists>db'. page_delete_alert served_site 7 (new_session\<lparr> ui_token := Some (JStr admin_token) \<rparr>) =
       Some (rerun (remember_feedback ''success'' ''Alert #7 deleted.'' (new_session\<lparr> ui_token := Some (JStr admin_token) \<rparr>))) \<and>
     map al_id (price_alerts db') = [4, 8] \<and>
     snd (remove_alert toy_jwt demo_config 9000000 None (Some (''Bearer '' @ admin_token)) 7 ada_db) = db'"
proof -
  let ?s = "new_session\<lparr> ui_token := Some (JStr admin_token) \<rparr>" and ?w = "served_site"
  have b: "bearer (http_of ?w) (JStr admin_token) = Some (''Bearer '' @ admin_token)" by (simp add: bearer_def)
  have who: "get_current_user toy_jwt demo_config 9000000 (Some (''Bearer '' @ admin_token)) =
      Inr \<lparr> user_email = ''ada@x.io'', user_role = ''admin'' \<rparr>"
    using token_identifies [OF toy_jwt_ok, of 7000000 9000000 demo_config "''ada@x.io''" "''admin''"]
    by (simp add: admin_token_def demo_config_def del: append.simps)
  obtain answer db' where r: "remove_alert toy_jwt demo_config 9000000 None (bearer (http_of ?w) (JStr admin_token)) 7 ada_db = (answer, db')"
    by fastforce
  have ok: "http_ok (http_of ?w)" using forgetful_ok by (simp add: served_site_def http_ok_def small_site_def forgetful_def)
  have "send (http_of ?w) (delete_request (http_of ?w) (base_url_of ?w) (JStr admin_token) 7 (api_timeout ?w)) =
      Inr \<lparr> status_code = status_of 204 answer, response_json = Inr JNull \<rparr>"
    using r by (simp add: served_site_def delete_request_def small_site_def)
  from delete_end_to_end [OF ok _ r this, of ?s] who b have
    "page_delete_alert ?w 7 ?s = Some (rerun (remember_feedback ''success'' (''Alert #'' @ str_of_int 7 @ '' deleted.'') ?s))"
    "db' = ada_db\<lparr> price_alerts := filter (\<lambda>a. int (al_id a) \<noteq> 7) (price_alerts ada_db) \<rparr>"
    by (simp_all add: ada_db_def)
  moreover have "str_of_int 7 = ''7''" by code_simp
  ultimately show ?thesis using r b by (simp add: ada_db_def)
qed

end
